(* ===== verification/Prelude.thy ===== *)
theory Prelude
  imports Main "HOL-Library.Word"
begin

section \<open>Prelude: Go errors, panics, faults of remote services, decimal printing\<close>

text \<open>
  What every other theory shares.  Go's error values (\<open>errors.Is\<close>, \<open>Error()\<close>, the wrapping
  done by \<open>fmt.Errorf\<close> with \<open>%w\<close>), the outcome of a call that may panic, the ways a call to a
  remote service can fail, and \<open>strconv.Itoa\<close>.  Strings are Isabelle's character lists: a
  character is a byte, as in a Go string.
\<close>

named_theorems go_simps \<open>evaluation of Go error values and outcomes\<close>

subsection \<open>Errors\<close>

text \<open>The sentinel values the program compares against with \<open>errors.Is\<close> or wraps.\<close>

datatype sentinel =
    ContextCanceled
  | ContextDeadlineExceeded
  | ErrMaxRetriesExceeded
  | RedisNil
  | PgxErrNoRows

text \<open>
  \<open>Opaque t\<close> is an error without an \<open>Unwrap\<close> method and with text \<open>t\<close>;
  \<open>Wrapf pre e post\<close> is \<open>fmt.Errorf (pre ++ "%w" ++ post, e)\<close> with the other verbs already
  printed into \<open>pre\<close> and \<open>post\<close>.
\<close>

datatype go_error =
    Sentinel sentinel
  | Opaque string
  | Wrapf string go_error string

type_synonym error = "go_error option"

fun sentinel_text :: "sentinel \<Rightarrow> string" where
  "sentinel_text ContextCanceled = ''context canceled''"
| "sentinel_text ContextDeadlineExceeded = ''context deadline exceeded''"
| "sentinel_text ErrMaxRetriesExceeded = ''max retries exceeded''"
| "sentinel_text RedisNil = ''redis: nil''"
| "sentinel_text PgxErrNoRows = ''no rows in result set''"

text \<open>The method \<open>Error()\<close>.\<close>

primrec error_text :: "go_error \<Rightarrow> string" where
  "error_text (Sentinel s) = sentinel_text s"
| "error_text (Opaque t) = t"
| "error_text (Wrapf pre e post) = pre @ error_text e @ post"

text \<open>\<open>errors.Is\<close>: the error itself or one it wraps.\<close>

primrec errors_is :: "go_error \<Rightarrow> sentinel \<Rightarrow> bool" where
  "errors_is (Sentinel s) t = (s = t)"
| "errors_is (Opaque t') t = False"
| "errors_is (Wrapf pre e post) t = errors_is e t"

text \<open>The verb \<open>%v\<close> applied to an error that may be nil.\<close>

definition print_v :: "error \<Rightarrow> string" where
  "print_v e = (case e of None \<Rightarrow> ''<nil>'' | Some e' \<Rightarrow> error_text e')"

lemma print_v_simps [simp, go_simps]:
  "print_v None = ''<nil>''" "print_v (Some e) = error_text e"
  by (simp_all add: print_v_def)

subsection \<open>Panics\<close>

text \<open>A call either returns a value or panics; the text is the run-time error's.\<close>

datatype 'a go = Ret 'a | Panicked string

fun returned :: "'a go \<Rightarrow> bool" where
  "returned (Ret x) = True"
| "returned (Panicked p) = False"

subsection \<open>Faults of a remote service\<close>

text \<open>
  A call to Postgres or Kafka has three outcomes the client cannot choose: it is carried out and
  answered, it is refused (a network error, a cancelled context) without being carried out, or it
  is carried out and the reply is lost.  The error value is the service's.
\<close>

datatype fault = NoFault | Refused go_error | LostReply go_error

definition with_fault :: "fault \<Rightarrow> ('s \<Rightarrow> error \<times> 's) \<Rightarrow> 's \<Rightarrow> error \<times> 's" where
  "with_fault f op s =
     (case f of
        NoFault \<Rightarrow> op s
      | Refused e \<Rightarrow> (Some e, s)
      | LostReply e \<Rightarrow> (Some e, snd (op s)))"

text \<open>A read has no effect to lose, so both kinds of fault look alike.\<close>

definition read_fault :: "fault \<Rightarrow> (go_error + 'a) \<Rightarrow> go_error + 'a" where
  "read_fault f r = (case f of NoFault \<Rightarrow> r | Refused e \<Rightarrow> Inl e | LostReply e \<Rightarrow> Inl e)"

lemma with_fault_simps [simp, go_simps]:
  "with_fault NoFault op s = op s"
  "with_fault (Refused e) op s = (Some e, s)"
  "with_fault (LostReply e) op s = (Some e, snd (op s))"
  by (simp_all add: with_fault_def)

lemma read_fault_simps [simp, go_simps]:
  "read_fault NoFault r = r"
  "read_fault (Refused e) r = Inl e"
  "read_fault (LostReply e) r = Inl e"
  by (simp_all add: read_fault_def)

lemma with_fault_state:
  "snd (with_fault f op s) = s \<or> snd (with_fault f op s) = snd (op s)"
  by (cases f) simp_all

lemma with_fault_ok:
  "with_fault f op s = (None, s') \<Longrightarrow> f = NoFault \<and> op s = (None, s')"
  by (cases f) simp_all

lemma read_fault_Inr: "read_fault f r = Inr x \<Longrightarrow> f = NoFault \<and> r = Inr x"
  by (cases f) simp_all

subsection \<open>Decimal numbers\<close>

text \<open>\<open>strconv.Itoa\<close> and the verb \<open>%d\<close>.\<close>

definition digit_char :: "nat \<Rightarrow> char" where
  "digit_char d = char_of (48 + d)"

lemma digit_char_simps [simp]:
  "digit_char 0 = CHR ''0''" "digit_char (Suc 0) = CHR ''1''" "digit_char 2 = CHR ''2''"
  "digit_char 3 = CHR ''3''" "digit_char 4 = CHR ''4''" "digit_char 5 = CHR ''5''"
  "digit_char 6 = CHR ''6''" "digit_char 7 = CHR ''7''" "digit_char 8 = CHR ''8''"
  "digit_char 9 = CHR ''9''"
  by (simp_all add: digit_char_def char_of_def bit_0)

fun show_nat :: "nat \<Rightarrow> string" where
  "show_nat n =
     (if n < 10 then [digit_char n] else show_nat (n div 10) @ [digit_char (n mod 10)])"

declare show_nat.simps [simp del]

definition show_int :: "int \<Rightarrow> string" where
  "show_int i = (if i < 0 then CHR ''-'' # show_nat (nat (- i)) else show_nat (nat i))"

lemma show_nat_nonempty [simp]: "show_nat n \<noteq> []"
  by (subst show_nat.simps) simp

subsection \<open>Durations\<close>

text \<open>\<open>time.Duration\<close>: a signed 64-bit count of nanoseconds.\<close>

type_synonym duration = "64 word"

definition Millisecond :: duration where "Millisecond = 1000000"
definition Second :: duration where "Second = 1000000000"
definition Minute :: duration where "Minute = 60000000000"
definition Hour :: duration where "Hour = 3600000000000"

subsection \<open>Sequencing of fallible steps\<close>

definition sum_bind :: "'e + 'a \<Rightarrow> ('a \<Rightarrow> 'e + 'b) \<Rightarrow> 'e + 'b" where
  "sum_bind x f = (case x of Inl e \<Rightarrow> Inl e | Inr a \<Rightarrow> f a)"

fun map_fallible :: "('a \<Rightarrow> 'e + 'b) \<Rightarrow> 'a list \<Rightarrow> 'e + 'b list" where
  "map_fallible f [] = Inr []"
| "map_fallible f (x # xs) =
     sum_bind (f x) (\<lambda>y. sum_bind (map_fallible f xs) (\<lambda>ys. Inr (y # ys)))"

lemma sum_bind_simps [simp]:
  "sum_bind (Inl e) f = Inl e" "sum_bind (Inr a) f = f a"
  by (simp_all add: sum_bind_def)

lemma sum_bind_Inr_iff:
  "sum_bind x f = Inr y \<longleftrightarrow> (\<exists>a. x = Inr a \<and> f a = Inr y)"
  by (cases x) simp_all

lemma map_fallible_Inr_iff:
  "map_fallible f xs = Inr ys \<longleftrightarrow> list_all2 (\<lambda>x y. f x = Inr y) xs ys"
  by (induction xs arbitrary: ys) (auto simp: sum_bind_Inr_iff list_all2_Cons1)

lemma map_fallible_member:
  "map_fallible f xs = Inr ys \<Longrightarrow> y \<in> set ys \<Longrightarrow> \<exists>x \<in> set xs. f x = Inr y"
  by (induction xs arbitrary: ys) (auto simp: sum_bind_Inr_iff)

subsection \<open>Iteration\<close>

text \<open>What a run of steps reaches early is where the rest of the run starts.\<close>

lemma run_prefix:
  assumes "(f ^^ k) x = y" "k \<le> m"
  shows "(f ^^ m) x = (f ^^ (m - k)) y"
  using assms by (metis funpow_add comp_apply le_add_diff_inverse2)

end
