(* ===== verification/Logger.thy ===== *)
theory Logger
  imports Prelude
begin

section \<open>Structured logging and request contexts\<close>

text \<open>
  \<^verbatim>\<open>pkg/logger/logger.go\<close> and the part of \<open>log/slog\<close> and \<open>context\<close> it uses.  A logger is its
  minimal level and the attributes attached by \<open>With\<close>; the output is the list of emitted lines.
  Attribute values are their printed text.
\<close>

datatype level = LevelDebug | LevelInfo | LevelWarn | LevelError

fun level_rank :: "level \<Rightarrow> int" where
  "level_rank LevelDebug = - 4"
| "level_rank LevelInfo = 0"
| "level_rank LevelWarn = 4"
| "level_rank LevelError = 8"

type_synonym attrs = "(string \<times> string) list"

record logline =
  line_level :: level
  line_msg :: string
  line_attrs :: attrs

type_synonym stdout = "logline list"

record logger =
  logger_level :: level
  logger_attrs :: attrs

definition NewLogger :: logger where
  "NewLogger = \<lparr>logger_level = LevelInfo, logger_attrs = []\<rparr>"

definition With :: "logger \<Rightarrow> attrs \<Rightarrow> logger" where
  "With lg as = lg\<lparr>logger_attrs := logger_attrs lg @ as\<rparr>"

definition emit :: "logger \<Rightarrow> level \<Rightarrow> string \<Rightarrow> attrs \<Rightarrow> stdout \<Rightarrow> stdout" where
  "emit lg lv msg as out =
     (if level_rank (logger_level lg) \<le> level_rank lv
      then out @ [\<lparr>line_level = lv, line_msg = msg, line_attrs = logger_attrs lg @ as\<rparr>]
      else out)"

text \<open>
  A context is the list of its key-value pairs, the innermost first.  The two packages that store
  values use key types of their own (\<open>contextKey\<close> and \<open>contextKeyRequestID\<close>), so the keys differ
  whatever their text: they are two constructors here.
\<close>

datatype ctx_key = LoggerKey | RequestIDKey

datatype ctx_val = LoggerVal logger | StringVal string

type_synonym ctx = "(ctx_key \<times> ctx_val) list"

definition WithValue :: "ctx \<Rightarrow> ctx_key \<Rightarrow> ctx_val \<Rightarrow> ctx" where
  "WithValue c k v = (k, v) # c"

definition Value :: "ctx \<Rightarrow> ctx_key \<Rightarrow> ctx_val option" where
  "Value c k = map_of c k"

definition WithContext :: "ctx \<Rightarrow> logger \<Rightarrow> ctx" where
  "WithContext c l = WithValue c LoggerKey (LoggerVal l)"

definition FromContext :: "ctx \<Rightarrow> logger" where
  "FromContext c = (case Value c LoggerKey of Some (LoggerVal l) \<Rightarrow> l | _ \<Rightarrow> NewLogger)"

lemma emit_NewLogger [simp]:
  "level_rank LevelInfo \<le> level_rank lv \<Longrightarrow> logger_level lg = LevelInfo \<Longrightarrow>
   emit lg lv msg as out =
     out @ [\<lparr>line_level = lv, line_msg = msg, line_attrs = logger_attrs lg @ as\<rparr>]"
  by (simp add: emit_def)

lemma emit_prefix: "\<exists>ls. emit lg lv msg as out = out @ ls"
  by (simp add: emit_def)

lemma With_level [simp]: "logger_level (With lg as) = logger_level lg"
  by (simp add: With_def)

lemma NewLogger_level [simp]: "logger_level NewLogger = LevelInfo"
  by (simp add: NewLogger_def)

lemma Value_WithValue [simp]:
  "Value (WithValue c k v) k' = (if k' = k then Some v else Value c k')"
  by (simp add: Value_def WithValue_def)

text \<open>A logger put into a context is found again, under any later request id.\<close>

lemma FromContext_WithContext:
  "FromContext (WithContext c l) = l"
  "FromContext (WithValue (WithContext c l) RequestIDKey v) = l"
  "FromContext [] = NewLogger"
  by (simp_all add: FromContext_def WithContext_def) (simp add: Value_def)

end
