(* ===== verification/Utf8.thy ===== *)
theory Utf8
  imports Prelude
begin

section \<open>UTF-8\<close>

text \<open>
  What the program uses of Go's \<^verbatim>\<open>unicode/utf8\<close>, through \<^verbatim>\<open>encoding/json\<close>: a string is a sequence
  of bytes, \<open>rune_len\<close> is the width of the rune that a valid encoding at its start denotes (0 when
  there is none), and a byte that starts no valid encoding is replaced by U+FFFD.
\<close>

definition byte :: "char \<Rightarrow> nat" where "byte c = of_char c"

definition in_range :: "nat \<Rightarrow> nat \<Rightarrow> char \<Rightarrow> bool" where
  "in_range lo hi c \<longleftrightarrow> lo \<le> byte c \<and> byte c \<le> hi"

definition cont :: "char \<Rightarrow> bool" where "cont = in_range 0x80 0xBF"

text \<open>The first two bytes of an encoding of three and of four bytes.\<close>

definition lead3 :: "char \<Rightarrow> char \<Rightarrow> bool" where
  "lead3 a b \<longleftrightarrow>
     byte a = 0xE0 \<and> in_range 0xA0 0xBF b \<or>
     (in_range 0xE1 0xEC a \<or> in_range 0xEE 0xEF a) \<and> cont b \<or>
     byte a = 0xED \<and> in_range 0x80 0x9F b"

definition lead4 :: "char \<Rightarrow> char \<Rightarrow> bool" where
  "lead4 a b \<longleftrightarrow>
     byte a = 0xF0 \<and> in_range 0x90 0xBF b \<or>
     in_range 0xF1 0xF3 a \<and> cont b \<or>
     byte a = 0xF4 \<and> in_range 0x80 0x8F b"

definition rune_len :: "string \<Rightarrow> nat" where
  "rune_len s =
     (case s of
        [] \<Rightarrow> 0
      | a # s1 \<Rightarrow> if byte a < 0x80 then 1 else
     (case s1 of
        [] \<Rightarrow> 0
      | b # s2 \<Rightarrow> if in_range 0xC2 0xDF a then (if cont b then 2 else 0) else
     (case s2 of
        [] \<Rightarrow> 0
      | c # s3 \<Rightarrow> if lead3 a b then (if cont c then 3 else 0) else
     (case s3 of
        [] \<Rightarrow> 0
      | d # s4 \<Rightarrow> if lead4 a b \<and> cont c \<and> cont d then 4 else 0))))"

text \<open>The runes of a string in order; \<open>None\<close> is an invalid byte.\<close>

function runes :: "string \<Rightarrow> string option list" where
  "runes [] = []"
| "runes (a # s) =
     (if rune_len (a # s) = 0 then None # runes s
      else Some (take (rune_len (a # s)) (a # s)) # runes (drop (rune_len (a # s)) (a # s)))"
  by pat_completeness auto
termination by (relation "measure length") auto

definition replacement :: string where
  "replacement = map char_of [0xEF, 0xBF, 0xBD :: nat]"

definition rune_bytes :: "string option \<Rightarrow> string" where
  "rune_bytes r = (case r of None \<Rightarrow> replacement | Some u \<Rightarrow> u)"

definition utf8_fix :: "string \<Rightarrow> string" where
  "utf8_fix s = concat (map rune_bytes (runes s))"

definition utf8_valid :: "string \<Rightarrow> bool" where
  "utf8_valid s \<longleftrightarrow> None \<notin> set (runes s)"

lemma rune_len_le: "rune_len s \<le> length s"
  by (auto simp: rune_len_def split: list.splits)

lemma rune_len_take:
  assumes "rune_len s \<noteq> 0"
  shows "rune_len (take (rune_len s) s @ t) = rune_len s"
proof (cases s)
  case Nil
  then show ?thesis using assms by (simp add: rune_len_def)
next
  case (Cons a s1)
  show ?thesis
  proof (cases "byte a < 128")
    case True
    then show ?thesis using Cons by (simp add: rune_len_def)
  next
    case False
    then obtain b s2 where s1: "s1 = b # s2"
      using assms Cons by (auto simp: rune_len_def split: list.splits)
    show ?thesis
    proof (cases "in_range 0xC2 0xDF a")
      case True
      then show ?thesis using assms Cons s1 False by (auto simp: rune_len_def)
    next
      case no2: False
      then obtain c s3 where s2: "s2 = c # s3"
        using assms Cons s1 False by (auto simp: rune_len_def split: list.splits)
      show ?thesis
      proof (cases "lead3 a b")
        case True
        then show ?thesis using assms Cons s1 s2 no2 False by (auto simp: rune_len_def)
      next
        case no3: False
        then obtain d s4 where "s3 = d # s4"
          using assms Cons s1 s2 no2 False by (auto simp: rune_len_def split: list.splits)
        then show ?thesis using assms Cons s1 s2 no2 no3 False by (auto simp: rune_len_def)
      qed
    qed
  qed
qed

text \<open>A rune of a string is a valid encoding: its own width is its length.\<close>

lemma runes_wide:
  "Some u \<in> set (runes s) \<Longrightarrow> u \<noteq> [] \<and> (\<forall>t. rune_len (u @ t) = length u)"
proof (induction s rule: runes.induct)
  case 1
  then show ?case by simp
next
  case (2 a s)
  show ?case
  proof (cases "rune_len (a # s) = 0")
    case True
    then show ?thesis using 2 by simp
  next
    case False
    let ?n = "rune_len (a # s)"
    consider "u = take ?n (a # s)" | "Some u \<in> set (runes (drop ?n (a # s)))"
      using "2.prems" False by auto
    then show ?thesis
    proof cases
      case 1
      then show ?thesis
        using False rune_len_take [OF False] rune_len_le [of "a # s"] by auto
    next
      case 2
      then show ?thesis using "2.IH"(2) [OF False] by simp
    qed
  qed
qed

lemma utf8_fix_valid: "utf8_valid s \<Longrightarrow> utf8_fix s = s"
proof (induction s rule: runes.induct)
  case 1
  then show ?case by (simp add: utf8_fix_def)
next
  case (2 a s)
  show ?case
  proof (cases "rune_len (a # s) = 0")
    case True
    then show ?thesis using "2.prems" by (simp add: utf8_valid_def)
  next
    case False
    let ?n = "rune_len (a # s)"
    have "utf8_fix (a # s) = take ?n (a # s) @ utf8_fix (drop ?n (a # s))"
      using False by (simp add: utf8_fix_def rune_bytes_def del: take_Suc_Cons)
    also have "utf8_fix (drop ?n (a # s)) = drop ?n (a # s)"
      using 2 False by (simp add: utf8_valid_def)
    finally show ?thesis by simp
  qed
qed

lemma runes_append_rune:
  assumes "u \<noteq> []" "rune_len (u @ t) = length u"
  shows "runes (u @ t) = Some u # runes t"
  using assms by (cases u) auto

lemma replacement_wide: "rune_len (replacement @ t) = length replacement" "replacement \<noteq> []"
  by (simp_all add: rune_len_def replacement_def byte_def in_range_def lead3_def cont_def)

text \<open>Repairing a string leaves a valid one, so it is idempotent.\<close>

lemma runes_fix: "runes (utf8_fix s) = map (\<lambda>r. Some (rune_bytes r)) (runes s)"
proof -
  have "runes (concat (map rune_bytes rs)) = map (\<lambda>r. Some (rune_bytes r)) rs"
    if "set rs \<subseteq> set (runes s)" for rs
    using that
  proof (induction rs)
    case (Cons r rs)
    have "rune_bytes r \<noteq> [] \<and> (\<forall>t. rune_len (rune_bytes r @ t) = length (rune_bytes r))"
      using runes_wide [of _ s] replacement_wide Cons.prems
      by (cases r) (auto simp: rune_bytes_def)
    then show ?case using Cons by (simp add: runes_append_rune)
  qed simp
  then show ?thesis by (simp add: utf8_fix_def)
qed

lemma utf8_valid_fix [simp]: "utf8_valid (utf8_fix s)"
  by (auto simp: utf8_valid_def runes_fix)

lemma utf8_fix_idem [simp]: "utf8_fix (utf8_fix s) = utf8_fix s"
  by (rule utf8_fix_valid) simp

lemma utf8_fix_Nil [simp]: "utf8_fix [] = []" and utf8_valid_Nil [simp]: "utf8_valid []"
  by (simp_all add: utf8_fix_def utf8_valid_def)

text \<open>A string of ASCII bytes is valid.\<close>

lemma runes_ascii: "byte a < 0x80 \<Longrightarrow> runes (a # s) = Some [a] # runes s"
  using runes_append_rune [of "[a]" s] by (simp add: rune_len_def)

lemma ascii_valid: "list_all (\<lambda>a. byte a < 0x80) s \<Longrightarrow> utf8_valid s"
  by (induction s) (simp_all add: utf8_valid_def runes_ascii del: runes.simps(2))

lemma utf8_fix_ascii: "list_all (\<lambda>a. byte a < 0x80) s \<Longrightarrow> utf8_fix s = s"
  by (rule utf8_fix_valid) (rule ascii_valid)

text \<open>The encoding of a code point (\<open>utf8.AppendRune\<close>); surrogates and values beyond U+10FFFF are
  replaced.\<close>

definition rune_encode :: "nat \<Rightarrow> string" where
  "rune_encode v = map char_of
     (if v < 0x80 then [v]
      else if v < 0x800 then [0xC0 + v div 0x40, 0x80 + v mod 0x40]
      else if 0xD800 \<le> v \<and> v < 0xE000 \<or> 0x10FFFF < v then [0xEF, 0xBF, 0xBD]
      else if v < 0x10000 then
        [0xE0 + v div 0x1000, 0x80 + v div 0x40 mod 0x40, 0x80 + v mod 0x40]
      else
        [0xF0 + v div 0x40000, 0x80 + v div 0x1000 mod 0x40, 0x80 + v div 0x40 mod 0x40,
         0x80 + v mod 0x40])"

end
