(* ===== verification/Json.thy ===== *)
theory Json
  imports Utf8
begin

section \<open>JSON\<close>

text \<open>
  What the program uses of \<^verbatim>\<open>encoding/json\<close>: the text that \<open>json.Marshal\<close> writes (compact, with the
  HTML-sensitive characters escaped) and the parser behind \<open>json.Unmarshal\<close> and \<open>Decoder.Decode\<close>, a
  stack machine over tokens with Go's nesting limit.  How a parsed value is stored into a struct is
  modelled with each struct.
\<close>

datatype jval =
    JNull
  | JBool bool
  | JNum string
  | JStr string
  | JArr "jval list"
  | JObj "(string \<times> jval) list"

subsection \<open>Strings\<close>

definition hex_digit :: "nat \<Rightarrow> char" where
  "hex_digit d = (if d < 10 then char_of (48 + d) else char_of (87 + d))"

definition hex_value :: "char \<Rightarrow> nat option" where
  "hex_value c =
     (if in_range 48 57 c then Some (byte c - 48)
      else if in_range 97 102 c then Some (byte c - 87)
      else if in_range 65 70 c then Some (byte c - 55)
      else None)"

definition u_escape :: "nat \<Rightarrow> string" where
  "u_escape v = CHR 0x5C # CHR ''u'' #
     [hex_digit (v div 0x1000 mod 16), hex_digit (v div 0x100 mod 16),
      hex_digit (v div 16 mod 16), hex_digit (v mod 16)]"

definition escape_ascii :: "char \<Rightarrow> string" where
  "escape_ascii a =
     (if a = CHR 0x5C \<or> a = CHR 0x22 then [CHR 0x5C, a]
      else if a = CHR 0x08 then [CHR 0x5C, CHR ''b'']
      else if a = CHR 0x0C then [CHR 0x5C, CHR ''f'']
      else if a = CHR 0x0A then [CHR 0x5C, CHR ''n'']
      else if a = CHR 0x0D then [CHR 0x5C, CHR ''r'']
      else if a = CHR 0x09 then [CHR 0x5C, CHR ''t'']
      else if byte a < 0x20 \<or> a \<in> {CHR ''<'', CHR ''>'', CHR ''&''} then u_escape (byte a)
      else [a])"

definition escape_rune :: "string option \<Rightarrow> string" where
  "escape_rune r =
     (case r of
        None \<Rightarrow> u_escape 0xFFFD
      | Some u \<Rightarrow>
          if length u = 1 then escape_ascii (hd u)
          else if u = rune_encode 0x2028 then u_escape 0x2028
          else if u = rune_encode 0x2029 then u_escape 0x2029
          else u)"

definition json_quote :: "string \<Rightarrow> string" where
  "json_quote s = CHR 0x22 # concat (map escape_rune (runes s)) @ [CHR 0x22]"

fun hex4 :: "string \<Rightarrow> (nat \<times> string) option" where
  "hex4 (a # b # c # d # s) =
     (case (hex_value a, hex_value b, hex_value c, hex_value d) of
        (Some w, Some x, Some y, Some z) \<Rightarrow> Some (((w * 16 + x) * 16 + y) * 16 + z, s)
      | _ \<Rightarrow> None)"
| "hex4 s = None"

definition simple_escape :: "char \<Rightarrow> char option" where
  "simple_escape c =
     (if c = CHR 0x22 \<or> c = CHR 0x5C \<or> c = CHR ''/'' then Some c
      else if c = CHR ''b'' then Some (CHR 0x08)
      else if c = CHR ''f'' then Some (CHR 0x0C)
      else if c = CHR ''n'' then Some (CHR 0x0A)
      else if c = CHR ''r'' then Some (CHR 0x0D)
      else if c = CHR ''t'' then Some (CHR 0x09)
      else None)"

text \<open>The second half of a surrogate pair, when the text goes on with one.\<close>

definition low_surrogate :: "nat \<Rightarrow> string \<Rightarrow> (nat \<times> string) option" where
  "low_surrogate hi s =
     (if 0xD800 \<le> hi \<and> hi < 0xDC00 \<and> take 2 s = [CHR 0x5C, CHR ''u''] then
        (case hex4 (drop 2 s) of
           Some (lo, s') \<Rightarrow> if 0xDC00 \<le> lo \<and> lo < 0xE000 then Some (lo, s') else None
         | None \<Rightarrow> None)
      else None)"

text \<open>One element of a string literal: a raw rune or an escape, and what follows it.\<close>

definition scan_rune :: "string \<Rightarrow> (string \<times> string) option" where
  "scan_rune s =
     (case s of
        [] \<Rightarrow> None
      | a # s1 \<Rightarrow>
          if a = CHR 0x5C then
            (case s1 of
               [] \<Rightarrow> None
             | e # s2 \<Rightarrow>
                 if e = CHR ''u'' then
                   (case hex4 s2 of
                      None \<Rightarrow> None
                    | Some (v, s3) \<Rightarrow>
                        (case low_surrogate v s3 of
                           Some (lo, s4) \<Rightarrow>
                             Some (rune_encode (0x10000 + (v - 0xD800) * 0x400 + (lo - 0xDC00)), s4)
                         | None \<Rightarrow> Some (rune_encode v, s3)))
                 else map_option (\<lambda>c. ([c], s2)) (simple_escape e))
          else if byte a < 0x20 then None
          else if rune_len s = 0 then Some (replacement, s1)
          else Some (take (rune_len s) s, drop (rune_len s) s))"

lemma hex4_shorter: "hex4 s = Some (v, s') \<Longrightarrow> length s' < length s"
  by (induction s rule: hex4.induct) (auto split: option.splits)

lemma low_surrogate_shorter: "low_surrogate v s = Some (x, s') \<Longrightarrow> length s' < length s"
  by (auto simp: low_surrogate_def split: if_splits option.splits dest!: hex4_shorter)

lemma scan_rune_shorter: "scan_rune s = Some (u, s') \<Longrightarrow> length s' < length s"
  by (auto simp: scan_rune_def split: list.splits if_splits option.splits
      dest!: hex4_shorter low_surrogate_shorter)

text \<open>The body of a string literal up to and including the closing quote.\<close>

function scan_body :: "string \<Rightarrow> (string \<times> string) option" where
  "scan_body s =
     (case s of
        [] \<Rightarrow> None
      | a # s1 \<Rightarrow>
          if a = CHR 0x22 then Some ([], s1)
          else
            (case scan_rune s of
               None \<Rightarrow> None
             | Some (u, s') \<Rightarrow> map_option (\<lambda>(us, rest). (u @ us, rest)) (scan_body s')))"
  by pat_completeness auto
termination by (relation "measure length") (auto dest: scan_rune_shorter)

declare scan_body.simps [simp del]

lemma scan_body_shorter: "scan_body s = Some (u, s') \<Longrightarrow> length s' < length s"
proof (induction s arbitrary: u rule: scan_body.induct)
  case (1 s)
  show ?case
  proof (cases s)
    case Nil
    then show ?thesis using "1.prems" by (simp add: scan_body.simps)
  next
    case (Cons a s1)
    show ?thesis
    proof (cases "a = CHR 0x22")
      case True
      then show ?thesis using "1.prems" Cons by (simp add: scan_body.simps)
    next
      case False
      then obtain v r us where v: "scan_rune s = Some (v, r)" "scan_body r = Some (us, s')"
        using "1.prems" Cons by (subst (asm) scan_body.simps) (auto split: option.splits)
      have "length s' < length r" using "1.IH" [OF Cons False v(1) refl v(2)] .
      then show ?thesis using scan_rune_shorter [OF v(1)] by simp
    qed
  qed
qed

text \<open>Reading back what was written.\<close>

lemma byte_less: "byte a < 256" and char_of_byte [simp]: "char_of (byte a) = a"
  by (simp_all add: byte_def)

lemma byte_char_of: "n < 256 \<Longrightarrow> byte (char_of n) = n"
  by (simp add: byte_def)

lemma hex_value_digit: "d < 16 \<Longrightarrow> hex_value (hex_digit d) = Some d"
  by (simp add: hex_value_def hex_digit_def in_range_def byte_char_of)

lemma hex4_u_escape:
  assumes "v < 0x10000"
  shows "hex4 (drop 2 (u_escape v) @ t) = Some (v, t)"
proof -
  have "v div 256 = v div 16 div 16" "v div 4096 = v div 256 div 16"
    by (simp_all add: div_mult2_eq [symmetric])
  moreover have "v div 4096 < 16" using assms by (simp add: less_mult_imp_div_less)
  moreover have "x = x div 16 * 16 + x mod 16" for x :: nat by simp
  ultimately have
    "((v div 4096 mod 16 * 16 + v div 256 mod 16) * 16 + v div 16 mod 16) * 16 + v mod 16 = v"
    by (metis mod_less)
  moreover have "v div 4096 mod 16 = v div 4096" "hex_value (hex_digit (v div 4096)) = Some (v div 4096)"
    using assms by (simp_all add: hex_value_digit less_mult_imp_div_less)
  ultimately show ?thesis by (simp add: u_escape_def hex_value_digit)
qed

lemma rune_encode_ascii: "v < 0x80 \<Longrightarrow> rune_encode v = [char_of v]"
  by (simp add: rune_encode_def)

lemma scan_u_escape:
  assumes "v < 0x10000" "v < 0xD800 \<or> 0xE000 \<le> v"
  shows "scan_rune (u_escape v @ t) = Some (rune_encode v, t)"
proof -
  define h where "h = drop 2 (u_escape v)"
  have h: "u_escape v = CHR 0x5C # CHR ''u'' # h" by (simp add: h_def u_escape_def)
  have "hex4 (h @ t) = Some (v, t)" using hex4_u_escape [OF assms(1)] by (simp add: h_def)
  moreover have "low_surrogate v t = None" using assms(2) by (auto simp: low_surrogate_def)
  ultimately show ?thesis by (simp add: h scan_rune_def)
qed

lemma scan_escape_ascii:
  assumes "byte a < 0x80"
  shows "scan_rune (escape_ascii a @ t) = Some ([a], t)"
proof -
  have u: "scan_rune (u_escape (byte a) @ t) = Some ([a], t)"
    using scan_u_escape [of "byte a" t] rune_encode_ascii [OF assms] assms by simp
  have plain: "scan_rune (a # t) = Some ([a], t)" if "\<not> byte a < 0x20" "a \<noteq> CHR 0x5C"
    using that assms by (simp add: scan_rune_def rune_len_def)
  have esc: "scan_rune (CHR 0x5C # e # t) = Some ([c], t)"
    if "e \<noteq> CHR ''u''" "simple_escape e = Some c" for e c
    using that by (simp add: scan_rune_def)
  note d = escape_ascii_def simple_escape_def
  consider "a \<in> {CHR 0x5C, CHR 0x22}" | "a = CHR 0x08" | "a = CHR 0x0C" | "a = CHR 0x0A"
    | "a = CHR 0x0D" | "a = CHR 0x09"
    | "a \<notin> {CHR 0x5C, CHR 0x22, CHR 0x08, CHR 0x0C, CHR 0x0A, CHR 0x0D, CHR 0x09}" by blast
  then show ?thesis
  proof cases
    case 1
    then have "escape_ascii a = [CHR 0x5C, a]" "simple_escape a = Some a" "a \<noteq> CHR ''u''"
      by (auto simp: d)
    then show ?thesis using esc [of a a] by simp
  next
    case 2
    show ?thesis unfolding 2 using esc [of "CHR ''b''" "CHR 0x08"] by (simp add: d)
  next
    case 3
    show ?thesis unfolding 3 using esc [of "CHR ''f''" "CHR 0x0C"] by (simp add: d)
  next
    case 4
    show ?thesis unfolding 4 using esc [of "CHR ''n''" "CHR 0x0A"] by (simp add: d)
  next
    case 5
    show ?thesis unfolding 5 using esc [of "CHR ''r''" "CHR 0x0D"] by (simp add: d)
  next
    case 6
    show ?thesis unfolding 6 using esc [of "CHR ''t''" "CHR 0x09"] by (simp add: d)
  next
    case 7
    then have "escape_ascii a =
        (if byte a < 0x20 \<or> a \<in> {CHR ''<'', CHR ''>'', CHR ''&''} then u_escape (byte a) else [a])"
      by (simp add: escape_ascii_def)
    then show ?thesis using u plain 7 by (simp split: if_splits)
  qed
qed

lemma rune_first: "rune_len u = length u \<Longrightarrow> u \<noteq> [] \<Longrightarrow> length u \<noteq> 1 \<Longrightarrow> \<not> byte (hd u) < 0x80"
  by (cases u) (auto simp: rune_len_def)

lemma scan_escape_rune:
  assumes "r \<in> set (runes s)"
  shows "scan_rune (escape_rune r @ t) = Some (rune_bytes r, t)"
proof (cases r)
  case None
  have "rune_encode 0xFFFD = replacement"
    by (simp add: rune_encode_def replacement_def)
  then show ?thesis
    using None scan_u_escape [of "0xFFFD" t] by (simp add: escape_rune_def rune_bytes_def)
next
  case (Some u)
  then have u: "u \<noteq> []" "\<And>t. rune_len (u @ t) = length u" using runes_wide [of u s] assms by auto
  consider "length u = 1" | "u = rune_encode 0x2028" "length u \<noteq> 1"
    | "u = rune_encode 0x2029" "length u \<noteq> 1" "u \<noteq> rune_encode 0x2028"
    | "length u \<noteq> 1" "u \<noteq> rune_encode 0x2028" "u \<noteq> rune_encode 0x2029" by blast
  then show ?thesis
  proof cases
    case 1
    then obtain a where a: "u = [a]" by (cases u) auto
    have "byte a < 0x80"
      using u(2) [of "[]"] a by (auto simp: rune_len_def split: if_splits)
    then show ?thesis using Some a scan_escape_ascii by (simp add: escape_rune_def rune_bytes_def)
  next
    case 2
    then show ?thesis using Some scan_u_escape [of "0x2028" t]
      by (simp add: escape_rune_def rune_bytes_def)
  next
    case 3
    then show ?thesis using Some scan_u_escape [of "0x2029" t]
      by (simp add: escape_rune_def rune_bytes_def)
  next
    case 4
    have big: "\<not> byte (hd u) < 0x80" using rune_first u(1) u(2) [of "[]"] 4(1) by simp
    moreover have "byte (CHR 0x5C) < 0x80" by (simp add: byte_def)
    ultimately have "hd u \<noteq> CHR 0x5C" by auto
    then show ?thesis
      using Some 4 u big by (cases u) (auto simp: escape_rune_def rune_bytes_def scan_rune_def)
  qed
qed

lemma escape_rune_head:
  assumes "r \<in> set (runes s)"
  shows "escape_rune r @ t \<noteq> [] \<and> hd (escape_rune r @ t) \<noteq> CHR 0x22"
proof -
  have scan: "scan_rune (escape_rune r @ t) = Some (rune_bytes r, t)"
    by (rule scan_escape_rune [OF assms])
  have "hd (escape_rune r @ t) \<noteq> CHR 0x22"
  proof
    assume "hd (escape_rune r @ t) = CHR 0x22"
    moreover have "escape_rune r @ t \<noteq> []" using scan by (auto simp: scan_rune_def)
    ultimately have "escape_rune r @ t = CHR 0x22 # tl (escape_rune r @ t)"
      by (metis list.collapse)
    then obtain s1 where "escape_rune r @ t = CHR 0x22 # s1" by blast
    moreover have "scan_rune (CHR 0x22 # s1) = Some ([CHR 0x22], s1)"
      by (simp add: scan_rune_def rune_len_def byte_def)
    ultimately have "rune_bytes r = [CHR 0x22]" using scan by simp
    then have "r = Some [CHR 0x22]"
      by (cases r) (auto simp: rune_bytes_def replacement_def)
    then have "hd (escape_rune r @ t) = CHR 0x5C"
      by (simp add: escape_rune_def escape_ascii_def)
    then show False using \<open>hd (escape_rune r @ t) = CHR 0x22\<close> by simp
  qed
  moreover have "escape_rune r @ t \<noteq> []" using scan by (auto simp: scan_rune_def)
  ultimately show ?thesis by simp
qed

lemma scan_quoted: "scan_body (tl (json_quote s) @ t) = Some (utf8_fix s, t)"
proof -
  have "scan_body (concat (map escape_rune rs) @ CHR 0x22 # t) = Some (concat (map rune_bytes rs), t)"
    if "set rs \<subseteq> set (runes s)" for rs
    using that
  proof (induction rs)
    case Nil
    show ?case by (simp add: scan_body.simps)
  next
    case (Cons r rs)
    let ?rest = "concat (map escape_rune rs) @ CHR 0x22 # t"
    have r: "r \<in> set (runes s)" using Cons.prems by simp
    then obtain a s1 where a: "escape_rune r @ ?rest = a # s1" "a \<noteq> CHR 0x22"
      using escape_rune_head [OF r, of ?rest] by (metis list.collapse)
    then show ?case
      using scan_escape_rune [OF r, of ?rest] Cons by (simp add: scan_body.simps [of "a # s1"])
  qed
  then show ?thesis by (simp add: json_quote_def utf8_fix_def)
qed

subsection \<open>Values\<close>

text \<open>The text of a value, as \<open>json.Marshal\<close> writes it.\<close>

fun join :: "string \<Rightarrow> string list \<Rightarrow> string" where
  "join sep [] = []"
| "join sep [x] = x"
| "join sep (x # y # xs) = x @ sep @ join sep (y # xs)"

fun json_text :: "jval \<Rightarrow> string" where
  "json_text JNull = ''null''"
| "json_text (JBool b) = (if b then ''true'' else ''false'')"
| "json_text (JNum n) = n"
| "json_text (JStr s) = json_quote s"
| "json_text (JArr vs) = ''['' @ join '','' (map json_text vs) @ '']''"
| "json_text (JObj kvs) =
     ''{'' @ join '','' (map (\<lambda>(k, v). json_quote k @ '':'' @ json_text v) kvs) @ ''}''"

datatype token =
    TokLBrace | TokRBrace | TokLBracket | TokRBracket | TokColon | TokComma
  | TokString string | TokNumber string | TokLit jval

definition is_ws :: "char \<Rightarrow> bool" where
  "is_ws c \<longleftrightarrow> c = CHR '' '' \<or> c = CHR 0x09 \<or> c = CHR 0x0A \<or> c = CHR 0x0D"

definition is_digit :: "char \<Rightarrow> bool" where "is_digit = in_range 48 57"

text \<open>The longest number literal at the start: sign, integer part, fraction, exponent.\<close>

definition scan_int :: "string \<Rightarrow> (string \<times> string) option" where
  "scan_int s =
     (case s of
        [] \<Rightarrow> None
      | a # r \<Rightarrow>
          if a = CHR ''0'' then Some ([a], r)
          else if is_digit a then Some (takeWhile is_digit s, dropWhile is_digit s)
          else None)"

definition scan_digits :: "string \<Rightarrow> (string \<times> string) option" where
  "scan_digits s =
     (if takeWhile is_digit s = [] then None
      else Some (takeWhile is_digit s, dropWhile is_digit s))"

definition scan_frac :: "string \<Rightarrow> (string \<times> string) option" where
  "scan_frac s =
     (case s of
        a # r \<Rightarrow> if a = CHR ''.'' then map_option (\<lambda>(ds, r'). (a # ds, r')) (scan_digits r)
                else Some ([], s)
      | [] \<Rightarrow> Some ([], []))"

definition scan_exp :: "string \<Rightarrow> (string \<times> string) option" where
  "scan_exp s =
     (case s of
        a # r \<Rightarrow>
          if a = CHR ''e'' \<or> a = CHR ''E'' then
            (case r of
               b # r' \<Rightarrow>
                 if b = CHR ''+'' \<or> b = CHR ''-'' then
                   map_option (\<lambda>(ds, r''). (a # b # ds, r'')) (scan_digits r')
                 else map_option (\<lambda>(ds, r''). (a # ds, r'')) (scan_digits r)
             | [] \<Rightarrow> None)
          else Some ([], s)
      | [] \<Rightarrow> Some ([], []))"

definition scan_number :: "string \<Rightarrow> (string \<times> string) option" where
  "scan_number s =
     (let neg = take 1 s = ''-''; s0 = (if neg then drop 1 s else s) in
      case scan_int s0 of
        None \<Rightarrow> None
      | Some (i, s1) \<Rightarrow>
     (case scan_frac s1 of
        None \<Rightarrow> None
      | Some (f, s2) \<Rightarrow>
     (case scan_exp s2 of
        None \<Rightarrow> None
      | Some (x, s3) \<Rightarrow> Some ((if neg then ''-'' else []) @ i @ f @ x, s3))))"

lemma scan_int_shorter: "scan_int s = Some (u, r) \<Longrightarrow> length r < length s"
  by (auto simp: scan_int_def split: list.splits if_splits)
     (metis length_dropWhile_le le_imp_less_Suc)

lemma scan_digits_le: "scan_digits s = Some (u, r) \<Longrightarrow> length r \<le> length s"
  by (auto simp: scan_digits_def length_dropWhile_le split: if_splits)

lemma scan_frac_le: "scan_frac s = Some (u, r) \<Longrightarrow> length r \<le> length s"
  by (auto simp: scan_frac_def split: list.splits if_splits dest!: scan_digits_le)

lemma scan_exp_le: "scan_exp s = Some (u, r) \<Longrightarrow> length r \<le> length s"
  by (auto simp: scan_exp_def split: list.splits if_splits dest!: scan_digits_le)

lemma scan_number_shorter:
  assumes "scan_number s = Some (u, r)"
  shows "length r < length s"
proof -
  define s0 where "s0 = (if take 1 s = ''-'' then drop 1 s else s)"
  obtain i s1 f s2 x where "scan_int s0 = Some (i, s1)" "scan_frac s1 = Some (f, s2)"
    "scan_exp s2 = Some (x, r)"
    using assms by (auto simp: scan_number_def Let_def s0_def split: option.splits)
  then have "length r < length s0"
    using scan_int_shorter scan_frac_le scan_exp_le by (metis le_trans less_le_trans not_less)
  then show ?thesis by (auto simp: s0_def split: if_splits)
qed

definition scan_token :: "string \<Rightarrow> (token \<times> string) option" where
  "scan_token s =
     (case s of
        [] \<Rightarrow> None
      | a # r \<Rightarrow>
          if a = CHR ''{'' then Some (TokLBrace, r)
          else if a = CHR ''}'' then Some (TokRBrace, r)
          else if a = CHR ''['' then Some (TokLBracket, r)
          else if a = CHR '']'' then Some (TokRBracket, r)
          else if a = CHR '':'' then Some (TokColon, r)
          else if a = CHR '','' then Some (TokComma, r)
          else if a = CHR 0x22 then map_option (\<lambda>(u, r'). (TokString u, r')) (scan_body r)
          else if take 4 s = ''true'' then Some (TokLit (JBool True), drop 4 s)
          else if take 5 s = ''false'' then Some (TokLit (JBool False), drop 5 s)
          else if take 4 s = ''null'' then Some (TokLit JNull, drop 4 s)
          else map_option (\<lambda>(u, r'). (TokNumber u, r')) (scan_number s))"

definition next_token :: "string \<Rightarrow> (token \<times> string) option" where
  "next_token s = scan_token (dropWhile is_ws s)"

lemma scan_token_shorter:
  assumes "scan_token s = Some (t, r)"
  shows "length r < length s"
proof (cases s)
  case (Cons a s1)
  then consider "r = s1" | u where "scan_body s1 = Some (u, r)" | "r = drop 4 s" | "r = drop 5 s"
    | u where "scan_number s = Some (u, r)"
    using assms by (auto simp: scan_token_def split: if_splits)
  then show ?thesis
    using Cons scan_body_shorter [of s1 _ r] scan_number_shorter [of s _ r] by cases auto
qed (use assms in \<open>simp add: scan_token_def\<close>)

lemma next_token_shorter: "next_token s = Some (t, r) \<Longrightarrow> length r < length s"
  unfolding next_token_def using scan_token_shorter length_dropWhile_le less_le_trans by metis

subsection \<open>The parser\<close>

text \<open>
  A frame is an array or an object that is being read, the object with the key whose value comes
  next; the mode says what may come next.
\<close>

datatype frame = InArray "jval list" | InObject "(string \<times> jval) list" string

datatype mode = WantValue | WantValueOrEnd | WantKey | WantKeyOrEnd | WantColon | AfterValue
  | Finished jval

definition max_nesting :: nat where "max_nesting = 10000"

fun deliver :: "jval \<Rightarrow> frame list \<Rightarrow> mode \<times> frame list" where
  "deliver v [] = (Finished v, [])"
| "deliver v (InArray vs # fs) = (AfterValue, InArray (vs @ [v]) # fs)"
| "deliver v (InObject kvs k # fs) = (AfterValue, InObject (kvs @ [(k, v)]) [] # fs)"

definition push_frame :: "mode \<Rightarrow> frame \<Rightarrow> frame list \<Rightarrow> (mode \<times> frame list) option" where
  "push_frame m f fs = (if length fs < max_nesting then Some (m, f # fs) else None)"

fun begin_value :: "token \<Rightarrow> frame list \<Rightarrow> (mode \<times> frame list) option" where
  "begin_value (TokLit v) fs = Some (deliver v fs)"
| "begin_value (TokString s) fs = Some (deliver (JStr s) fs)"
| "begin_value (TokNumber n) fs = Some (deliver (JNum n) fs)"
| "begin_value TokLBrace fs = push_frame WantKeyOrEnd (InObject [] []) fs"
| "begin_value TokLBracket fs = push_frame WantValueOrEnd (InArray []) fs"
| "begin_value _ fs = None"

fun end_object :: "frame list \<Rightarrow> (mode \<times> frame list) option" where
  "end_object (InObject kvs k # fs) = Some (deliver (JObj kvs) fs)"
| "end_object _ = None"

fun end_array :: "frame list \<Rightarrow> (mode \<times> frame list) option" where
  "end_array (InArray vs # fs) = Some (deliver (JArr vs) fs)"
| "end_array _ = None"

fun begin_key :: "token \<Rightarrow> frame list \<Rightarrow> (mode \<times> frame list) option" where
  "begin_key (TokString k) (InObject kvs k' # fs) = Some (WantColon, InObject kvs k # fs)"
| "begin_key _ _ = None"

fun after_value :: "token \<Rightarrow> frame list \<Rightarrow> (mode \<times> frame list) option" where
  "after_value TokComma (InObject kvs k # fs) = Some (WantKey, InObject kvs k # fs)"
| "after_value TokComma (InArray vs # fs) = Some (WantValue, InArray vs # fs)"
| "after_value TokRBrace fs = end_object fs"
| "after_value TokRBracket fs = end_array fs"
| "after_value _ _ = None"

definition parse_step :: "mode \<Rightarrow> frame list \<Rightarrow> token \<Rightarrow> (mode \<times> frame list) option" where
  "parse_step m fs t =
     (case m of
        WantValue \<Rightarrow> begin_value t fs
      | WantValueOrEnd \<Rightarrow> if t = TokRBracket then end_array fs else begin_value t fs
      | WantKey \<Rightarrow> begin_key t fs
      | WantKeyOrEnd \<Rightarrow> if t = TokRBrace then end_object fs else begin_key t fs
      | WantColon \<Rightarrow> if t = TokColon then Some (WantValue, fs) else None
      | AfterValue \<Rightarrow> after_value t fs
      | Finished v \<Rightarrow> None)"

text \<open>Read one value; the result holds the value and the unread rest.\<close>

function read_value :: "mode \<Rightarrow> frame list \<Rightarrow> string \<Rightarrow> (jval \<times> string) option" where
  "read_value m fs s =
     (case m of
        Finished v \<Rightarrow> Some (v, s)
      | _ \<Rightarrow>
         (case next_token s of
            None \<Rightarrow> None
          | Some (t, s') \<Rightarrow>
             (case parse_step m fs t of
                None \<Rightarrow> None
              | Some (m', fs') \<Rightarrow> read_value m' fs' s')))"
  by pat_completeness auto
termination
  by (relation "measure (\<lambda>(m, fs, s). length s)") (auto dest: next_token_shorter)

declare read_value.simps [simp del]

text \<open>\<open>Decoder.Decode\<close> reads the first value of the stream and leaves the rest unread.\<close>

definition decode_first :: "string \<Rightarrow> jval option" where
  "decode_first s = map_option fst (read_value WantValue [] s)"

text \<open>\<open>json.Unmarshal\<close> wants exactly one value.\<close>

definition parse_json :: "string \<Rightarrow> jval option" where
  "parse_json s =
     (case read_value WantValue [] s of
        Some (v, rest) \<Rightarrow> if list_all is_ws rest then Some v else None
      | None \<Rightarrow> None)"

subsection \<open>Parsing what was printed\<close>

text \<open>The values the program prints: no arrays, no numbers.\<close>

fun plain_json :: "jval \<Rightarrow> bool" where
  "plain_json (JNum n) = False"
| "plain_json (JArr vs) = False"
| "plain_json (JObj kvs) = list_all (\<lambda>(k, v). plain_json v) kvs"
| "plain_json _ = True"

text \<open>Printing repairs strings; reading gives the repaired value.\<close>

fun fix_json :: "jval \<Rightarrow> jval" where
  "fix_json (JStr s) = JStr (utf8_fix s)"
| "fix_json (JArr vs) = JArr (map fix_json vs)"
| "fix_json (JObj kvs) = JObj (map (\<lambda>(k, v). (utf8_fix k, fix_json v)) kvs)"
| "fix_json v = v"

fun nesting :: "jval \<Rightarrow> nat" where
  "nesting (JArr vs) = Suc (Max (insert 0 (nesting ` set vs)))"
| "nesting (JObj kvs) = Suc (Max (insert 0 ((\<lambda>(k, v). nesting v) ` set kvs)))"
| "nesting _ = 0"

lemma read_step:
  assumes "scan_token s = Some (t, s')" "s \<noteq> [] \<Longrightarrow> \<not> is_ws (hd s)"
    and "parse_step m fs t = Some (m', fs')"
  shows "read_value m fs s = read_value m' fs' s'"
proof -
  have "next_token s = Some (t, s')"
    using assms(1,2) by (cases s) (simp_all add: next_token_def)
  moreover have "\<not> (\<exists>v. m = Finished v)" using assms(3) by (auto simp: parse_step_def)
  ultimately show ?thesis
    using assms(3) by (subst read_value.simps) (auto split: mode.splits)
qed

lemma scan_quote: "scan_token (json_quote s @ t) = Some (TokString (utf8_fix s), t)"
  using scan_quoted [of s t] by (simp add: scan_token_def json_quote_def)

lemma quote_head: "json_quote s @ t \<noteq> []" "\<not> is_ws (hd (json_quote s @ t))"
  by (simp_all add: json_quote_def is_ws_def)

lemmas read_quote = read_step [OF scan_quote quote_head(2)]

lemma read_punct:
  assumes "(c, t) \<in> {(CHR ''{'', TokLBrace), (CHR ''}'', TokRBrace), (CHR '':'', TokColon),
      (CHR '','', TokComma)}"
    and "parse_step m fs t = Some (m', fs')"
  shows "read_value m fs (c # s) = read_value m' fs' s"
proof (rule read_step [OF _ _ assms(2)])
  show "scan_token (c # s) = Some (t, s)" using assms(1) by (auto simp: scan_token_def)
  show "\<not> is_ws (hd (c # s))" using assms(1) by (auto simp: is_ws_def)
qed

lemma read_literal:
  assumes "(l, v) \<in> {(''null'', JNull), (''true'', JBool True), (''false'', JBool False)}"
  shows "read_value WantValue fs (l @ s) = (case deliver v fs of (m', fs') \<Rightarrow> read_value m' fs' s)"
proof -
  obtain m' fs' where d: "deliver v fs = (m', fs')" by fastforce
  have "read_value WantValue fs (l @ s) = read_value m' fs' s"
  proof (rule read_step)
    show "scan_token (l @ s) = Some (TokLit v, s)" using assms by (auto simp: scan_token_def)
    show "\<not> is_ws (hd (l @ s))" using assms by (auto simp: is_ws_def)
    show "parse_step WantValue fs (TokLit v) = Some (m', fs')" by (simp add: parse_step_def d)
  qed
  then show ?thesis by (simp add: d)
qed

definition member_text :: "string \<times> jval \<Rightarrow> string" where
  "member_text = (\<lambda>(k, v). json_quote k @ '':'' @ json_text v)"

definition reads_back :: "frame list \<Rightarrow> jval \<Rightarrow> bool" where
  "reads_back fs v \<longleftrightarrow>
     (\<forall>t. read_value WantValue fs (json_text v @ t) =
          (case deliver (fix_json v) fs of (m, fs') \<Rightarrow> read_value m fs' t))"

lemma read_member:
  assumes "m = WantKey \<or> m = WantKeyOrEnd" "reads_back (InObject acc (utf8_fix k) # fs) v"
  shows "read_value m (InObject acc k0 # fs) (member_text (k, v) @ t) =
         read_value AfterValue (InObject (acc @ [(utf8_fix k, fix_json v)]) [] # fs) t"
proof -
  have "read_value m (InObject acc k0 # fs) (json_quote k @ '':'' @ json_text v @ t) =
      read_value WantColon (InObject acc (utf8_fix k) # fs) ('':'' @ json_text v @ t)"
    by (rule read_quote) (use assms(1) in \<open>auto simp: parse_step_def\<close>)
  also have "\<dots> = read_value WantValue (InObject acc (utf8_fix k) # fs) (json_text v @ t)"
    by (simp, rule read_punct [where t = TokColon]) (simp_all add: parse_step_def)
  also have "\<dots> = read_value AfterValue (InObject (acc @ [(utf8_fix k, fix_json v)]) [] # fs) t"
    using assms(2) by (simp add: reads_back_def)
  finally show ?thesis by (simp add: member_text_def)
qed

lemma read_members:
  assumes "kvs \<noteq> []" "m = WantKey \<or> m = WantKeyOrEnd"
    and "\<And>k v acc k'. (k, v) \<in> set kvs \<Longrightarrow> reads_back (InObject acc k' # fs) v"
  shows "read_value m (InObject acc k0 # fs) (join '','' (map member_text kvs) @ ''}'' @ t) =
         (case deliver (JObj (acc @ map (\<lambda>(k, v). (utf8_fix k, fix_json v)) kvs)) fs of
            (m', fs') \<Rightarrow> read_value m' fs' t)"
  using assms
proof (induction kvs arbitrary: m acc k0)
  case (Cons kv kvs)
  obtain k v where kv: "kv = (k, v)" by fastforce
  have rb: "reads_back (InObject acc (utf8_fix k) # fs) v" by (rule Cons.prems(3) [of k]) (simp add: kv)
  let ?acc = "acc @ [(utf8_fix k, fix_json v)]"
  show ?case
  proof (cases kvs)
    case Nil
    obtain m' fs' where d: "deliver (JObj ?acc) fs = (m', fs')" by fastforce
    have "read_value AfterValue (InObject ?acc [] # fs) (CHR ''}'' # t) = read_value m' fs' t"
      by (rule read_punct [where t = TokRBrace]) (simp_all add: parse_step_def d)
    then show ?thesis
      using read_member [OF Cons.prems(2) rb, of k0 "''}'' @ t"] Nil kv d by simp
  next
    case (Cons kv' kvs')
    have "read_value m (InObject acc k0 # fs) (join '','' (map member_text (kv # kvs)) @ ''}'' @ t) =
        read_value AfterValue (InObject ?acc [] # fs)
          (CHR '','' # join '','' (map member_text kvs) @ ''}'' @ t)"
      using read_member [OF Cons.prems(2) rb, of k0] Cons kv by simp
    also have "\<dots> = read_value WantKey (InObject ?acc [] # fs)
        (join '','' (map member_text kvs) @ ''}'' @ t)"
      by (rule read_punct [where t = TokComma]) (simp_all add: parse_step_def)
    finally have first: "read_value m (InObject acc k0 # fs)
        (join '','' (map member_text (kv # kvs)) @ ''}'' @ t) =
      read_value WantKey (InObject ?acc [] # fs) (join '','' (map member_text kvs) @ ''}'' @ t)" .
    have "read_value WantKey (InObject ?acc [] # fs) (join '','' (map member_text kvs) @ ''}'' @ t) =
      (case deliver (JObj (?acc @ map (\<lambda>(k, v). (utf8_fix k, fix_json v)) kvs)) fs of
         (m', fs') \<Rightarrow> read_value m' fs' t)"
    proof (rule Cons.IH)
      show "reads_back (InObject acc k' # fs) v" if "(k, v) \<in> set kvs" for k v acc k'
        by (rule Cons.prems(3) [of k]) (simp add: that)
    qed (use Cons in simp_all)
    then show ?thesis unfolding first by (simp add: kv)
  qed
qed simp

lemma nesting_member:
  assumes "(k, v) \<in> set kvs"
  shows "nesting v < nesting (JObj kvs)"
proof -
  have "nesting v \<in> (\<lambda>(k, v). nesting v) ` set kvs" using assms by (auto intro: rev_image_eqI)
  then show ?thesis by (auto simp: less_Suc_eq_le intro!: Max_ge)
qed

lemma read_json:
  assumes "plain_json j" "length fs + nesting j \<le> max_nesting"
  shows "reads_back fs j"
  using assms
proof (induction j arbitrary: fs)
  case JNull
  then show ?case using read_literal [of "''null''" JNull] by (simp add: reads_back_def)
next
  case (JBool b)
  then show ?case
    using read_literal [of "''true''" "JBool True"] read_literal [of "''false''" "JBool False"]
    by (simp add: reads_back_def)
next
  case (JStr s)
  obtain m' fs' where d: "deliver (JStr (utf8_fix s)) fs = (m', fs')" by fastforce
  show ?case
    unfolding reads_back_def by (auto simp: d parse_step_def intro!: read_quote)
next
  case (JObj kvs)
  have inner: "reads_back (InObject acc k' # fs) v" if "(k, v) \<in> set kvs" for k v acc k'
  proof (rule JObj.IH [of "(k, v)" v])
    show "plain_json v" using JObj.prems(1) that by (auto simp: list_all_iff)
    show "length (InObject acc k' # fs) + nesting v \<le> max_nesting"
      using nesting_member [OF that] JObj.prems(2) by (simp del: nesting.simps)
  qed (use that in auto)
  have "length fs < max_nesting" using JObj.prems(2) by simp
  then have opened: "read_value WantValue fs (CHR ''{'' # s) =
      read_value WantKeyOrEnd (InObject [] [] # fs) s" for s :: string
    by (intro read_punct [where t = TokLBrace]) (simp_all add: parse_step_def push_frame_def)
  show ?case
  proof (cases "kvs = []")
    case True
    obtain m' fs' where d: "deliver (JObj []) fs = (m', fs')" by fastforce
    have "read_value WantKeyOrEnd (InObject [] [] # fs) (CHR ''}'' # t) = read_value m' fs' t" for t
      by (rule read_punct [where t = TokRBrace]) (simp_all add: parse_step_def d)
    then show ?thesis using True opened by (simp add: reads_back_def d)
  next
    case False
    have members: "read_value WantKeyOrEnd (InObject [] [] # fs)
        (join '','' (map member_text kvs) @ ''}'' @ t) =
      (case deliver (fix_json (JObj kvs)) fs of (m', fs') \<Rightarrow> read_value m' fs' t)" for t
      using read_members [OF False, of WantKeyOrEnd fs "[]" "[]" t] inner by simp
    have "json_text (JObj kvs) = CHR ''{'' # join '','' (map member_text kvs) @ ''}''"
      by (simp add: member_text_def)
    then show ?thesis
      unfolding reads_back_def using members opened by (simp del: fix_json.simps json_text.simps)
  qed
qed simp_all

text \<open>The printed text of a value parses to the value, alone or in front of other text.\<close>

lemma read_printed:
  assumes "plain_json j" "nesting j \<le> max_nesting"
  shows "read_value WantValue [] (json_text j @ t) = Some (fix_json j, t)"
  using read_json [of j "[]"] assms by (simp add: reads_back_def read_value.simps [of "Finished v" for v])

lemma parse_json_text:
  assumes "plain_json j" "nesting j \<le> max_nesting"
  shows "parse_json (json_text j) = Some (fix_json j)"
  using read_printed [OF assms, of "[]"] by (simp add: parse_json_def)

lemma decode_first_text:
  assumes "plain_json j" "nesting j \<le> max_nesting"
  shows "decode_first (json_text j @ t) = Some (fix_json j)"
  using read_printed [OF assms] by (simp add: decode_first_def)

end
