(* ===== verification/Http.thy ===== *)
theory Http
  imports Logger Json "HOL-Library.Monad_Syntax"
begin

section \<open>Requests and responses\<close>

text \<open>
  What the API uses of \<^verbatim>\<open>net/http\<close> and \<^verbatim>\<open>net/url\<close>: the fields of a request, a response writer
  whose status and headers are fixed by the first \<open>WriteHeader\<close> (later calls have no effect), the
  canonical form of header names, and the first value of a query parameter.  The field \<open>rsp_status\<close>
  is the one of the \<open>responseWriter\<close> of \<^verbatim>\<open>middleware.go\<close> that wraps the server's writer, \<open>None\<close> where
  nothing wraps it: a call of \<open>WriteHeader\<close> goes through the wrapper, the implicit one of \<open>Write\<close> does not.
\<close>

record request =
  rq_method :: string
  rq_path :: string
  rq_raw_path :: string
  rq_query :: string
  rq_header :: "string \<rightharpoonup> string"
  rq_body :: string
  rq_ctx :: ctx

record response =
  rsp_header :: "string \<rightharpoonup> string"
  rsp_sent :: "(int \<times> (string \<rightharpoonup> string)) option"
  rsp_body :: string
  rsp_status :: "int option"

definition fresh_response :: response where
  "fresh_response = \<lparr>rsp_header = Map.empty, rsp_sent = None, rsp_body = [], rsp_status = None\<rparr>"

subsection \<open>Headers\<close>

text \<open>The canonical form of a header name made of token characters.\<close>

fun canonical :: "bool \<Rightarrow> string \<Rightarrow> string" where
  "canonical up [] = []"
| "canonical up (c # cs) =
     (if up \<and> in_range 97 122 c then char_of (byte c - 32)
      else if \<not> up \<and> in_range 65 90 c then char_of (byte c + 32)
      else c) # canonical (c = CHR ''-'') cs"

definition Header_Set :: "string \<Rightarrow> string \<Rightarrow> response \<Rightarrow> response" where
  "Header_Set k v rsp = rsp\<lparr>rsp_header := (rsp_header rsp)(canonical True k \<mapsto> v)\<rparr>"

definition Header_Get :: "(string \<rightharpoonup> string) \<Rightarrow> string \<Rightarrow> string" where
  "Header_Get hs k = (case hs (canonical True k) of None \<Rightarrow> [] | Some v \<Rightarrow> v)"

subsection \<open>The response writer of the server\<close>

definition server_WriteHeader :: "int \<Rightarrow> response \<Rightarrow> response" where
  "server_WriteHeader code rsp =
     (case rsp_sent rsp of
        None \<Rightarrow> rsp\<lparr>rsp_sent := Some (code, rsp_header rsp)\<rparr>
      | Some _ \<Rightarrow> rsp)"

definition responseWriter_WriteHeader :: "int \<Rightarrow> response \<Rightarrow> response" where
  "responseWriter_WriteHeader code rsp = server_WriteHeader code (rsp\<lparr>rsp_status := Some code\<rparr>)"

definition WriteHeader :: "int \<Rightarrow> response \<Rightarrow> response" where
  "WriteHeader code rsp =
     (case rsp_status rsp of
        None \<Rightarrow> server_WriteHeader code rsp
      | Some _ \<Rightarrow> responseWriter_WriteHeader code rsp)"

definition Write_body :: "string \<Rightarrow> response \<Rightarrow> response" where
  "Write_body data rsp =
     (let rsp' = server_WriteHeader 200 rsp in rsp'\<lparr>rsp_body := rsp_body rsp' @ data\<rparr>)"

text \<open>What the client sees: the server sends 200 if the handler has written nothing.\<close>

definition status_of :: "response \<Rightarrow> int" where
  "status_of rsp = (case rsp_sent rsp of None \<Rightarrow> 200 | Some (code, hs) \<Rightarrow> code)"

definition headers_of :: "response \<Rightarrow> string \<rightharpoonup> string" where
  "headers_of rsp = (case rsp_sent rsp of None \<Rightarrow> rsp_header rsp | Some (code, hs) \<Rightarrow> hs)"

lemma server_WriteHeader_simps [simp]:
  "rsp_sent rsp = None \<Longrightarrow> server_WriteHeader code rsp = rsp\<lparr>rsp_sent := Some (code, rsp_header rsp)\<rparr>"
  "rsp_sent rsp = Some x \<Longrightarrow> server_WriteHeader code rsp = rsp"
  by (simp_all add: server_WriteHeader_def)

lemma WriteHeader_fields [simp]:
  "rsp_sent (WriteHeader code rsp) =
     (case rsp_sent rsp of None \<Rightarrow> Some (code, rsp_header rsp) | Some x \<Rightarrow> Some x)"
  "rsp_body (WriteHeader code rsp) = rsp_body rsp"
  "rsp_header (WriteHeader code rsp) = rsp_header rsp"
  "rsp_status (WriteHeader code rsp) = (case rsp_status rsp of None \<Rightarrow> None | Some _ \<Rightarrow> Some code)"
  by (simp_all add: WriteHeader_def responseWriter_WriteHeader_def server_WriteHeader_def
      split: option.split)

lemma Write_body_fields [simp]:
  "rsp_sent (Write_body data rsp) =
     (case rsp_sent rsp of None \<Rightarrow> Some (200, rsp_header rsp) | Some x \<Rightarrow> Some x)"
  "rsp_body (Write_body data rsp) = rsp_body rsp @ data"
  "rsp_header (Write_body data rsp) = rsp_header rsp"
  "rsp_status (Write_body data rsp) = rsp_status rsp"
  by (simp_all add: Write_body_def Let_def server_WriteHeader_def split: option.split)

lemma Header_Set_fields [simp]:
  "rsp_sent (Header_Set k v rsp) = rsp_sent rsp"
  "rsp_body (Header_Set k v rsp) = rsp_body rsp"
  "rsp_status (Header_Set k v rsp) = rsp_status rsp"
  "rsp_header (Header_Set k v rsp) = (rsp_header rsp)(canonical True k \<mapsto> v)"
  by (simp_all add: Header_Set_def)

lemma status_sent [simp]:
  "rsp_sent rsp = Some (code, hs) \<Longrightarrow> status_of rsp = code"
  "rsp_sent rsp = Some (code, hs) \<Longrightarrow> headers_of rsp = hs"
  by (simp_all add: status_of_def headers_of_def)

subsection \<open>Query parameters\<close>

fun split_on :: "char \<Rightarrow> string \<Rightarrow> string list" where
  "split_on a [] = [[]]"
| "split_on a (c # cs) =
     (case split_on a cs of
        p # ps \<Rightarrow> if c = a then [] # p # ps else (c # p) # ps
      | [] \<Rightarrow> [])"

definition cut :: "char \<Rightarrow> string \<Rightarrow> string \<times> string" where
  "cut a s = (takeWhile (\<lambda>c. c \<noteq> a) s, tl (dropWhile (\<lambda>c. c \<noteq> a) s))"

fun query_unescape :: "string \<Rightarrow> string option" where
  "query_unescape [] = Some []"
| "query_unescape (c # cs) =
     (if c = CHR ''%'' then
        (case cs of
           x # y # rest \<Rightarrow> do {
             h \<leftarrow> hex_value x;
             l \<leftarrow> hex_value y;
             t \<leftarrow> query_unescape rest;
             Some (char_of (16 * h + l) # t)
           }
         | _ \<Rightarrow> None)
      else map_option ((#) (if c = CHR ''+'' then CHR '' '' else c)) (query_unescape cs))"

text \<open>The pairs of a raw query: a part with a semicolon or a bad escape is dropped.\<close>

definition query_pair :: "string \<Rightarrow> (string \<times> string) option" where
  "query_pair part =
     (if part = [] \<or> CHR '';'' \<in> set part then None
      else (case cut (CHR ''='') part of
        (k, v) \<Rightarrow> do { k' \<leftarrow> query_unescape k; v' \<leftarrow> query_unescape v; Some (k', v') }))"

definition Query_Get :: "string \<Rightarrow> string \<Rightarrow> string" where
  "Query_Get raw key =
     (case map_of (List.map_filter query_pair (split_on (CHR ''&'') raw)) key of
        None \<Rightarrow> []
      | Some v \<Rightarrow> v)"

lemma split_on_plain: "a \<notin> set s \<Longrightarrow> split_on a s = [s]"
  by (induction s) auto

lemma query_unescape_plain:
  "CHR ''%'' \<notin> set s \<Longrightarrow> CHR ''+'' \<notin> set s \<Longrightarrow> query_unescape s = Some s"
  by (induction s) auto

lemma cut_at: "a \<notin> set k \<Longrightarrow> cut a (k @ a # v) = (k, v)"
  by (induction k) (auto simp: cut_def)

text \<open>A value without the query's special characters is read back as it stands.\<close>

lemma Query_Get_plain:
  assumes "set v \<inter> {CHR ''&'', CHR '';'', CHR ''%'', CHR ''+''} = {}"
    and "set k \<inter> {CHR ''&'', CHR '';'', CHR ''%'', CHR ''+'', CHR ''=''} = {}"
  shows "Query_Get (k @ CHR ''='' # v) k = v"
proof -
  let ?p = "k @ CHR ''='' # v"
  have "CHR ''&'' \<notin> set ?p" "CHR '';'' \<notin> set ?p" using assms by auto
  moreover have "cut (CHR ''='') ?p = (k, v)"
    using assms(2) by (intro cut_at) auto
  ultimately show ?thesis
    using assms by (simp add: Query_Get_def split_on_plain query_pair_def query_unescape_plain
        List.map_filter_def)
qed

end
