(* ===== verification/Jsontext.thy ===== *)
theory Jsontext
  imports Json
begin

section \<open>Decoded strings are valid UTF-8\<close>

text \<open>
  Whatever the bytes of a body, every string and every key that the JSON decoder hands out is valid
  UTF-8: invalid bytes and lone surrogates have been replaced.  The lemmas follow the decoder from
  the runes of a literal to the frames of the parser.
\<close>

definition wide :: "string \<Rightarrow> bool" where
  "wide u \<longleftrightarrow> u \<noteq> [] \<and> (\<forall>t. rune_len (u @ t) = length u)"

lemma wide_valid: "wide u \<Longrightarrow> utf8_valid (u @ s) \<longleftrightarrow> utf8_valid s"
  using runes_append_rune [of u s] by (simp add: wide_def utf8_valid_def)

lemma wide_replacement: "wide replacement"
  by (simp add: wide_def replacement_wide)

lemma wide_ascii: "byte a < 0x80 \<Longrightarrow> wide [a]"
  by (simp add: wide_def rune_len_def)

lemma wide3:
  assumes "p < 16" "q < 64" "r < 64" "p = 0 \<longrightarrow> 32 \<le> q" "p = 13 \<longrightarrow> q < 32"
  shows "wide (map char_of [0xE0 + p, 0x80 + q, 0x80 + r :: nat])"
proof -
  let ?a = "char_of (0xE0 + p)" and ?b = "char_of (0x80 + q)" and ?c = "char_of (0x80 + r)"
  have bytes: "byte ?a = 0xE0 + p" "byte ?b = 0x80 + q" "byte ?c = 0x80 + r"
    using assms by (simp_all add: byte_char_of)
  have "p = 0 \<or> p = 13 \<or> 1 \<le> p \<and> p \<le> 12 \<or> 14 \<le> p \<and> p \<le> 15" using assms(1) by linarith
  then have "lead3 ?a ?b"
    unfolding lead3_def cont_def in_range_def bytes using assms by auto
  moreover have "cont ?c" "\<not> byte ?a < 128" "\<not> in_range 0xC2 0xDF ?a"
    unfolding cont_def in_range_def bytes using assms by auto
  ultimately show ?thesis by (simp add: wide_def rune_len_def)
qed

lemma wide4:
  assumes "h < 5" "p < 64" "q < 64" "r < 64" "h = 0 \<longrightarrow> 16 \<le> p" "h = 4 \<longrightarrow> p < 16"
  shows "wide (map char_of [0xF0 + h, 0x80 + p, 0x80 + q, 0x80 + r :: nat])"
proof -
  let ?a = "char_of (0xF0 + h)" and ?b = "char_of (0x80 + p)" and ?c = "char_of (0x80 + q)"
    and ?d = "char_of (0x80 + r)"
  have bytes: "byte ?a = 0xF0 + h" "byte ?b = 0x80 + p" "byte ?c = 0x80 + q" "byte ?d = 0x80 + r"
    using assms by (simp_all add: byte_char_of)
  have "h = 0 \<or> h = 4 \<or> 1 \<le> h \<and> h \<le> 3" using assms(1) by linarith
  then have "lead4 ?a ?b"
    unfolding lead4_def cont_def in_range_def bytes using assms by auto
  moreover have "cont ?c" "cont ?d" "\<not> byte ?a < 128" "\<not> in_range 0xC2 0xDF ?a" "\<not> lead3 ?a ?b"
    unfolding lead3_def cont_def in_range_def bytes using assms by auto
  ultimately show ?thesis by (simp add: wide_def rune_len_def)
qed

lemma wide_encode: "wide (rune_encode v)"
proof -
  consider "v < 0x80" | "0x80 \<le> v" "v < 0x800" | "0xD800 \<le> v \<and> v < 0xE000 \<or> 0x10FFFF < v"
    | "0x800 \<le> v" "v < 0x10000" "\<not> (0xD800 \<le> v \<and> v < 0xE000)" | "0x10000 \<le> v" "v \<le> 0x10FFFF"
    by linarith
  then show ?thesis
  proof cases
    case 1
    then show ?thesis by (simp add: rune_encode_ascii wide_ascii byte_char_of)
  next
    case 2
    then have "2 \<le> v div 64" "v div 64 < 32" "v mod 64 < 64" by (linarith, linarith, simp)
    with 2 show ?thesis
      by (simp add: wide_def rune_encode_def rune_len_def in_range_def cont_def byte_char_of)
  next
    case 3
    then have "rune_encode v = replacement"
      by (auto simp: rune_encode_def replacement_def)
    then show ?thesis by (simp add: wide_replacement)
  next
    case 4
    let ?p = "v div 4096" and ?q = "v div 64 mod 64"
    have "v div 64 = 64 * ?p + ?q"
      using mult_div_mod_eq [of 64 "v div 64"] by (simp add: div_mult2_eq [symmetric])
    moreover have "v div 64 < 1024" "32 \<le> v div 64" "v div 64 < 864 \<or> 896 \<le> v div 64"
      using 4 by linarith+
    ultimately have "?p < 16" "?p = 0 \<longrightarrow> 32 \<le> ?q" "?p = 13 \<longrightarrow> ?q < 32" by linarith+
    then have "wide (map char_of [0xE0 + ?p, 0x80 + ?q, 0x80 + v mod 64])" by (intro wide3) simp_all
    moreover have "rune_encode v = map char_of [0xE0 + ?p, 0x80 + ?q, 0x80 + v mod 64]"
      using 4 by (auto simp: rune_encode_def)
    ultimately show ?thesis by simp
  next
    case 5
    let ?o = "v div 262144" and ?p = "v div 4096 mod 64"
    have "v div 4096 = 64 * ?o + ?p"
      using mult_div_mod_eq [of 64 "v div 4096"] by (simp add: div_mult2_eq [symmetric])
    moreover have "v div 4096 < 272" "16 \<le> v div 4096" using 5 by linarith+
    ultimately have "?o < 5" "?o = 0 \<longrightarrow> 16 \<le> ?p" "?o = 4 \<longrightarrow> ?p < 16" by linarith+
    then have "wide (map char_of [0xF0 + ?o, 0x80 + ?p, 0x80 + v div 64 mod 64, 0x80 + v mod 64])"
      by (intro wide4) simp_all
    moreover have "rune_encode v =
        map char_of [0xF0 + ?o, 0x80 + ?p, 0x80 + v div 64 mod 64, 0x80 + v mod 64]"
      using 5 by (auto simp: rune_encode_def)
    ultimately show ?thesis by simp
  qed
qed

subsection \<open>Literals\<close>

lemma simple_escape_ascii: "simple_escape c = Some d \<Longrightarrow> byte d < 0x80"
  by (auto simp: simple_escape_def byte_def split: if_splits)

lemma scan_rune_wide:
  assumes "scan_rune s = Some (u, s')"
  shows "wide u"
proof -
  obtain a s1 where s: "s = a # s1" using assms by (cases s) (simp_all add: scan_rune_def)
  consider "u = replacement" | v where "u = rune_encode v" | c where "simple_escape c = Some (hd u)" "length u = 1"
    | "rune_len s \<noteq> 0" "u = take (rune_len s) s"
    using assms by (auto simp: scan_rune_def s split: if_splits list.splits option.splits)
  then show ?thesis
  proof cases
    case 3
    then show ?thesis using wide_ascii [OF simple_escape_ascii [OF 3(1)]] by (cases u) simp_all
  next
    case 4
    then show ?thesis
      using rune_len_take [of s] rune_len_le [of s] by (auto simp: wide_def)
  qed (simp_all add: wide_replacement wide_encode)
qed

lemma scan_body_valid: "scan_body s = Some (u, s') \<Longrightarrow> utf8_valid u"
proof (induction s arbitrary: u rule: scan_body.induct)
  case (1 s)
  show ?case
  proof (cases s)
    case Nil
    then show ?thesis using "1.prems" by (simp add: scan_body.simps)
  next
    case (Cons a s1)
    show ?thesis
    proof (cases "a = CHR 0x22")
      case True
      then show ?thesis using "1.prems" Cons by (simp add: scan_body.simps)
    next
      case False
      then obtain v r us where v: "scan_rune s = Some (v, r)" "scan_body r = Some (us, s')" "u = v @ us"
        using "1.prems" Cons by (subst (asm) scan_body.simps) (auto split: option.splits)
      then show ?thesis
        using "1.IH" [OF Cons False v(1) refl v(2)] wide_valid [OF scan_rune_wide [OF v(1)]] by simp
    qed
  qed
qed

subsection \<open>Values\<close>

fun json_utf8 :: "jval \<Rightarrow> bool" where
  "json_utf8 (JStr s) = utf8_valid s"
| "json_utf8 (JArr vs) = list_all json_utf8 vs"
| "json_utf8 (JObj kvs) = list_all (\<lambda>(k, v). utf8_valid k \<and> json_utf8 v) kvs"
| "json_utf8 _ = True"

fun frame_utf8 :: "frame \<Rightarrow> bool" where
  "frame_utf8 (InArray vs) = list_all json_utf8 vs"
| "frame_utf8 (InObject kvs k) = (list_all (\<lambda>(k, v). utf8_valid k \<and> json_utf8 v) kvs \<and> utf8_valid k)"

fun mode_utf8 :: "mode \<Rightarrow> bool" where
  "mode_utf8 (Finished v) = json_utf8 v"
| "mode_utf8 _ = True"

fun token_utf8 :: "token \<Rightarrow> bool" where
  "token_utf8 (TokString s) = utf8_valid s"
| "token_utf8 (TokLit v) = json_utf8 v"
| "token_utf8 _ = True"

definition config_utf8 :: "mode \<times> frame list \<Rightarrow> bool" where
  "config_utf8 c \<longleftrightarrow> mode_utf8 (fst c) \<and> list_all frame_utf8 (snd c)"

lemma next_token_utf8: "next_token s = Some (t, r) \<Longrightarrow> token_utf8 t"
  by (auto simp: next_token_def scan_token_def scan_body_valid split: list.splits if_splits)

lemma deliver_utf8: "json_utf8 v \<Longrightarrow> list_all frame_utf8 fs \<Longrightarrow> config_utf8 (deliver v fs)"
  by (induction v fs rule: deliver.induct) (auto simp: config_utf8_def)

lemma push_frame_utf8:
  "push_frame m f fs = Some c \<Longrightarrow> mode_utf8 m \<Longrightarrow> frame_utf8 f \<Longrightarrow> list_all frame_utf8 fs \<Longrightarrow> config_utf8 c"
  by (auto simp: push_frame_def config_utf8_def split: if_splits)

lemma end_utf8:
  "end_object fs = Some c \<Longrightarrow> list_all frame_utf8 fs \<Longrightarrow> config_utf8 c"
  "end_array fs = Some c \<Longrightarrow> list_all frame_utf8 fs \<Longrightarrow> config_utf8 c"
  by (auto elim!: end_object.elims end_array.elims intro!: deliver_utf8)

lemma begin_utf8:
  "begin_value t fs = Some c \<Longrightarrow> token_utf8 t \<Longrightarrow> list_all frame_utf8 fs \<Longrightarrow> config_utf8 c"
  "begin_key t fs = Some c \<Longrightarrow> token_utf8 t \<Longrightarrow> list_all frame_utf8 fs \<Longrightarrow> config_utf8 c"
  "after_value t fs = Some c \<Longrightarrow> list_all frame_utf8 fs \<Longrightarrow> config_utf8 c"
proof -
  show "begin_value t fs = Some c \<Longrightarrow> token_utf8 t \<Longrightarrow> list_all frame_utf8 fs \<Longrightarrow> config_utf8 c"
    by (cases t) (auto intro: deliver_utf8 elim: push_frame_utf8)
  show "begin_key t fs = Some c \<Longrightarrow> token_utf8 t \<Longrightarrow> list_all frame_utf8 fs \<Longrightarrow> config_utf8 c"
    by (induction t fs rule: begin_key.induct) (auto simp: config_utf8_def)
  show "after_value t fs = Some c \<Longrightarrow> list_all frame_utf8 fs \<Longrightarrow> config_utf8 c"
    by (induction t fs rule: after_value.induct)
       (auto simp: config_utf8_def dest: end_utf8 [unfolded config_utf8_def])
qed

lemma read_value_utf8:
  "read_value m fs s = Some (v, r) \<Longrightarrow> config_utf8 (m, fs) \<Longrightarrow> json_utf8 v"
proof (induction m fs s rule: read_value.induct)
  case (1 m fs s)
  show ?case
  proof (cases "\<exists>x. m = Finished x")
    case True
    then show ?thesis using "1.prems" by (auto simp: read_value.simps config_utf8_def)
  next
    case False
    then obtain t s' m' fs' where step: "next_token s = Some (t, s')" "parse_step m fs t = Some (m', fs')"
        "read_value m' fs' s' = Some (v, r)"
      using "1.prems"(1)
      by (subst (asm) read_value.simps) (auto split: mode.splits option.splits prod.splits)
    have "config_utf8 (m', fs')"
      using step(2) next_token_utf8 [OF step(1)] "1.prems"(2)
      by (auto simp: parse_step_def config_utf8_def [of "(m, fs)"] split: mode.splits if_splits
          intro: begin_utf8 end_utf8) (auto simp: config_utf8_def)
    with "1.IH" False step show ?thesis by (cases m) auto
  qed
qed

lemma decode_first_utf8: "decode_first s = Some v \<Longrightarrow> json_utf8 v"
  using read_value_utf8 [of WantValue "[]" s] by (auto simp: decode_first_def config_utf8_def)

end
