(* ===== verification/Domain.thy ===== *)
theory Domain
  imports Prelude "HOL-Library.Finite_Map"
begin

section \<open>Domain types\<close>

text \<open>
  The structs of \<^verbatim>\<open>internal/domain/notification.go\<close>.  \<open>Channel\<close> and \<open>Status\<close> are string types
  in Go, so any string is a value of them; the declared constants are definitions.  Instants are
  nanoseconds since the Unix epoch.  A nil map is \<open>None\<close>, a nil pointer too.
\<close>

type_synonym channel = string
type_synonym status = string
type_synonym instant = int
type_synonym payload = "(string, string) fmap option"

definition ChannelIOS :: channel where "ChannelIOS = ''ios''"
definition ChannelAndroid :: channel where "ChannelAndroid = ''android''"
definition ChannelSMS :: channel where "ChannelSMS = ''sms''"
definition ChannelEmail :: channel where "ChannelEmail = ''email''"

definition StatusPending :: status where "StatusPending = ''pending''"
definition StatusSent :: status where "StatusSent = ''sent''"
definition StatusFailed :: status where "StatusFailed = ''failed''"
definition StatusSkipped :: status where "StatusSkipped = ''skipped''"

lemmas channel_defs = ChannelIOS_def ChannelAndroid_def ChannelSMS_def ChannelEmail_def
lemmas status_defs = StatusPending_def StatusSent_def StatusFailed_def StatusSkipped_def

text \<open>The four declared channels, in the order of the const block.\<close>

definition all_channels :: "channel list" where
  "all_channels = [ChannelIOS, ChannelAndroid, ChannelSMS, ChannelEmail]"

record notification =
  notif_id :: string
  notif_user_id :: string
  notif_channel :: channel
  notif_template_id :: string
  notif_payload :: payload
  notif_status :: status
  notif_created_at :: instant
  notif_scheduled_at :: "instant option"
  notif_recipient_email :: string
  notif_recipient_phone :: string
  notif_recipient_token :: string

record user =
  user_id :: string
  user_email :: string
  user_phone :: string
  user_device_token :: string
  user_platform :: string

record user_preferences =
  prefs_user_id :: string
  prefs_email_enabled :: bool
  prefs_sms_enabled :: bool
  prefs_push_enabled :: bool

record delivery_log =
  dlog_id :: string
  dlog_notification_id :: string
  dlog_channel :: channel
  dlog_attempt :: int
  dlog_status :: status
  dlog_error_message :: string
  dlog_attempted_at :: instant

text \<open>The zero value that \<open>var n domain.Notification\<close> and its kin declare.\<close>

definition zero_time :: instant where
  "zero_time = - 62135596800000000000"

definition zero_notification :: notification where
  "zero_notification =
     \<lparr>notif_id = [], notif_user_id = [], notif_channel = [], notif_template_id = [],
      notif_payload = None, notif_status = [], notif_created_at = zero_time,
      notif_scheduled_at = None, notif_recipient_email = [], notif_recipient_phone = [],
      notif_recipient_token = []\<rparr>"

definition zero_user :: user where
  "zero_user =
     \<lparr>user_id = [], user_email = [], user_phone = [], user_device_token = [],
      user_platform = []\<rparr>"

definition zero_preferences :: user_preferences where
  "zero_preferences =
     \<lparr>prefs_user_id = [], prefs_email_enabled = False, prefs_sms_enabled = False,
      prefs_push_enabled = False\<rparr>"

lemma channels_distinct: "distinct all_channels"
  by (simp add: all_channels_def channel_defs)

lemma statuses_distinct [simp]:
  "StatusPending \<noteq> StatusSent" "StatusSent \<noteq> StatusPending"
  "StatusFailed \<noteq> StatusSent" "StatusSent \<noteq> StatusFailed"
  "StatusPending \<noteq> StatusFailed" "StatusFailed \<noteq> StatusPending"
  by (simp_all add: status_defs)

end
