(* ===== verification/Sql.thy ===== *)
theory Sql
  imports Domain Utf8
begin

section \<open>The fragment of SQL the program is written in\<close>

text \<open>
  \<^verbatim>\<open>internal/store/postgres.go\<close> is a schema and nine statements in SQL.  This theory gives that
  fragment its meaning: columns with types, \<open>NOT NULL\<close>, \<open>DEFAULT\<close>, \<open>PRIMARY KEY\<close> and \<open>REFERENCES\<close>;
  \<open>INSERT\<close>, \<open>UPDATE\<close> of columns outside every key, \<open>SELECT\<close> and \<open>SELECT EXISTS\<close> by a conjunction
  of equations; \<open>CREATE TABLE\<close> and \<open>CREATE INDEX\<close> with \<open>IF NOT EXISTS\<close>.  Statements are values,
  so that the Store's queries can be written down as they stand in the source.  Whether a call
  reaches the server is not decided here: the Store adds the fault.
\<close>

subsection \<open>Values and types\<close>

datatype sqltype = TyUuid | TyText | TyBool | TyInt | TyJsonb | TyTimestamptz

datatype sqlval =
    SNull
  | SText string
  | SUuid string
  | SBool bool
  | SInt int
  | SJson "(string, string) fmap"
  | STime instant

text \<open>A server error, known by its SQLSTATE.\<close>

definition sqlstate :: "string \<Rightarrow> go_error" where
  "sqlstate c = Opaque (''SQLSTATE '' @ c)"

text \<open>
  Input of a UUID: 32 hexadecimal digits in either case, a hyphen allowed after every group of
  four digits, optionally in braces.  The value is printed in lower case as 8-4-4-4-12.
\<close>

definition hex_lower :: "char \<Rightarrow> char option" where
  "hex_lower c =
     (let n = of_char c :: nat in
      if 48 \<le> n \<and> n \<le> 57 then Some c
      else if 97 \<le> n \<and> n \<le> 102 then Some c
      else if 65 \<le> n \<and> n \<le> 70 then Some (char_of (n + 32))
      else None)"

text \<open>
  \<open>uuid_digits k s\<close> reads \<open>k\<close> more bytes of two digits each; the hyphen may follow an even number
  of bytes, except the last.
\<close>

fun uuid_digits :: "nat \<Rightarrow> string \<Rightarrow> (string \<times> string) option" where
  "uuid_digits 0 s = Some ([], s)"
| "uuid_digits (Suc k) (a # b # s) =
     (case (hex_lower a, hex_lower b) of
        (Some a', Some b') \<Rightarrow>
          (case uuid_digits k
                  (case s of c # s' \<Rightarrow> if c = CHR ''-'' \<and> even k \<and> 0 < k then s' else s
                   | [] \<Rightarrow> s) of
             Some (ds, rest) \<Rightarrow> Some (a' # b' # ds, rest)
           | None \<Rightarrow> None)
      | _ \<Rightarrow> None)"
| "uuid_digits (Suc k) s = None"

definition uuid_out :: "string \<Rightarrow> string" where
  "uuid_out ds =
     take 8 ds @ ''-'' @ take 4 (drop 8 ds) @ ''-'' @ take 4 (drop 12 ds) @ ''-'' @
     take 4 (drop 16 ds) @ ''-'' @ drop 20 ds"

definition uuid_in :: "string \<Rightarrow> string option" where
  "uuid_in s =
     (case s of
        [] \<Rightarrow> None
      | c # s' \<Rightarrow>
          if c = CHR ''{'' then
            (case uuid_digits 16 s' of
               Some (ds, rest) \<Rightarrow> if rest = ''}'' then Some (uuid_out ds) else None
             | None \<Rightarrow> None)
          else
            (case uuid_digits 16 s of
               Some (ds, rest) \<Rightarrow> if rest = [] then Some (uuid_out ds) else None
             | None \<Rightarrow> None))"

text \<open>
  A text or JSONB value cannot hold the character U+0000, and the server refuses a text that is not
  valid UTF-8.  (The driver prints a map through \<^verbatim>\<open>encoding/json\<close>, which repairs its strings; the
  model keeps them, so it is exact for maps of valid strings, the only ones a JSON request yields.)
\<close>

definition pg_text :: "string \<Rightarrow> bool" where
  "pg_text s \<longleftrightarrow> list_all (\<lambda>c. c \<noteq> CHR 0x00) s \<and> utf8_valid s"

definition jsonb_ok :: "(string, string) fmap \<Rightarrow> bool" where
  "jsonb_ok m = fmpred (\<lambda>k v. CHR 0x00 \<notin> set k \<and> CHR 0x00 \<notin> set v) m"

lemma pg_text_ascii:
  assumes "list_all (\<lambda>c. c \<noteq> CHR 0x00 \<and> byte c < 0x80) s"
  shows "pg_text s"
proof -
  have "list_all (\<lambda>c. c \<noteq> CHR 0x00) s" and "list_all (\<lambda>c. byte c < 0x80) s"
    using assms by (induction s) simp_all
  then show ?thesis unfolding pg_text_def using ascii_valid by blast
qed

text \<open>
  Input conversion of a Go argument to the column's type: a string is parsed as a UUID where the
  column is one, an integer must fit four bytes, an instant is cut to microseconds.
\<close>

fun coerce :: "sqltype \<Rightarrow> sqlval \<Rightarrow> go_error + sqlval" where
  "coerce ty SNull = Inr SNull"
| "coerce TyUuid (SText s) =
     (case uuid_in s of None \<Rightarrow> Inl (sqlstate ''22P02'') | Some u \<Rightarrow> Inr (SUuid u))"
| "coerce TyText (SText s) = (if pg_text s then Inr (SText s) else Inl (sqlstate ''22021''))"
| "coerce TyBool (SBool b) = Inr (SBool b)"
| "coerce TyInt (SInt i) =
     (if - (2 ^ 31) \<le> i \<and> i < 2 ^ 31 then Inr (SInt i) else Inl (sqlstate ''22003''))"
| "coerce TyJsonb (SJson m) = (if jsonb_ok m then Inr (SJson m) else Inl (sqlstate ''22P05''))"
| "coerce TyTimestamptz (STime t) = Inr (STime (t div 1000 * 1000))"
| "coerce ty v = Inl (sqlstate ''42804'')"

fun has_type :: "sqltype \<Rightarrow> sqlval \<Rightarrow> bool" where
  "has_type ty SNull = True"
| "has_type TyUuid (SUuid s) = True"
| "has_type TyText (SText s) = pg_text s"
| "has_type TyBool (SBool b) = True"
| "has_type TyInt (SInt i) = True"
| "has_type TyJsonb (SJson m) = True"
| "has_type TyTimestamptz (STime t) = True"
| "has_type ty v = False"

lemma coerce_has_type: "coerce ty v = Inr w \<Longrightarrow> has_type ty w"
  by (induction ty v rule: coerce.induct) (auto split: option.splits if_splits)

subsection \<open>Schemas, tables, databases\<close>

datatype default = NoDefault | DefaultVal sqlval | DefaultNow

record coldef =
  col_name :: string
  col_type :: sqltype
  col_pkey :: bool
  col_notnull :: bool
  col_default :: default
  col_refs :: "(string \<times> string) option"

type_synonym row = "(string \<times> sqlval) list"

record table =
  tbl_cols :: "coldef list"
  tbl_rows :: "row list"

record database =
  db_tables :: "string \<rightharpoonup> table"
  db_indexes :: "string list"
  db_now :: instant

definition empty_database :: database where
  "empty_database = \<lparr>db_tables = Map.empty, db_indexes = [], db_now = 0\<rparr>"

definition rows_of :: "database \<Rightarrow> string \<Rightarrow> row list" where
  "rows_of db t = (case db_tables db t of None \<Rightarrow> [] | Some tb \<Rightarrow> tbl_rows tb)"

definition col_of :: "table \<Rightarrow> string \<Rightarrow> coldef option" where
  "col_of tb c = find (\<lambda>cd. col_name cd = c) (tbl_cols tb)"

definition cell :: "row \<Rightarrow> string \<Rightarrow> sqlval" where
  "cell r c = (case map_of r c of None \<Rightarrow> SNull | Some v \<Rightarrow> v)"

subsection \<open>Statements\<close>

datatype expr = Param nat | Lit sqlval

datatype stmt =
    CreateTable string "coldef list"
  | CreateIndex string string "string list"
  | InsertInto string "string list" "expr list"
  | UpdateSet string "(string \<times> expr) list" "(string \<times> expr) list"

datatype query =
    Select "string list" string "(string \<times> expr) list"
  | SelectExists string "(string \<times> expr) list"

definition eval_expr :: "sqlval list \<Rightarrow> expr \<Rightarrow> go_error + sqlval" where
  "eval_expr args e =
     (case e of
        Lit v \<Rightarrow> Inr v
      | Param i \<Rightarrow> if 1 \<le> i \<and> i \<le> length args then Inr (args ! (i - 1))
                   else Inl (sqlstate ''42P02''))"

text \<open>The value an expression has in a column: evaluated and converted to the column's type.\<close>

definition bind_col :: "sqlval list \<Rightarrow> table \<Rightarrow> string \<times> expr \<Rightarrow> go_error + (string \<times> sqlval)" where
  "bind_col args tb ce =
     (case col_of tb (fst ce) of
        None \<Rightarrow> Inl (sqlstate ''42703'')
      | Some cd \<Rightarrow>
          sum_bind (eval_expr args (snd ce))
            (\<lambda>v. sum_bind (coerce (col_type cd) v) (\<lambda>w. Inr (fst ce, w))))"

text \<open>A row satisfies \<open>c1 = v1 AND ...\<close> when no side is NULL and all are equal.\<close>

definition row_matches :: "(string \<times> sqlval) list \<Rightarrow> row \<Rightarrow> bool" where
  "row_matches conds r = list_all (\<lambda>(c, v). v \<noteq> SNull \<and> cell r c = v) conds"

definition default_val :: "instant \<Rightarrow> default \<Rightarrow> sqlval" where
  "default_val now d =
     (case d of NoDefault \<Rightarrow> SNull | DefaultVal v \<Rightarrow> v | DefaultNow \<Rightarrow> STime now)"

definition complete_row :: "instant \<Rightarrow> coldef list \<Rightarrow> (string \<times> sqlval) list \<Rightarrow> row" where
  "complete_row now cds vals =
     map (\<lambda>cd. (col_name cd,
            case map_of vals (col_name cd) of
              Some v \<Rightarrow> v | None \<Rightarrow> default_val now (col_default cd))) cds"

definition null_violation :: "coldef list \<Rightarrow> row \<Rightarrow> bool" where
  "null_violation cds r =
     list_ex (\<lambda>cd. (col_notnull cd \<or> col_pkey cd) \<and> cell r (col_name cd) = SNull) cds"

definition pkey_violation :: "table \<Rightarrow> row \<Rightarrow> bool" where
  "pkey_violation tb r =
     list_ex (\<lambda>cd. col_pkey cd \<and>
        list_ex (\<lambda>r'. cell r' (col_name cd) = cell r (col_name cd)) (tbl_rows tb)) (tbl_cols tb)"

definition refs_ok :: "database \<Rightarrow> coldef list \<Rightarrow> row \<Rightarrow> bool" where
  "refs_ok db cds r =
     list_all (\<lambda>cd.
       (case col_refs cd of
          None \<Rightarrow> True
        | Some (t, c) \<Rightarrow>
            cell r (col_name cd) = SNull \<or>
            list_ex (\<lambda>r'. cell r' c = cell r (col_name cd)) (rows_of db t))) cds"

text \<open>The first constraint a new row violates, in the order the server checks them.\<close>

definition check_row :: "database \<Rightarrow> table \<Rightarrow> row \<Rightarrow> error" where
  "check_row db tb r =
     (if null_violation (tbl_cols tb) r then Some (sqlstate ''23502'')
      else if pkey_violation tb r then Some (sqlstate ''23505'')
      else if \<not> refs_ok db (tbl_cols tb) r then Some (sqlstate ''23503'')
      else None)"

definition set_rows :: "string \<Rightarrow> row list \<Rightarrow> database \<Rightarrow> database" where
  "set_rows t rs db =
     db\<lparr>db_tables := (db_tables db)(t := map_option (\<lambda>tb. tb\<lparr>tbl_rows := rs\<rparr>) (db_tables db t))\<rparr>"

definition exec_insert ::
    "sqlval list \<Rightarrow> string \<Rightarrow> string list \<Rightarrow> expr list \<Rightarrow> database \<Rightarrow> error \<times> database" where
  "exec_insert args t cols es db =
     (case db_tables db t of
        None \<Rightarrow> (Some (sqlstate ''42P01''), db)
      | Some tb \<Rightarrow>
          if length cols \<noteq> length es then (Some (sqlstate ''42601''), db)
          else
          (case map_fallible (bind_col args tb) (zip cols es) of
             Inl e \<Rightarrow> (Some e, db)
           | Inr vals \<Rightarrow>
               let r = complete_row (db_now db) (tbl_cols tb) vals in
               (case check_row db tb r of
                  Some e \<Rightarrow> (Some e, db)
                | None \<Rightarrow> (None, set_rows t (tbl_rows tb @ [r]) db))))"

definition assign :: "(string \<times> sqlval) list \<Rightarrow> row \<Rightarrow> row" where
  "assign vals r =
     map (\<lambda>(c, v). (c, case map_of vals c of Some w \<Rightarrow> w | None \<Rightarrow> v)) r"

definition update_rows :: "(string \<times> sqlval) list \<Rightarrow> (string \<times> sqlval) list \<Rightarrow> row list \<Rightarrow> row list" where
  "update_rows vals cs rs = map (\<lambda>r. if row_matches cs r then assign vals r else r) rs"

text \<open>Columns outside every key: the only ones the fragment's \<open>UPDATE\<close> assigns.\<close>

definition plain_col :: "table \<Rightarrow> string \<Rightarrow> bool" where
  "plain_col tb c =
     (case col_of tb c of None \<Rightarrow> False | Some cd \<Rightarrow> \<not> col_pkey cd \<and> col_refs cd = None)"

definition exec_update ::
    "sqlval list \<Rightarrow> string \<Rightarrow> (string \<times> expr) list \<Rightarrow> (string \<times> expr) list \<Rightarrow> database \<Rightarrow>
     error \<times> database" where
  "exec_update args t sets conds db =
     (case db_tables db t of
        None \<Rightarrow> (Some (sqlstate ''42P01''), db)
      | Some tb \<Rightarrow>
          if \<not> list_all (\<lambda>ce. plain_col tb (fst ce)) sets then (Some (sqlstate ''0A000''), db)
          else
          (case map_fallible (bind_col args tb) sets of
             Inl e \<Rightarrow> (Some e, db)
           | Inr vals \<Rightarrow>
               (case map_fallible (bind_col args tb) conds of
                  Inl e \<Rightarrow> (Some e, db)
                | Inr cs \<Rightarrow>
                    let rs = update_rows vals cs (tbl_rows tb)
                    in if list_ex (null_violation (tbl_cols tb)) rs
                       then (Some (sqlstate ''23502''), db)
                       else (None, set_rows t rs db))))"

text \<open>A reference must name a primary-key column of an existing table.\<close>

definition refs_wf :: "database \<Rightarrow> coldef list \<Rightarrow> bool" where
  "refs_wf db cds =
     list_all (\<lambda>cd.
       (case col_refs cd of
          None \<Rightarrow> True
        | Some (t, c) \<Rightarrow>
            (case db_tables db t of
               None \<Rightarrow> False
             | Some tb \<Rightarrow> (case col_of tb c of None \<Rightarrow> False | Some cd' \<Rightarrow> col_pkey cd')))) cds"

definition default_ok :: "coldef \<Rightarrow> bool" where
  "default_ok cd =
     (case col_default cd of
        NoDefault \<Rightarrow> True
      | DefaultVal v \<Rightarrow> has_type (col_type cd) v
      | DefaultNow \<Rightarrow> col_type cd = TyTimestamptz)"

fun exec_stmt :: "sqlval list \<Rightarrow> stmt \<Rightarrow> database \<Rightarrow> error \<times> database" where
  "exec_stmt args (CreateTable t cds) db =
     (if db_tables db t \<noteq> None then (None, db)
      else if \<not> distinct (map col_name cds) then (Some (sqlstate ''42701''), db)
      else if \<not> list_all default_ok cds then (Some (sqlstate ''42804''), db)
      else if \<not> refs_wf db cds then (Some (sqlstate ''42P01''), db)
      else (None, db\<lparr>db_tables := (db_tables db)(t \<mapsto> \<lparr>tbl_cols = cds, tbl_rows = []\<rparr>)\<rparr>))"
| "exec_stmt args (CreateIndex i t cs) db =
     (if i \<in> set (db_indexes db) then (None, db)
      else (case db_tables db t of
              None \<Rightarrow> (Some (sqlstate ''42P01''), db)
            | Some tb \<Rightarrow>
                if list_all (\<lambda>c. col_of tb c \<noteq> None) cs
                then (None, db\<lparr>db_indexes := db_indexes db @ [i]\<rparr>)
                else (Some (sqlstate ''42703''), db)))"
| "exec_stmt args (InsertInto t cols es) db = exec_insert args t cols es db"
| "exec_stmt args (UpdateSet t sets conds) db = exec_update args t sets conds db"

text \<open>
  Several statements sent in one string run in one implicit transaction: the first error undoes
  all of them.
\<close>

fun run_script :: "stmt list \<Rightarrow> database \<Rightarrow> error \<times> database" where
  "run_script [] db = (None, db)"
| "run_script (s # ss) db =
     (case exec_stmt [] s db of
        (None, db') \<Rightarrow> run_script ss db'
      | (Some e, db') \<Rightarrow> (Some e, db'))"

definition exec_script :: "stmt list \<Rightarrow> database \<Rightarrow> error \<times> database" where
  "exec_script ss db =
     (case run_script ss db of (None, db') \<Rightarrow> (None, db') | (Some e, _) \<Rightarrow> (Some e, db))"

fun run_query :: "sqlval list \<Rightarrow> query \<Rightarrow> database \<Rightarrow> go_error + sqlval list list" where
  "run_query args (Select cs t conds) db =
     (case db_tables db t of
        None \<Rightarrow> Inl (sqlstate ''42P01'')
      | Some tb \<Rightarrow>
          if \<not> list_all (\<lambda>c. col_of tb c \<noteq> None) cs then Inl (sqlstate ''42703'')
          else sum_bind (map_fallible (bind_col args tb) conds)
                 (\<lambda>vs. Inr (map (\<lambda>r. map (cell r) cs) (filter (row_matches vs) (tbl_rows tb)))))"
| "run_query args (SelectExists t conds) db =
     (case db_tables db t of
        None \<Rightarrow> Inl (sqlstate ''42P01'')
      | Some tb \<Rightarrow>
          sum_bind (map_fallible (bind_col args tb) conds)
            (\<lambda>vs. Inr [[SBool (list_ex (row_matches vs) (tbl_rows tb))]]))"

text \<open>\<open>QueryRow\<close> keeps the first row; without one, \<open>Scan\<close> returns \<open>pgx.ErrNoRows\<close>.\<close>

definition query_row :: "sqlval list \<Rightarrow> query \<Rightarrow> database \<Rightarrow> go_error + sqlval list" where
  "query_row args q db =
     sum_bind (run_query args q db)
       (\<lambda>rs. case rs of [] \<Rightarrow> Inl (Sentinel PgxErrNoRows) | r # _ \<Rightarrow> Inr r)"

end
