(* ===== verification/Integrity.thy ===== *)
theory Integrity
  imports Sql
begin

section \<open>Integrity of a database\<close>

text \<open>
  A database has integrity when every row of every table has exactly its table's columns, with
  values of their types and no NULL where none is allowed, primary keys are unique and every
  reference finds its row.  Every statement of the fragment keeps it: the checks an \<open>INSERT\<close> makes
  on one row, and the restriction of \<open>UPDATE\<close> to columns outside every key, are enough.
\<close>

definition row_ok :: "coldef list \<Rightarrow> row \<Rightarrow> bool" where
  "row_ok cds r \<longleftrightarrow>
     map fst r = map col_name cds \<and>
     (\<forall>cd \<in> set cds. has_type (col_type cd) (cell r (col_name cd))) \<and>
     \<not> null_violation cds r"

definition table_ok :: "database \<Rightarrow> table \<Rightarrow> bool" where
  "table_ok db tb \<longleftrightarrow>
     distinct (map col_name (tbl_cols tb)) \<and> list_all default_ok (tbl_cols tb) \<and>
     refs_wf db (tbl_cols tb) \<and>
     (\<forall>r \<in> set (tbl_rows tb). row_ok (tbl_cols tb) r \<and> refs_ok db (tbl_cols tb) r) \<and>
     (\<forall>cd \<in> set (tbl_cols tb).
        col_pkey cd \<longrightarrow> distinct (map (\<lambda>r. cell r (col_name cd)) (tbl_rows tb)))"

definition db_ok :: "database \<Rightarrow> bool" where
  "db_ok db \<longleftrightarrow> (\<forall>t tb. db_tables db t = Some tb \<longrightarrow> table_ok db tb)"

text \<open>
  What a statement may do without breaking references: keep every table with its columns, and every
  value of a primary-key column.
\<close>

definition keys_of :: "table \<Rightarrow> string \<Rightarrow> sqlval set" where
  "keys_of tb c = (\<lambda>r. cell r c) ` set (tbl_rows tb)"

definition extends :: "database \<Rightarrow> database \<Rightarrow> bool" where
  "extends db db' \<longleftrightarrow>
     (\<forall>t tb. db_tables db t = Some tb \<longrightarrow>
        (\<exists>tb'. db_tables db' t = Some tb' \<and> tbl_cols tb' = tbl_cols tb \<and>
               (\<forall>cd \<in> set (tbl_cols tb). col_pkey cd \<longrightarrow>
                  keys_of tb (col_name cd) \<subseteq> keys_of tb' (col_name cd))))"

lemma keys_of_rows: "keys_of (tb\<lparr>tbl_rows := rs\<rparr>) c = (\<lambda>r. cell r c) ` set rs"
  by (simp add: keys_of_def)

lemma col_of_cong: "tbl_cols tb' = tbl_cols tb \<Longrightarrow> col_of tb' c = col_of tb c"
  by (simp add: col_of_def)

lemma col_of_Some: "col_of tb c = Some cd \<Longrightarrow> cd \<in> set (tbl_cols tb) \<and> col_name cd = c"
  by (auto simp: col_of_def find_Some_iff)

lemma col_of_member:
  assumes "distinct (map col_name (tbl_cols tb))" "cd \<in> set (tbl_cols tb)"
  shows "col_of tb (col_name cd) = Some cd"
  using assms by (auto simp: col_of_def find_Some_iff in_set_conv_nth distinct_conv_nth)

lemma rows_of_Some: "db_tables db t = Some tb \<Longrightarrow> rows_of db t = tbl_rows tb"
  by (simp add: rows_of_def)

text \<open>What the two checks say of one referencing column.\<close>

lemma refs_wf_iff:
  "refs_wf db cds \<longleftrightarrow>
     (\<forall>cd \<in> set cds. \<forall>t c. col_refs cd = Some (t, c) \<longrightarrow>
        (\<exists>tb cd'. db_tables db t = Some tb \<and> col_of tb c = Some cd' \<and> col_pkey cd'))"
  unfolding refs_wf_def list_all_iff
  by (intro ball_cong refl) (auto split: option.splits)

lemma refs_ok_iff:
  "refs_ok db cds r \<longleftrightarrow>
     (\<forall>cd \<in> set cds. \<forall>t c. col_refs cd = Some (t, c) \<longrightarrow>
        cell r (col_name cd) = SNull \<or>
        (\<exists>r' \<in> set (rows_of db t). cell r' c = cell r (col_name cd)))"
  unfolding refs_ok_def list_all_iff list_ex_iff
  by (intro ball_cong refl) (auto split: option.splits)

lemma extendsD:
  assumes "extends db db'" "db_tables db t = Some tb"
  shows "\<exists>tb'. db_tables db' t = Some tb' \<and> tbl_cols tb' = tbl_cols tb \<and>
           (\<forall>cd \<in> set (tbl_cols tb). col_pkey cd \<longrightarrow>
              keys_of tb (col_name cd) \<subseteq> keys_of tb' (col_name cd))"
  using assms unfolding extends_def by blast

lemma refs_wf_extends:
  assumes "extends db db'" "refs_wf db cds"
  shows "refs_wf db' cds"
  unfolding refs_wf_iff
proof (intro ballI allI impI)
  fix cd t c assume "cd \<in> set cds" "col_refs cd = Some (t, c)"
  with assms(2) obtain tb cd' where "db_tables db t = Some tb" "col_of tb c = Some cd'" "col_pkey cd'"
    unfolding refs_wf_iff by blast
  moreover from extendsD [OF assms(1) this(1)] obtain tb'
    where "db_tables db' t = Some tb'" "tbl_cols tb' = tbl_cols tb" by blast
  ultimately show "\<exists>tb cd'. db_tables db' t = Some tb \<and> col_of tb c = Some cd' \<and> col_pkey cd'"
    using col_of_cong [of tb' tb c] by auto
qed

lemma refs_ok_extends:
  assumes "extends db db'" "refs_wf db cds" "refs_ok db cds r"
  shows "refs_ok db' cds r"
  unfolding refs_ok_iff
proof (intro ballI allI impI)
  fix cd t c assume cd: "cd \<in> set cds" "col_refs cd = Some (t, c)"
  with assms(2) obtain tb cd' where tb: "db_tables db t = Some tb" "col_of tb c = Some cd'" "col_pkey cd'"
    unfolding refs_wf_iff by blast
  from extendsD [OF assms(1) tb(1)] obtain tb' where tb': "db_tables db' t = Some tb'"
    and "\<forall>cd \<in> set (tbl_cols tb). col_pkey cd \<longrightarrow>
           keys_of tb (col_name cd) \<subseteq> keys_of tb' (col_name cd)" by blast
  with col_of_Some [OF tb(2)] tb(3) have sub: "keys_of tb c \<subseteq> keys_of tb' c" by blast
  from assms(3) cd have "cell r (col_name cd) = SNull \<or> cell r (col_name cd) \<in> keys_of tb c"
    unfolding refs_ok_iff keys_of_def rows_of_Some [OF tb(1), symmetric] by (metis image_eqI)
  with sub show "cell r (col_name cd) = SNull \<or>
      (\<exists>r' \<in> set (rows_of db' t). cell r' c = cell r (col_name cd))"
    by (auto simp: keys_of_def rows_of_Some [OF tb'])
qed

lemma table_ok_extends: "extends db db' \<Longrightarrow> table_ok db tb \<Longrightarrow> table_ok db' tb"
  by (auto simp: table_ok_def intro: refs_wf_extends refs_ok_extends)

subsection \<open>A new row\<close>

lemma cell_complete_row:
  assumes "distinct (map col_name cds)" "cd \<in> set cds"
  shows "cell (complete_row now cds vals) (col_name cd) =
           (case map_of vals (col_name cd) of
              Some v \<Rightarrow> v | None \<Rightarrow> default_val now (col_default cd))"
proof -
  let ?f = "\<lambda>cd. case map_of vals (col_name cd) of
              Some v \<Rightarrow> v | None \<Rightarrow> default_val now (col_default cd)"
  have "map_of (map (\<lambda>cd. (col_name cd, ?f cd)) cds) (col_name cd) = Some (?f cd)"
    using assms by (intro map_of_is_SomeI) (auto simp: comp_def)
  then show ?thesis by (simp add: cell_def complete_row_def)
qed

lemma bind_col_typed:
  assumes "bind_col args tb ce = Inr (c, v)"
  shows "\<exists>cd. col_of tb c = Some cd \<and> has_type (col_type cd) v"
  using assms
  by (auto simp: bind_col_def sum_bind_Inr_iff split: option.splits dest: coerce_has_type)

lemma bind_all_typed:
  assumes "map_fallible (bind_col args tb) ces = Inr vals" and "map_of vals c = Some v"
  shows "\<exists>cd. col_of tb c = Some cd \<and> has_type (col_type cd) v"
proof -
  from assms(2) have "(c, v) \<in> set vals" by (rule map_of_SomeD)
  with map_fallible_member [OF assms(1)] obtain ce where "bind_col args tb ce = Inr (c, v)" by blast
  then show ?thesis by (rule bind_col_typed)
qed

lemma default_has_type: "default_ok cd \<Longrightarrow> has_type (col_type cd) (default_val now (col_default cd))"
  by (auto simp: default_ok_def default_val_def split: default.splits)

lemma complete_row_ok:
  assumes "table_ok db tb" and "map_fallible (bind_col args tb) ces = Inr vals"
    and "\<not> null_violation (tbl_cols tb) (complete_row now (tbl_cols tb) vals)"
  shows "row_ok (tbl_cols tb) (complete_row now (tbl_cols tb) vals)"
proof -
  let ?cds = "tbl_cols tb"
  have d: "distinct (map col_name ?cds)" and def: "list_all default_ok ?cds"
    using assms(1) by (simp_all add: table_ok_def)
  have "has_type (col_type cd) (cell (complete_row now ?cds vals) (col_name cd))"
    if "cd \<in> set ?cds" for cd
  proof (cases "map_of vals (col_name cd)")
    case None
    with that def show ?thesis
      by (simp add: cell_complete_row [OF d] default_has_type list_all_iff)
  next
    case (Some v)
    with bind_all_typed [OF assms(2) Some] col_of_member [OF d that] show ?thesis
      by (simp add: cell_complete_row [OF d that])
  qed
  with assms(3) show ?thesis by (simp add: row_ok_def complete_row_def comp_def)
qed

lemma set_rows_tables:
  "db_tables db t = Some tb \<Longrightarrow>
   db_tables (set_rows t rs db) = (db_tables db)(t \<mapsto> tb\<lparr>tbl_rows := rs\<rparr>)"
  by (simp add: set_rows_def)

lemma extends_set_rows:
  assumes "db_tables db t = Some tb"
    and "\<And>cd. cd \<in> set (tbl_cols tb) \<Longrightarrow> col_pkey cd \<Longrightarrow>
           keys_of tb (col_name cd) \<subseteq> keys_of (tb\<lparr>tbl_rows := rs\<rparr>) (col_name cd)"
  shows "extends db (set_rows t rs db)"
  using assms by (auto simp: extends_def set_rows_tables)

text \<open>Replacing the rows of one table: what is to be shown of the new table alone.\<close>

lemma db_ok_set_rows:
  assumes ok: "db_ok db" and tb: "db_tables db t = Some tb"
    and ext: "extends db (set_rows t rs db)"
    and rows: "\<And>r. r \<in> set rs \<Longrightarrow> row_ok (tbl_cols tb) r \<and> refs_ok db (tbl_cols tb) r"
    and keys: "\<And>cd. cd \<in> set (tbl_cols tb) \<Longrightarrow> col_pkey cd \<Longrightarrow>
                 distinct (map (\<lambda>r. cell r (col_name cd)) rs)"
  shows "db_ok (set_rows t rs db)"
  unfolding db_ok_def
proof (intro allI impI)
  fix t' tb' assume tb': "db_tables (set_rows t rs db) t' = Some tb'"
  have tok: "table_ok db tb" using ok tb by (simp add: db_ok_def)
  show "table_ok (set_rows t rs db) tb'"
  proof (cases "t' = t")
    case True
    with tb tb' have "tb' = tb\<lparr>tbl_rows := rs\<rparr>" by (simp add: set_rows_tables)
    with tok rows keys have "table_ok db tb'" by (simp add: table_ok_def)
    with ext show ?thesis by (rule table_ok_extends)
  next
    case False
    with tb tb' ok have "table_ok db tb'" by (simp add: set_rows_tables db_ok_def)
    with ext show ?thesis by (rule table_ok_extends)
  qed
qed

subsection \<open>INSERT\<close>

lemma check_row_None:
  "check_row db tb r = None \<longleftrightarrow>
     \<not> null_violation (tbl_cols tb) r \<and> \<not> pkey_violation tb r \<and> refs_ok db (tbl_cols tb) r"
  by (simp add: check_row_def)

lemma exec_insert_Some:
  assumes "db_tables db t = Some tb" "length cols = length es"
    and "map_fallible (bind_col args tb) (zip cols es) = Inr vals"
  shows "exec_insert args t cols es db =
           (case check_row db tb (complete_row (db_now db) (tbl_cols tb) vals) of
              Some e \<Rightarrow> (Some e, db)
            | None \<Rightarrow>
                (None, set_rows t (tbl_rows tb @ [complete_row (db_now db) (tbl_cols tb) vals]) db))"
  by (simp add: exec_insert_def assms Let_def)

lemma exec_insert_cases:
  assumes "exec_insert args t cols es db = (None, db')"
  obtains tb vals where "db_tables db t = Some tb"
    and "map_fallible (bind_col args tb) (zip cols es) = Inr vals"
    and "check_row db tb (complete_row (db_now db) (tbl_cols tb) vals) = None"
    and "db' = set_rows t (tbl_rows tb @ [complete_row (db_now db) (tbl_cols tb) vals]) db"
proof -
  from assms obtain tb where tb: "db_tables db t = Some tb" and len: "length cols = length es"
    by (cases "db_tables db t"; cases "length cols = length es") (simp_all add: exec_insert_def)
  with assms obtain vals where vals: "map_fallible (bind_col args tb) (zip cols es) = Inr vals"
    by (cases "map_fallible (bind_col args tb) (zip cols es)") (simp_all add: exec_insert_def)
  from assms show thesis
    unfolding exec_insert_Some [OF tb len vals]
    by (intro that [OF tb vals]) (simp_all split: option.splits)
qed

lemma exec_insert_error: "exec_insert args t cols es db = (Some e, db') \<Longrightarrow> db' = db"
  by (simp add: exec_insert_def Let_def split: option.splits sum.splits if_splits)

lemma exec_insert_ok:
  assumes "db_ok db" and "exec_insert args t cols es db = (None, db')"
  shows "db_ok db'"
  using assms(2)
proof (cases rule: exec_insert_cases)
  case (1 tb vals)
  let ?r = "complete_row (db_now db) (tbl_cols tb) vals"
  have tok: "table_ok db tb" using assms(1) "1"(1) by (simp add: db_ok_def)
  have ext: "extends db (set_rows t (tbl_rows tb @ [?r]) db)"
    by (rule extends_set_rows [OF "1"(1)]) (auto simp: keys_of_def)
  have chk: "\<not> null_violation (tbl_cols tb) ?r" "\<not> pkey_violation tb ?r" "refs_ok db (tbl_cols tb) ?r"
    using "1"(3) by (simp_all add: check_row_None)
  show ?thesis unfolding "1"(4)
  proof (rule db_ok_set_rows [OF assms(1) "1"(1) ext])
    fix r assume "r \<in> set (tbl_rows tb @ [?r])"
    then show "row_ok (tbl_cols tb) r \<and> refs_ok db (tbl_cols tb) r"
      using tok chk(3) complete_row_ok [OF tok "1"(2) chk(1)] by (auto simp: table_ok_def)
  next
    fix cd assume cd: "cd \<in> set (tbl_cols tb)" "col_pkey cd"
    with chk(2) have "cell ?r (col_name cd) \<notin> (\<lambda>r. cell r (col_name cd)) ` set (tbl_rows tb)"
      unfolding pkey_violation_def list_ex_iff by (metis (no_types, lifting) imageE)
    with cd tok show "distinct (map (\<lambda>r. cell r (col_name cd)) (tbl_rows tb @ [?r]))"
      by (simp add: table_ok_def)
  qed
qed

subsection \<open>UPDATE\<close>

lemma map_of_assign:
  "map_of (assign vals r) c =
     map_option (\<lambda>v. case map_of vals c of Some w \<Rightarrow> w | None \<Rightarrow> v) (map_of r c)"
  by (induction r) (simp_all add: assign_def split_beta)

lemma cell_assign:
  assumes "c \<in> fst ` set r"
  shows "cell (assign vals r) c = (case map_of vals c of Some w \<Rightarrow> w | None \<Rightarrow> cell r c)"
proof -
  from assms obtain v where "map_of r c = Some v" by (metis map_of_eq_None_iff not_None_eq)
  then show ?thesis by (simp add: cell_def map_of_assign split: option.split)
qed

lemma cell_assign_other: "map_of vals c = None \<Longrightarrow> cell (assign vals r) c = cell r c"
  by (cases "map_of r c") (simp_all add: cell_def map_of_assign)

lemma fst_assign [simp]: "map fst (assign vals r) = map fst r"
  by (induction r) (auto simp: assign_def)

lemma exec_update_Some:
  assumes "db_tables db t = Some tb" "list_all (\<lambda>ce. plain_col tb (fst ce)) sets"
    and "map_fallible (bind_col args tb) sets = Inr vals"
    and "map_fallible (bind_col args tb) conds = Inr cs"
  shows "exec_update args t sets conds db =
           (if list_ex (null_violation (tbl_cols tb)) (update_rows vals cs (tbl_rows tb))
            then (Some (sqlstate ''23502''), db)
            else (None, set_rows t (update_rows vals cs (tbl_rows tb)) db))"
  by (simp add: exec_update_def assms Let_def)

lemma exec_update_cases:
  assumes "exec_update args t sets conds db = (None, db')"
  obtains tb vals cs where "db_tables db t = Some tb"
    and "list_all (\<lambda>ce. plain_col tb (fst ce)) sets"
    and "map_fallible (bind_col args tb) sets = Inr vals"
    and "map_fallible (bind_col args tb) conds = Inr cs"
    and "\<not> list_ex (null_violation (tbl_cols tb)) (update_rows vals cs (tbl_rows tb))"
    and "db' = set_rows t (update_rows vals cs (tbl_rows tb)) db"
proof -
  from assms obtain tb where tb: "db_tables db t = Some tb"
    by (cases "db_tables db t") (simp_all add: exec_update_def)
  with assms have plain: "list_all (\<lambda>ce. plain_col tb (fst ce)) sets"
    by (cases "list_all (\<lambda>ce. plain_col tb (fst ce)) sets") (simp_all add: exec_update_def)
  with tb assms obtain vals where vals: "map_fallible (bind_col args tb) sets = Inr vals"
    by (cases "map_fallible (bind_col args tb) sets") (simp_all add: exec_update_def)
  with plain tb assms obtain cs where cs: "map_fallible (bind_col args tb) conds = Inr cs"
    by (cases "map_fallible (bind_col args tb) conds") (simp_all add: exec_update_def)
  from assms show thesis
    unfolding exec_update_Some [OF tb plain vals cs]
    by (intro that [OF tb plain vals cs]) (simp_all split: if_splits)
qed

lemma exec_update_error: "exec_update args t sets conds db = (Some e, db') \<Longrightarrow> db' = db"
  by (simp add: exec_update_def Let_def split: option.splits sum.splits if_splits)

lemma bind_col_fst: "bind_col args tb ce = Inr cv \<Longrightarrow> fst cv = fst ce"
  by (auto simp: bind_col_def sum_bind_Inr_iff split: option.splits)

text \<open>The columns an \<open>UPDATE\<close> assigns are plain, so key columns keep their cells.\<close>

lemma bound_plain:
  assumes "list_all (\<lambda>ce. plain_col tb (fst ce)) ces"
    and "map_fallible (bind_col args tb) ces = Inr vals" and "map_of vals c = Some v"
  shows "plain_col tb c"
proof -
  from assms(3) have "(c, v) \<in> set vals" by (rule map_of_SomeD)
  with map_fallible_member [OF assms(2)] obtain ce
    where "ce \<in> set ces" "bind_col args tb ce = Inr (c, v)" by blast
  with assms(1) bind_col_fst show ?thesis by (fastforce simp: list_all_iff)
qed

lemma exec_update_ok:
  assumes "db_ok db" and "exec_update args t sets conds db = (None, db')"
  shows "db_ok db'"
  using assms(2)
proof (cases rule: exec_update_cases)
  case (1 tb vals cs)
  let ?u = "\<lambda>r. if row_matches cs r then assign vals r else r"
  have tok: "table_ok db tb" using assms(1) "1"(1) by (simp add: db_ok_def)
  then have d: "distinct (map col_name (tbl_cols tb))" by (simp add: table_ok_def)
  have same: "cell (?u r) (col_name cd) = cell r (col_name cd)"
    if "cd \<in> set (tbl_cols tb)" "col_pkey cd \<or> col_refs cd \<noteq> None" for r cd
  proof -
    have "\<not> plain_col tb (col_name cd)"
      using that col_of_member [OF d that(1)] by (auto simp: plain_col_def)
    then have "map_of vals (col_name cd) = None"
      using bound_plain [OF "1"(2,3)] by (cases "map_of vals (col_name cd)") auto
    then show ?thesis by (simp add: cell_assign_other)
  qed
  have ext: "extends db (set_rows t (update_rows vals cs (tbl_rows tb)) db)"
  proof (rule extends_set_rows [OF "1"(1)])
    fix cd assume "cd \<in> set (tbl_cols tb)" "col_pkey cd"
    then have "(\<lambda>r. cell (?u r) (col_name cd)) ` set (tbl_rows tb) =
               (\<lambda>r. cell r (col_name cd)) ` set (tbl_rows tb)"
      by (intro image_cong refl same) simp_all
    then show "keys_of tb (col_name cd) \<subseteq>
               keys_of (tb\<lparr>tbl_rows := update_rows vals cs (tbl_rows tb)\<rparr>) (col_name cd)"
      unfolding keys_of_rows update_rows_def
      by (simp only: keys_of_def list.set_map image_image subset_refl)
  qed
  show ?thesis unfolding "1"(6)
  proof (rule db_ok_set_rows [OF assms(1) "1"(1) ext])
    fix r' assume r': "r' \<in> set (update_rows vals cs (tbl_rows tb))"
    then obtain r where r: "r \<in> set (tbl_rows tb)" and [simp]: "r' = ?u r"
      by (auto simp only: update_rows_def list.set_map)
    have rok: "row_ok (tbl_cols tb) r" and ref: "refs_ok db (tbl_cols tb) r"
      using tok r by (simp_all add: table_ok_def)
    have nn: "\<not> null_violation (tbl_cols tb) r'" using "1"(5) r' by (auto simp: list_ex_iff)
    have "has_type (col_type cd) (cell r' (col_name cd))" if cd: "cd \<in> set (tbl_cols tb)" for cd
    proof -
      have "col_name cd \<in> fst ` set r"
        using rok cd by (metis row_ok_def image_eqI list.set_map)
      moreover have "has_type (col_type cd) v" if "map_of vals (col_name cd) = Some v" for v
        using bind_all_typed [OF "1"(3) that] col_of_member [OF d cd] by simp
      ultimately show ?thesis
        using rok cd by (auto simp: row_ok_def cell_assign split: option.splits)
    qed
    moreover have "refs_ok db (tbl_cols tb) r'"
      unfolding refs_ok_iff
    proof (intro ballI allI impI)
      fix cd t c assume cd: "cd \<in> set (tbl_cols tb)" "col_refs cd = Some (t, c)"
      with same [of cd r] have "cell r' (col_name cd) = cell r (col_name cd)" by simp
      with ref cd show "cell r' (col_name cd) = SNull \<or>
          (\<exists>s \<in> set (rows_of db t). cell s c = cell r' (col_name cd))"
        unfolding refs_ok_iff by metis
    qed
    ultimately show "row_ok (tbl_cols tb) r' \<and> refs_ok db (tbl_cols tb) r'"
      using rok nn by (simp add: row_ok_def)
  next
    fix cd assume "cd \<in> set (tbl_cols tb)" "col_pkey cd"
    then show "distinct (map (\<lambda>r. cell r (col_name cd)) (update_rows vals cs (tbl_rows tb)))"
      using tok same [of cd] by (simp add: table_ok_def comp_def update_rows_def)
  qed
qed

subsection \<open>All statements\<close>

lemma db_ok_empty: "db_ok empty_database"
  by (simp add: db_ok_def empty_database_def)

lemma db_ok_index: "db_ok (db\<lparr>db_indexes := is\<rparr>) = db_ok db"
  by (simp add: db_ok_def table_ok_def refs_wf_def refs_ok_def rows_of_def cong: option.case_cong)

lemma exec_create_ok:
  assumes ok: "db_ok db" and new: "db_tables db t = None"
    and d: "distinct (map col_name cds)" "list_all default_ok cds" "refs_wf db cds"
  shows "db_ok (db\<lparr>db_tables := (db_tables db)(t \<mapsto> \<lparr>tbl_cols = cds, tbl_rows = []\<rparr>)\<rparr>)"
proof -
  let ?db = "db\<lparr>db_tables := (db_tables db)(t \<mapsto> \<lparr>tbl_cols = cds, tbl_rows = []\<rparr>)\<rparr>"
  have ext: "extends db ?db" using new by (auto simp: extends_def)
  show ?thesis unfolding db_ok_def
  proof (intro allI impI)
    fix t' tb assume "db_tables ?db t' = Some tb"
    then have "table_ok db tb"
      using ok d by (auto simp: db_ok_def table_ok_def split: if_splits)
    with ext show "table_ok ?db tb" by (rule table_ok_extends)
  qed
qed

lemma exec_stmt_ok:
  assumes "db_ok db"
  shows "db_ok (snd (exec_stmt args s db))"
proof (cases s)
  case (CreateTable t cds)
  with assms exec_create_ok show ?thesis by auto
next
  case (CreateIndex i t cs)
  with assms show ?thesis by (auto simp: db_ok_index split: option.splits)
next
  case (InsertInto t cols es)
  with assms show ?thesis
    by (cases "exec_insert args t cols es db"; cases "fst (exec_insert args t cols es db)")
       (auto dest: exec_insert_ok exec_insert_error)
next
  case (UpdateSet t sets conds)
  with assms show ?thesis
    by (cases "exec_update args t sets conds db"; cases "fst (exec_update args t sets conds db)")
       (auto dest: exec_update_ok exec_update_error)
qed

lemma run_script_ok: "db_ok db \<Longrightarrow> db_ok (snd (run_script ss db))"
proof (induction ss arbitrary: db)
  case (Cons s ss)
  have "db_ok (snd (exec_stmt [] s db))" using Cons.prems by (rule exec_stmt_ok)
  then show ?case using Cons.IH by (auto split: prod.splits option.splits)
qed simp

lemma exec_script_ok: "db_ok db \<Longrightarrow> db_ok (snd (exec_script ss db))"
  using run_script_ok [of db ss] by (auto simp: exec_script_def split: prod.splits option.splits)

end
