(* ===== verification/Store.thy ===== *)
theory Store
  imports Integrity
begin

section \<open>The Postgres store\<close>

text \<open>
  \<^verbatim>\<open>internal/store/postgres.go\<close>: the schema that \<open>Migrate\<close> creates, the statements as they stand
  in the source, and the methods of \<open>Store\<close> with their error wrapping.  Every method takes the
  fault of its one call to the pool; the state is the database.
\<close>

subsection \<open>Migrate\<close>

definition column :: "string \<Rightarrow> sqltype \<Rightarrow> coldef" where
  "column c ty =
     \<lparr>col_name = c, col_type = ty, col_pkey = False, col_notnull = False,
      col_default = NoDefault, col_refs = None\<rparr>"

definition users_cols :: "coldef list" where
  "users_cols =
     [(column ''id'' TyUuid)\<lparr>col_pkey := True\<rparr>,
      (column ''email'' TyText)\<lparr>col_notnull := True\<rparr>,
      column ''phone'' TyText,
      column ''device_token'' TyText,
      column ''platform'' TyText,
      (column ''created_at'' TyTimestamptz)\<lparr>col_default := DefaultNow\<rparr>]"

definition user_preferences_cols :: "coldef list" where
  "user_preferences_cols =
     [(column ''user_id'' TyUuid)\<lparr>col_pkey := True, col_refs := Some (''users'', ''id'')\<rparr>,
      (column ''email_enabled'' TyBool)\<lparr>col_default := DefaultVal (SBool True)\<rparr>,
      (column ''sms_enabled'' TyBool)\<lparr>col_default := DefaultVal (SBool True)\<rparr>,
      (column ''push_enabled'' TyBool)\<lparr>col_default := DefaultVal (SBool True)\<rparr>]"

definition notifications_cols :: "coldef list" where
  "notifications_cols =
     [(column ''id'' TyUuid)\<lparr>col_pkey := True\<rparr>,
      (column ''user_id'' TyUuid)\<lparr>col_notnull := True, col_refs := Some (''users'', ''id'')\<rparr>,
      (column ''channel'' TyText)\<lparr>col_notnull := True\<rparr>,
      (column ''template_id'' TyText)\<lparr>col_notnull := True\<rparr>,
      column ''payload'' TyJsonb,
      (column ''status'' TyText)
        \<lparr>col_notnull := True, col_default := DefaultVal (SText ''pending'')\<rparr>,
      (column ''created_at'' TyTimestamptz)\<lparr>col_default := DefaultNow\<rparr>]"

definition delivery_logs_cols :: "coldef list" where
  "delivery_logs_cols =
     [(column ''id'' TyUuid)\<lparr>col_pkey := True\<rparr>,
      (column ''notification_id'' TyUuid)
        \<lparr>col_notnull := True, col_refs := Some (''notifications'', ''id'')\<rparr>,
      (column ''channel'' TyText)\<lparr>col_notnull := True\<rparr>,
      (column ''attempt'' TyInt)\<lparr>col_notnull := True, col_default := DefaultVal (SInt 1)\<rparr>,
      (column ''status'' TyText)\<lparr>col_notnull := True\<rparr>,
      column ''error_message'' TyText,
      (column ''attempted_at'' TyTimestamptz)\<lparr>col_default := DefaultNow\<rparr>]"

definition Migrate_schema :: "stmt list" where
  "Migrate_schema =
     [CreateTable ''users'' users_cols,
      CreateTable ''user_preferences'' user_preferences_cols,
      CreateTable ''notifications'' notifications_cols,
      CreateIndex ''idx_notifications_user_created'' ''notifications'' [''user_id'', ''created_at''],
      CreateTable ''delivery_logs'' delivery_logs_cols,
      CreateIndex ''idx_delivery_logs_notification_status'' ''delivery_logs''
        [''notification_id'', ''status'']]"

text \<open>The wrapping \<open>fmt.Errorf("<where>: %w", err)\<close> of an \<open>Exec\<close>.\<close>

definition wrap_exec :: "string \<Rightarrow> error \<times> database \<Rightarrow> error \<times> database" where
  "wrap_exec pre r =
     (case r of (None, db) \<Rightarrow> (None, db) | (Some e, db) \<Rightarrow> (Some (Wrapf pre e []), db))"

definition Migrate :: "fault \<Rightarrow> database \<Rightarrow> error \<times> database" where
  "Migrate f db = wrap_exec ''migrate: '' (with_fault f (exec_script Migrate_schema) db)"

subsection \<open>Scanning into Go variables\<close>

text \<open>A NULL does not fit a Go string, bool or time; into a map it scans as nil.\<close>

fun scan_string :: "sqlval \<Rightarrow> go_error + string" where
  "scan_string (SText s) = Inr s"
| "scan_string (SUuid s) = Inr s"
| "scan_string SNull = Inl (Opaque ''cannot scan NULL into *string'')"
| "scan_string v = Inl (Opaque ''cannot scan into *string'')"

fun scan_bool :: "sqlval \<Rightarrow> go_error + bool" where
  "scan_bool (SBool b) = Inr b"
| "scan_bool SNull = Inl (Opaque ''cannot scan NULL into *bool'')"
| "scan_bool v = Inl (Opaque ''cannot scan into *bool'')"

fun scan_time :: "sqlval \<Rightarrow> go_error + instant" where
  "scan_time (STime t) = Inr t"
| "scan_time SNull = Inl (Opaque ''cannot scan NULL into *time.Time'')"
| "scan_time v = Inl (Opaque ''cannot scan into *time.Time'')"

fun scan_map :: "sqlval \<Rightarrow> go_error + payload" where
  "scan_map (SJson m) = Inr (Some m)"
| "scan_map SNull = Inr None"
| "scan_map v = Inl (Opaque ''cannot scan into *map[string]string'')"

definition map_arg :: "payload \<Rightarrow> sqlval" where
  "map_arg p = (case p of None \<Rightarrow> SNull | Some m \<Rightarrow> SJson m)"

subsection \<open>NotificationRepository\<close>

definition Save_query :: stmt where
  "Save_query =
     InsertInto ''notifications''
       [''id'', ''user_id'', ''channel'', ''template_id'', ''payload'', ''status'', ''created_at'']
       [Param 1, Param 2, Param 3, Param 4, Param 5, Param 6, Param 7]"

definition Save :: "fault \<Rightarrow> notification \<Rightarrow> database \<Rightarrow> error \<times> database" where
  "Save f n db =
     wrap_exec ''store.Save: ''
       (with_fault f
          (exec_stmt
             [SText (notif_id n), SText (notif_user_id n), SText (notif_channel n),
              SText (notif_template_id n), map_arg (notif_payload n), SText (notif_status n),
              STime (notif_created_at n)] Save_query) db)"

definition FindByID_query :: query where
  "FindByID_query =
     Select [''id'', ''user_id'', ''channel'', ''template_id'', ''payload'', ''status'', ''created_at'']
       ''notifications'' [(''id'', Param 1)]"

fun scan_notification :: "sqlval list \<Rightarrow> go_error + notification" where
  "scan_notification [i, u, c, t, p, s, a] =
     sum_bind (scan_string i) (\<lambda>i. sum_bind (scan_string u) (\<lambda>u.
     sum_bind (scan_string c) (\<lambda>c. sum_bind (scan_string t) (\<lambda>t.
     sum_bind (scan_map p) (\<lambda>p. sum_bind (scan_string s) (\<lambda>s.
     sum_bind (scan_time a) (\<lambda>a.
       Inr (zero_notification\<lparr>notif_id := i, notif_user_id := u, notif_channel := c,
              notif_template_id := t, notif_payload := p, notif_status := s,
              notif_created_at := a\<rparr>))))))))"
| "scan_notification _ = Inl (Opaque ''number of field descriptions must equal number of destinations'')"

definition FindByID :: "fault \<Rightarrow> string \<Rightarrow> database \<Rightarrow> go_error + notification" where
  "FindByID f i db =
     (case sum_bind (read_fault f (query_row [SText i] FindByID_query db)) scan_notification of
        Inl e \<Rightarrow>
          if errors_is e PgxErrNoRows then Inl (Opaque (''store.FindByID: not found: '' @ i))
          else Inl (Wrapf ''store.FindByID: '' e [])
      | Inr n \<Rightarrow> Inr n)"

definition UpdateStatus_query :: stmt where
  "UpdateStatus_query =
     UpdateSet ''notifications'' [(''status'', Param 1)] [(''id'', Param 2)]"

definition UpdateStatus :: "fault \<Rightarrow> string \<Rightarrow> status \<Rightarrow> database \<Rightarrow> error \<times> database" where
  "UpdateStatus f i st db =
     wrap_exec ''store.UpdateStatus: ''
       (with_fault f (exec_stmt [SText st, SText i] UpdateStatus_query) db)"

subsection \<open>DeliveryLogRepository\<close>

definition Insert_query :: stmt where
  "Insert_query =
     InsertInto ''delivery_logs''
       [''id'', ''notification_id'', ''channel'', ''attempt'', ''status'', ''error_message'',
        ''attempted_at'']
       [Param 1, Param 2, Param 3, Param 4, Param 5, Param 6, Param 7]"

definition Insert :: "fault \<Rightarrow> delivery_log \<Rightarrow> database \<Rightarrow> error \<times> database" where
  "Insert f l db =
     wrap_exec ''store.Insert delivery log: ''
       (with_fault f
          (exec_stmt
             [SText (dlog_id l), SText (dlog_notification_id l), SText (dlog_channel l),
              SInt (dlog_attempt l), SText (dlog_status l), SText (dlog_error_message l),
              STime (dlog_attempted_at l)] Insert_query) db)"

definition UpdateDeliveryStatus_query :: stmt where
  "UpdateDeliveryStatus_query =
     UpdateSet ''delivery_logs'' [(''status'', Param 1), (''error_message'', Param 2)]
       [(''id'', Param 3)]"

definition UpdateDeliveryStatus ::
    "fault \<Rightarrow> string \<Rightarrow> status \<Rightarrow> string \<Rightarrow> database \<Rightarrow> error \<times> database" where
  "UpdateDeliveryStatus f i st errMsg db =
     wrap_exec ''store.UpdateDeliveryStatus: ''
       (with_fault f (exec_stmt [SText st, SText errMsg, SText i] UpdateDeliveryStatus_query) db)"

definition ExistsSent_query :: query where
  "ExistsSent_query =
     SelectExists ''delivery_logs'' [(''notification_id'', Param 1), (''status'', Lit (SText ''sent''))]"

fun scan_exists :: "sqlval list \<Rightarrow> go_error + bool" where
  "scan_exists [b] = scan_bool b"
| "scan_exists _ = Inl (Opaque ''number of field descriptions must equal number of destinations'')"

definition ExistsSent :: "fault \<Rightarrow> string \<Rightarrow> database \<Rightarrow> go_error + bool" where
  "ExistsSent f nid db =
     (case sum_bind (read_fault f (query_row [SText nid] ExistsSent_query db)) scan_exists of
        Inl e \<Rightarrow> Inl (Wrapf ''store.ExistsSent: '' e [])
      | Inr b \<Rightarrow> Inr b)"

subsection \<open>UserRepository\<close>

definition FindUserByID_query :: query where
  "FindUserByID_query =
     Select [''id'', ''email'', ''phone'', ''device_token'', ''platform''] ''users''
       [(''id'', Param 1)]"

fun scan_user :: "sqlval list \<Rightarrow> go_error + user" where
  "scan_user [i, e, p, t, l] =
     sum_bind (scan_string i) (\<lambda>i. sum_bind (scan_string e) (\<lambda>e.
     sum_bind (scan_string p) (\<lambda>p. sum_bind (scan_string t) (\<lambda>t.
     sum_bind (scan_string l) (\<lambda>l.
       Inr \<lparr>user_id = i, user_email = e, user_phone = p, user_device_token = t,
            user_platform = l\<rparr>)))))"
| "scan_user _ = Inl (Opaque ''number of field descriptions must equal number of destinations'')"

definition FindUserByID :: "fault \<Rightarrow> string \<Rightarrow> database \<Rightarrow> go_error + user" where
  "FindUserByID f i db =
     (case sum_bind (read_fault f (query_row [SText i] FindUserByID_query db)) scan_user of
        Inl e \<Rightarrow>
          if errors_is e PgxErrNoRows then Inl (Opaque (''store.FindUserByID: not found: '' @ i))
          else Inl (Wrapf ''store.FindUserByID: '' e [])
      | Inr u \<Rightarrow> Inr u)"

definition FindPreferences_query :: query where
  "FindPreferences_query =
     Select [''user_id'', ''email_enabled'', ''sms_enabled'', ''push_enabled'']
       ''user_preferences'' [(''user_id'', Param 1)]"

fun scan_preferences :: "sqlval list \<Rightarrow> go_error + user_preferences" where
  "scan_preferences [u, e, s, p] =
     sum_bind (scan_string u) (\<lambda>u. sum_bind (scan_bool e) (\<lambda>e.
     sum_bind (scan_bool s) (\<lambda>s. sum_bind (scan_bool p) (\<lambda>p.
       Inr \<lparr>prefs_user_id = u, prefs_email_enabled = e, prefs_sms_enabled = s,
            prefs_push_enabled = p\<rparr>))))"
| "scan_preferences _ =
     Inl (Opaque ''number of field descriptions must equal number of destinations'')"

definition default_preferences :: "string \<Rightarrow> user_preferences" where
  "default_preferences u =
     \<lparr>prefs_user_id = u, prefs_email_enabled = True, prefs_sms_enabled = True,
      prefs_push_enabled = True\<rparr>"

definition FindPreferences :: "fault \<Rightarrow> string \<Rightarrow> database \<Rightarrow> go_error + user_preferences" where
  "FindPreferences f u db =
     (case sum_bind (read_fault f (query_row [SText u] FindPreferences_query db)) scan_preferences of
        Inl e \<Rightarrow>
          if errors_is e PgxErrNoRows then Inr (default_preferences u)
          else Inl (Wrapf ''store.FindPreferences: '' e [])
      | Inr p \<Rightarrow> Inr p)"

lemmas query_defs =
  Save_query_def FindByID_query_def UpdateStatus_query_def Insert_query_def
  UpdateDeliveryStatus_query_def ExistsSent_query_def FindUserByID_query_def
  FindPreferences_query_def

lemmas schema_defs =
  users_cols_def user_preferences_cols_def notifications_cols_def delivery_logs_cols_def

end
