(* ===== verification/Repository.thy ===== *)
theory Repository
  imports Store
begin

section \<open>What the Store promises\<close>

text \<open>
  The typed view of the database: its delivery logs, notifications and user ids, read off the rows
  with the types of the schema.  The Store's methods are shown to act on this view the way the
  interfaces of \<^verbatim>\<open>internal/domain/repository.go\<close> promise; the interfaces themselves are the
  locales that the worker and the handler are verified against.
\<close>

subsection \<open>The typed view\<close>

fun text_of :: "sqlval \<Rightarrow> string" where
  "text_of (SText s) = s"
| "text_of (SUuid s) = s"
| "text_of v = []"

fun int_of :: "sqlval \<Rightarrow> int" where
  "int_of (SInt i) = i"
| "int_of v = 0"

fun time_of :: "sqlval \<Rightarrow> instant" where
  "time_of (STime t) = t"
| "time_of v = 0"

fun map_of_json :: "sqlval \<Rightarrow> payload" where
  "map_of_json (SJson m) = Some m"
| "map_of_json v = None"

definition dlog_of_row :: "row \<Rightarrow> delivery_log" where
  "dlog_of_row r =
     \<lparr>dlog_id = text_of (cell r ''id''),
      dlog_notification_id = text_of (cell r ''notification_id''),
      dlog_channel = text_of (cell r ''channel''),
      dlog_attempt = int_of (cell r ''attempt''),
      dlog_status = text_of (cell r ''status''),
      dlog_error_message = text_of (cell r ''error_message''),
      dlog_attempted_at = time_of (cell r ''attempted_at'')\<rparr>"

definition notif_of_row :: "row \<Rightarrow> notification" where
  "notif_of_row r =
     zero_notification\<lparr>notif_id := text_of (cell r ''id''),
       notif_user_id := text_of (cell r ''user_id''),
       notif_channel := text_of (cell r ''channel''),
       notif_template_id := text_of (cell r ''template_id''),
       notif_payload := map_of_json (cell r ''payload''),
       notif_status := text_of (cell r ''status''),
       notif_created_at := time_of (cell r ''created_at'')\<rparr>"

definition logs :: "database \<Rightarrow> delivery_log list" where
  "logs db = map dlog_of_row (rows_of db ''delivery_logs'')"

definition notifs :: "database \<Rightarrow> notification list" where
  "notifs db = map notif_of_row (rows_of db ''notifications'')"

definition user_ids :: "database \<Rightarrow> string list" where
  "user_ids db = map (\<lambda>r. text_of (cell r ''id'')) (rows_of db ''users'')"

subsection \<open>The schema in place\<close>

definition has_table :: "database \<Rightarrow> string \<Rightarrow> coldef list \<Rightarrow> bool" where
  "has_table db t cds \<longleftrightarrow> map_option tbl_cols (db_tables db t) = Some cds"

definition store_ok :: "database \<Rightarrow> bool" where
  "store_ok db \<longleftrightarrow>
     db_ok db \<and> has_table db ''users'' users_cols \<and>
     has_table db ''user_preferences'' user_preferences_cols \<and>
     has_table db ''notifications'' notifications_cols \<and>
     has_table db ''delivery_logs'' delivery_logs_cols"

lemma has_tableD:
  "has_table db t cds \<Longrightarrow> db_tables db t = Some \<lparr>tbl_cols = cds, tbl_rows = rows_of db t\<rparr>"
  by (auto simp: has_table_def rows_of_def)

lemma has_table_extends: "extends db db' \<Longrightarrow> has_table db t cds \<Longrightarrow> has_table db' t cds"
  by (fastforce simp: has_table_def extends_def)

lemma store_ok_tables:
  assumes "store_ok db"
  shows "db_tables db ''users'' = Some \<lparr>tbl_cols = users_cols, tbl_rows = rows_of db ''users''\<rparr>"
    and "db_tables db ''user_preferences'' =
           Some \<lparr>tbl_cols = user_preferences_cols, tbl_rows = rows_of db ''user_preferences''\<rparr>"
    and "db_tables db ''notifications'' =
           Some \<lparr>tbl_cols = notifications_cols, tbl_rows = rows_of db ''notifications''\<rparr>"
    and "db_tables db ''delivery_logs'' =
           Some \<lparr>tbl_cols = delivery_logs_cols, tbl_rows = rows_of db ''delivery_logs''\<rparr>"
  using assms by (simp_all add: store_ok_def has_tableD)

lemma row_ok_of_table:
  "db_ok db \<Longrightarrow> db_tables db t = Some \<lparr>tbl_cols = cds, tbl_rows = rs\<rparr> \<Longrightarrow> r \<in> set rs \<Longrightarrow>
   row_ok cds r"
  unfolding db_ok_def table_ok_def by (metis table.select_convs)

lemma store_ok_rows:
  assumes "store_ok db"
  shows "r \<in> set (rows_of db ''users'') \<Longrightarrow> row_ok users_cols r"
    and "r \<in> set (rows_of db ''user_preferences'') \<Longrightarrow> row_ok user_preferences_cols r"
    and "r \<in> set (rows_of db ''notifications'') \<Longrightarrow> row_ok notifications_cols r"
    and "r \<in> set (rows_of db ''delivery_logs'') \<Longrightarrow> row_ok delivery_logs_cols r"
  using assms store_ok_tables [OF assms] row_ok_of_table by (auto simp: store_ok_def)

text \<open>A column that is a key or \<open>NOT NULL\<close> holds a value of its type.\<close>

lemma row_ok_cell:
  assumes "row_ok cds r" and "cd \<in> set cds"
  shows "has_type (col_type cd) (cell r (col_name cd))"
    and "col_notnull cd \<or> col_pkey cd \<Longrightarrow> cell r (col_name cd) \<noteq> SNull"
  using assms by (auto simp: row_ok_def null_violation_def list_ex_iff)

lemma has_type_iff:
  "has_type TyUuid v \<longleftrightarrow> v = SNull \<or> (\<exists>s. v = SUuid s)"
  "has_type TyText v \<longleftrightarrow> v = SNull \<or> (\<exists>s. v = SText s \<and> pg_text s)"
  "has_type TyBool v \<longleftrightarrow> v = SNull \<or> (\<exists>b. v = SBool b)"
  "has_type TyInt v \<longleftrightarrow> v = SNull \<or> (\<exists>i. v = SInt i)"
  "has_type TyJsonb v \<longleftrightarrow> v = SNull \<or> (\<exists>m. v = SJson m)"
  "has_type TyTimestamptz v \<longleftrightarrow> v = SNull \<or> (\<exists>t. v = STime t)"
  by (cases v; simp)+

lemma row_ok_cells:
  "row_ok cds r \<Longrightarrow>
   \<forall>cd \<in> set cds. has_type (col_type cd) (cell r (col_name cd)) \<and>
     (col_notnull cd \<or> col_pkey cd \<longrightarrow> cell r (col_name cd) \<noteq> SNull)"
  using row_ok_cell by blast

text \<open>So a UUID column is compared by its text.\<close>

lemma uuid_cell:
  assumes "row_ok cds r" "cd \<in> set cds" "col_type cd = TyUuid" "col_notnull cd \<or> col_pkey cd"
  shows "cell r (col_name cd) = SUuid s \<longleftrightarrow> text_of (cell r (col_name cd)) = s"
proof -
  obtain s' where "cell r (col_name cd) = SUuid s'"
    using row_ok_cell [OF assms(1,2)] assms(3,4) has_type_iff(1) by metis
  then show ?thesis by simp
qed

lemma text_cell:
  assumes "row_ok cds r" "cd \<in> set cds" "col_type cd = TyText" "col_notnull cd \<or> col_pkey cd"
  shows "cell r (col_name cd) = SText s \<longleftrightarrow> text_of (cell r (col_name cd)) = s"
proof -
  obtain s' where "cell r (col_name cd) = SText s'"
    using row_ok_cell [OF assms(1,2)] assms(3,4) has_type_iff(2) by metis
  then show ?thesis by simp
qed

lemmas schema_simps = schema_defs column_def

lemma user_id_cell:
  "row_ok users_cols r \<Longrightarrow> cell r ''id'' = SUuid s \<longleftrightarrow> text_of (cell r ''id'') = s"
  using uuid_cell [of users_cols r "(column ''id'' TyUuid)\<lparr>col_pkey := True\<rparr>"]
  by (simp add: schema_simps)

lemma notif_id_cell:
  "row_ok notifications_cols r \<Longrightarrow> cell r ''id'' = SUuid s \<longleftrightarrow> text_of (cell r ''id'') = s"
  using uuid_cell [of notifications_cols r "(column ''id'' TyUuid)\<lparr>col_pkey := True\<rparr>"]
  by (simp add: schema_simps)

lemma dlog_id_cell:
  "row_ok delivery_logs_cols r \<Longrightarrow> cell r ''id'' = SUuid s \<longleftrightarrow> text_of (cell r ''id'') = s"
  using uuid_cell [of delivery_logs_cols r "(column ''id'' TyUuid)\<lparr>col_pkey := True\<rparr>"]
  by (simp add: schema_simps)

lemma dlog_nid_cell:
  "row_ok delivery_logs_cols r \<Longrightarrow>
   cell r ''notification_id'' = SUuid s \<longleftrightarrow> text_of (cell r ''notification_id'') = s"
  using uuid_cell [of delivery_logs_cols r
      "(column ''notification_id'' TyUuid)
         \<lparr>col_notnull := True, col_refs := Some (''notifications'', ''id'')\<rparr>"]
  by (simp add: schema_simps)

lemma dlog_status_cell:
  "row_ok delivery_logs_cols r \<Longrightarrow>
   cell r ''status'' = SText s \<longleftrightarrow> text_of (cell r ''status'') = s"
  using text_cell [of delivery_logs_cols r "(column ''status'' TyText)\<lparr>col_notnull := True\<rparr>"]
  by (simp add: schema_simps)


subsection \<open>DeliveryLogRepository\<close>

definition int4 :: "int \<Rightarrow> bool" where
  "int4 i \<longleftrightarrow> - (2 ^ 31) \<le> i \<and> i < 2 ^ 31"

definition dlog_row :: "string \<Rightarrow> string \<Rightarrow> delivery_log \<Rightarrow> row" where
  "dlog_row lid nid l =
     [(''id'', SUuid lid), (''notification_id'', SUuid nid), (''channel'', SText (dlog_channel l)),
      (''attempt'', SInt (dlog_attempt l)), (''status'', SText (dlog_status l)),
      (''error_message'', SText (dlog_error_message l)),
      (''attempted_at'', STime (dlog_attempted_at l div 1000 * 1000))]"

definition dlog_args :: "delivery_log \<Rightarrow> sqlval list" where
  "dlog_args l =
     [SText (dlog_id l), SText (dlog_notification_id l), SText (dlog_channel l),
      SInt (dlog_attempt l), SText (dlog_status l), SText (dlog_error_message l),
      STime (dlog_attempted_at l)]"

text \<open>The row a log is stored as: ids in canonical form, the instant cut to microseconds.\<close>

definition stored_dlog :: "string \<Rightarrow> string \<Rightarrow> delivery_log \<Rightarrow> delivery_log" where
  "stored_dlog lid nid l =
     l\<lparr>dlog_id := lid, dlog_notification_id := nid,
       dlog_attempted_at := dlog_attempted_at l div 1000 * 1000\<rparr>"

definition dlog_texts_ok :: "delivery_log \<Rightarrow> bool" where
  "dlog_texts_ok l \<longleftrightarrow>
     pg_text (dlog_channel l) \<and> pg_text (dlog_status l) \<and> pg_text (dlog_error_message l) \<and>
     int4 (dlog_attempt l)"

lemma dlog_of_row_dlog_row [simp]: "dlog_of_row (dlog_row lid nid l) = stored_dlog lid nid l"
  by (simp add: dlog_of_row_def dlog_row_def stored_dlog_def cell_def)

lemmas bind_simps = bind_col_def col_of_def eval_expr_def schema_simps

lemma Insert_bind:
  "map_fallible (bind_col (dlog_args l) \<lparr>tbl_cols = delivery_logs_cols, tbl_rows = rs\<rparr>)
     (zip [''id'', ''notification_id'', ''channel'', ''attempt'', ''status'', ''error_message'',
           ''attempted_at'']
          [Param 1, Param 2, Param 3, Param 4, Param 5, Param 6, Param 7]) = Inr vals \<longleftrightarrow>
   (\<exists>lid nid. uuid_in (dlog_id l) = Some lid \<and> uuid_in (dlog_notification_id l) = Some nid \<and>
      dlog_texts_ok l \<and> vals = dlog_row lid nid l)"
  by (auto simp: bind_simps dlog_args_def sum_bind_Inr_iff dlog_texts_ok_def int4_def dlog_row_def
      split: option.splits if_splits)

lemma complete_dlog_row:
  "complete_row now delivery_logs_cols (dlog_row lid nid l) = dlog_row lid nid l"
  by (simp add: complete_row_def dlog_row_def schema_simps)

lemma ids_cell:
  assumes "\<And>r. r \<in> set rs \<Longrightarrow> cell r c = SUuid s \<longleftrightarrow> text_of (cell r c) = s"
  shows "(\<exists>r \<in> set rs. cell r c = SUuid s) \<longleftrightarrow> s \<in> set (map (\<lambda>r. text_of (cell r c)) rs)"
  using assms by auto

lemma check_dlog_row:
  assumes "store_ok db"
  shows "check_row db \<lparr>tbl_cols = delivery_logs_cols, tbl_rows = rows_of db ''delivery_logs''\<rparr>
           (dlog_row lid nid l) = None \<longleftrightarrow>
         lid \<notin> dlog_id ` set (logs db) \<and> nid \<in> notif_id ` set (notifs db)"
proof -
  have "(\<exists>r \<in> set (rows_of db ''delivery_logs''). cell r ''id'' = SUuid lid)
          \<longleftrightarrow> lid \<in> dlog_id ` set (logs db)"
    using ids_cell [OF dlog_id_cell [OF store_ok_rows(4) [OF assms]]]
    by (simp add: logs_def dlog_of_row_def image_image)
  moreover have "(\<exists>r \<in> set (rows_of db ''notifications''). cell r ''id'' = SUuid nid)
          \<longleftrightarrow> nid \<in> notif_id ` set (notifs db)"
    using ids_cell [OF notif_id_cell [OF store_ok_rows(3) [OF assms]]]
    by (simp add: notifs_def notif_of_row_def image_image)
  ultimately show ?thesis
    by (simp add: check_row_None null_violation_def pkey_violation_def refs_ok_def schema_simps
        dlog_row_def cell_def [of "_ # _"] list_ex_iff)
qed

text \<open>\<open>Insert\<close>, when the call goes through: when it succeeds and what it then stores.\<close>

definition dlog_insertable :: "database \<Rightarrow> delivery_log \<Rightarrow> string \<Rightarrow> string \<Rightarrow> bool" where
  "dlog_insertable db l lid nid \<longleftrightarrow>
     uuid_in (dlog_id l) = Some lid \<and> uuid_in (dlog_notification_id l) = Some nid \<and>
     dlog_texts_ok l \<and> lid \<notin> dlog_id ` set (logs db) \<and> nid \<in> notif_id ` set (notifs db)"

lemma exec_Insert_iff:
  assumes "store_ok db"
  shows "exec_stmt (dlog_args l) Insert_query db = (None, db') \<longleftrightarrow>
         (\<exists>lid nid. dlog_insertable db l lid nid \<and>
            db' = set_rows ''delivery_logs'' (rows_of db ''delivery_logs'' @ [dlog_row lid nid l]) db)"
    (is "?L \<longleftrightarrow> ?R")
proof
  assume ?L
  then have "exec_insert (dlog_args l) ''delivery_logs''
       [''id'', ''notification_id'', ''channel'', ''attempt'', ''status'', ''error_message'',
        ''attempted_at''] [Param 1, Param 2, Param 3, Param 4, Param 5, Param 6, Param 7] db =
       (None, db')" by (simp add: Insert_query_def)
  then show ?R
  proof (cases rule: exec_insert_cases)
    case (1 tb vals)
    then have tb: "tb = \<lparr>tbl_cols = delivery_logs_cols, tbl_rows = rows_of db ''delivery_logs''\<rparr>"
      using store_ok_tables(4) [OF assms] by simp
    from "1"(2) obtain lid nid where ids: "uuid_in (dlog_id l) = Some lid"
        "uuid_in (dlog_notification_id l) = Some nid" "dlog_texts_ok l" "vals = dlog_row lid nid l"
      unfolding tb Insert_bind by blast
    with "1"(3,4) show ?thesis
      unfolding tb by (auto simp: complete_dlog_row check_dlog_row [OF assms] dlog_insertable_def)
  qed
next
  assume ?R
  then obtain lid nid where ins: "dlog_insertable db l lid nid"
    and db': "db' = set_rows ''delivery_logs'' (rows_of db ''delivery_logs'' @ [dlog_row lid nid l]) db"
    by blast
  let ?tb = "\<lparr>tbl_cols = delivery_logs_cols, tbl_rows = rows_of db ''delivery_logs''\<rparr>"
  have bnd: "map_fallible (bind_col (dlog_args l) ?tb)
     (zip [''id'', ''notification_id'', ''channel'', ''attempt'', ''status'', ''error_message'',
           ''attempted_at'']
          [Param 1, Param 2, Param 3, Param 4, Param 5, Param 6, Param 7]) = Inr (dlog_row lid nid l)"
    unfolding Insert_bind using ins by (auto simp: dlog_insertable_def)
  have chk: "check_row db ?tb (dlog_row lid nid l) = None"
    using ins by (simp add: check_dlog_row [OF assms] dlog_insertable_def)
  have "length [''id'', ''notification_id'', ''channel'', ''attempt'', ''status'',
          ''error_message'', ''attempted_at''] =
        length [Param 1, Param 2, Param 3, Param 4, Param 5, Param 6, Param 7]" by simp
  from exec_insert_Some [OF store_ok_tables(4) [OF assms] this bnd]
  show ?L unfolding Insert_query_def exec_stmt.simps db' by (simp add: complete_dlog_row chk)
qed


text \<open>What a successful \<open>INSERT\<close> or \<open>UPDATE\<close> does to the typed view.\<close>

lemma rows_of_set_rows:
  "db_tables db t \<noteq> None \<Longrightarrow> rows_of (set_rows t rs db) t' = (if t' = t then rs else rows_of db t')"
  by (auto simp: rows_of_def set_rows_def)

lemma has_table_set_rows [simp]: "has_table (set_rows t rs db) t' cds = has_table db t' cds"
  by (cases "db_tables db t") (auto simp: has_table_def set_rows_def)

lemma store_ok_exec:
  assumes "store_ok db" and "(\<exists>t cs es. s = InsertInto t cs es) \<or> (\<exists>t ss cs. s = UpdateSet t ss cs)"
  shows "store_ok (snd (exec_stmt args s db))"
proof -
  have "snd (exec_stmt args s db) = db \<or> (\<exists>t rs. snd (exec_stmt args s db) = set_rows t rs db)"
    using assms(2)
    by (auto simp: exec_insert_def exec_update_def Let_def split: option.split sum.split) blast+
  with assms(1) exec_stmt_ok [of db args s] show ?thesis by (auto simp: store_ok_def)
qed

lemma wrap_exec_simps [simp]:
  "snd (wrap_exec pre r) = snd r"
  "fst (wrap_exec pre r) = None \<longleftrightarrow> fst r = None"
  by (simp_all add: wrap_exec_def split: prod.split option.split)

lemma wrap_exec_None [simp]: "wrap_exec pre r = (None, db) \<longleftrightarrow> r = (None, db)"
  by (simp add: wrap_exec_def split: prod.split option.split)

lemma store_ok_with_fault:
  assumes "store_ok db" and "store_ok (snd (op db))"
  shows "store_ok (snd (with_fault f op db))"
  using assms by (cases f) simp_all

lemma logs_set_rows:
  assumes "store_ok db"
  shows "logs (set_rows ''delivery_logs'' rs db) = map dlog_of_row rs"
    and "notifs (set_rows ''delivery_logs'' rs db) = notifs db"
    and "user_ids (set_rows ''delivery_logs'' rs db) = user_ids db"
    and "logs (set_rows ''notifications'' rs db) = logs db"
    and "notifs (set_rows ''notifications'' rs db) = map notif_of_row rs"
    and "user_ids (set_rows ''notifications'' rs db) = user_ids db"
  using store_ok_tables [OF assms] by (simp_all add: logs_def notifs_def user_ids_def rows_of_set_rows)

lemma Insert_view:
  assumes "store_ok db" and "dlog_insertable db l lid nid"
    and "db' = set_rows ''delivery_logs'' (rows_of db ''delivery_logs'' @ [dlog_row lid nid l]) db"
  shows "logs db' = logs db @ [stored_dlog lid nid l]"
    and "notifs db' = notifs db" and "user_ids db' = user_ids db"
  using assms(3) logs_set_rows [OF assms(1)] by (simp_all add: logs_def)

text \<open>\<open>UpdateDeliveryStatus\<close>.\<close>

definition set_dlog :: "string \<Rightarrow> status \<Rightarrow> string \<Rightarrow> delivery_log \<Rightarrow> delivery_log" where
  "set_dlog k st msg l =
     (if dlog_id l = k then l\<lparr>dlog_status := st, dlog_error_message := msg\<rparr> else l)"

abbreviation dlog_sets :: "status \<Rightarrow> string \<Rightarrow> (string \<times> sqlval) list" where
  "dlog_sets st msg \<equiv> [(''status'', SText st), (''error_message'', SText msg)]"

lemma UpdateDelivery_bind:
  "map_fallible (bind_col [SText st, SText msg, SText i]
       \<lparr>tbl_cols = delivery_logs_cols, tbl_rows = rs\<rparr>)
     [(''status'', Param 1), (''error_message'', Param 2)] = Inr vals \<longleftrightarrow>
   pg_text st \<and> pg_text msg \<and> vals = dlog_sets st msg"
  "map_fallible (bind_col [SText st, SText msg, SText i]
       \<lparr>tbl_cols = delivery_logs_cols, tbl_rows = rs\<rparr>) [(''id'', Param 3)] = Inr cs \<longleftrightarrow>
   (\<exists>k. uuid_in i = Some k \<and> cs = [(''id'', SUuid k)])"
  by (auto simp: bind_simps sum_bind_Inr_iff split: option.splits if_splits)

lemma dlog_row_cols:
  "row_ok delivery_logs_cols r \<Longrightarrow>
   fst ` set r = {''id'', ''notification_id'', ''channel'', ''attempt'', ''status'',
                  ''error_message'', ''attempted_at''}"
proof -
  assume "row_ok delivery_logs_cols r"
  then have "set (map fst r) = set (map col_name delivery_logs_cols)" by (simp add: row_ok_def)
  then show ?thesis by (simp add: schema_simps)
qed

lemma assign_dlog:
  assumes "row_ok delivery_logs_cols r"
  shows "dlog_of_row (assign (dlog_sets st msg) r) =
           (dlog_of_row r)\<lparr>dlog_status := st, dlog_error_message := msg\<rparr>"
  using dlog_row_cols [OF assms] by (simp add: dlog_of_row_def cell_assign)

lemma assign_dlog_not_null:
  assumes "row_ok delivery_logs_cols r"
  shows "\<not> null_violation delivery_logs_cols (assign (dlog_sets st msg) r)"
proof -
  have "\<not> null_violation delivery_logs_cols r" using assms by (simp add: row_ok_def)
  then show ?thesis
    using dlog_row_cols [OF assms]
    by (simp add: null_violation_def schema_simps cell_assign)
qed

lemma row_matches_dlog:
  assumes "row_ok delivery_logs_cols r"
  shows "row_matches [(''id'', SUuid k)] r \<longleftrightarrow> dlog_id (dlog_of_row r) = k"
  using dlog_id_cell [OF assms] by (simp add: row_matches_def dlog_of_row_def)

lemma update_rows_dlog:
  assumes "\<And>r. r \<in> set rs \<Longrightarrow> row_ok delivery_logs_cols r"
  shows "map dlog_of_row (update_rows (dlog_sets st msg) [(''id'', SUuid k)] rs) =
           map (set_dlog k st msg) (map dlog_of_row rs)"
    and "\<not> list_ex (null_violation delivery_logs_cols)
             (update_rows (dlog_sets st msg) [(''id'', SUuid k)] rs)"
  using assms
  by (auto simp: update_rows_def set_dlog_def row_matches_dlog assign_dlog list_ex_iff row_ok_def
      assign_dlog_not_null)

lemma exec_UpdateDelivery_iff:
  assumes "store_ok db"
  shows "exec_stmt [SText st, SText msg, SText i] UpdateDeliveryStatus_query db = (None, db') \<longleftrightarrow>
         (\<exists>k. uuid_in i = Some k \<and> pg_text st \<and> pg_text msg \<and>
            db' = set_rows ''delivery_logs''
                    (update_rows (dlog_sets st msg) [(''id'', SUuid k)]
                       (rows_of db ''delivery_logs'')) db)"
    (is "?L \<longleftrightarrow> ?R")
proof
  assume ?L
  then have "exec_update [SText st, SText msg, SText i] ''delivery_logs''
      [(''status'', Param 1), (''error_message'', Param 2)] [(''id'', Param 3)] db = (None, db')"
    by (simp add: UpdateDeliveryStatus_query_def)
  then show ?R
  proof (cases rule: exec_update_cases)
    case (1 tb vals cs)
    then have tb: "tb = \<lparr>tbl_cols = delivery_logs_cols, tbl_rows = rows_of db ''delivery_logs''\<rparr>"
      using store_ok_tables(4) [OF assms] by simp
    from "1"(3,4,6) show ?thesis unfolding tb UpdateDelivery_bind by auto
  qed
next
  assume ?R
  then obtain k where k: "uuid_in i = Some k" "pg_text st" "pg_text msg"
    and db': "db' = set_rows ''delivery_logs''
                (update_rows (dlog_sets st msg) [(''id'', SUuid k)] (rows_of db ''delivery_logs'')) db"
    by blast
  let ?tb = "\<lparr>tbl_cols = delivery_logs_cols, tbl_rows = rows_of db ''delivery_logs''\<rparr>"
  have plain: "list_all (\<lambda>ce. plain_col ?tb (fst ce))
      [(''status'', Param 1), (''error_message'', Param 2)]"
    by (simp add: plain_col_def bind_simps)
  have vals: "map_fallible (bind_col [SText st, SText msg, SText i] ?tb)
      [(''status'', Param 1), (''error_message'', Param 2)] = Inr (dlog_sets st msg)"
    using k UpdateDelivery_bind(1) by blast
  have cs: "map_fallible (bind_col [SText st, SText msg, SText i] ?tb) [(''id'', Param 3)] =
      Inr [(''id'', SUuid k)]"
    using k UpdateDelivery_bind(2) by blast
  show ?L
    unfolding UpdateDeliveryStatus_query_def exec_stmt.simps db'
      exec_update_Some [OF store_ok_tables(4) [OF assms] plain vals cs]
    using update_rows_dlog(2) [OF store_ok_rows(4) [OF assms]] by simp
qed


text \<open>\<open>ExistsSent\<close>.\<close>

lemma ExistsSent_bind:
  "map_fallible (bind_col [SText n] \<lparr>tbl_cols = delivery_logs_cols, tbl_rows = rs\<rparr>)
     [(''notification_id'', Param 1), (''status'', Lit (SText ''sent''))] =
   (case uuid_in n of
      None \<Rightarrow> Inl (sqlstate ''22P02'')
    | Some k \<Rightarrow> Inr [(''notification_id'', SUuid k), (''status'', SText ''sent'')])"
  by (simp add: bind_simps pg_text_ascii byte_def split: option.split)

lemma ExistsSent_eq:
  assumes "store_ok db"
  shows "ExistsSent f n db =
     (case f of
        NoFault \<Rightarrow>
          (case uuid_in n of
             None \<Rightarrow> Inl (Wrapf ''store.ExistsSent: '' (sqlstate ''22P02'') [])
           | Some k \<Rightarrow>
               Inr (\<exists>l \<in> set (logs db). dlog_notification_id l = k \<and> dlog_status l = StatusSent))
      | Refused e \<Rightarrow> Inl (Wrapf ''store.ExistsSent: '' e [])
      | LostReply e \<Rightarrow> Inl (Wrapf ''store.ExistsSent: '' e []))"
proof -
  have m: "row_matches [(''notification_id'', SUuid k), (''status'', SText ''sent'')] r \<longleftrightarrow>
      dlog_notification_id (dlog_of_row r) = k \<and> dlog_status (dlog_of_row r) = StatusSent"
    if "r \<in> set (rows_of db ''delivery_logs'')" for r k
    using that store_ok_rows(4) [OF assms that]
    by (simp add: row_matches_def dlog_nid_cell dlog_status_cell dlog_of_row_def StatusSent_def)
  have "list_ex (row_matches [(''notification_id'', SUuid k), (''status'', SText ''sent'')])
            (rows_of db ''delivery_logs'') \<longleftrightarrow>
        (\<exists>l \<in> set (logs db). dlog_notification_id l = k \<and> dlog_status l = StatusSent)" for k
    using m by (auto simp: list_ex_iff logs_def)
  note sent = this
  have "query_row [SText n] ExistsSent_query db =
        (case uuid_in n of
           None \<Rightarrow> Inl (sqlstate ''22P02'')
         | Some k \<Rightarrow> Inr [SBool (\<exists>l \<in> set (logs db).
                            dlog_notification_id l = k \<and> dlog_status l = StatusSent)])"
    unfolding query_row_def ExistsSent_query_def run_query.simps store_ok_tables(4) [OF assms]
      option.case ExistsSent_bind
    by (simp add: sent split: option.split)
  then show ?thesis
    by (cases f; cases "uuid_in n") (simp_all add: ExistsSent_def)
qed

subsection \<open>NotificationRepository\<close>

definition notif_row :: "string \<Rightarrow> string \<Rightarrow> notification \<Rightarrow> row" where
  "notif_row i u n =
     [(''id'', SUuid i), (''user_id'', SUuid u), (''channel'', SText (notif_channel n)),
      (''template_id'', SText (notif_template_id n)), (''payload'', map_arg (notif_payload n)),
      (''status'', SText (notif_status n)),
      (''created_at'', STime (notif_created_at n div 1000 * 1000))]"

definition notif_args :: "notification \<Rightarrow> sqlval list" where
  "notif_args n =
     [SText (notif_id n), SText (notif_user_id n), SText (notif_channel n),
      SText (notif_template_id n), map_arg (notif_payload n), SText (notif_status n),
      STime (notif_created_at n)]"

text \<open>
  What is stored of a notification: not its recipient fields nor its schedule; ids in canonical
  form, the instant cut to microseconds.
\<close>

definition stored_notif :: "string \<Rightarrow> string \<Rightarrow> notification \<Rightarrow> notification" where
  "stored_notif i u n =
     zero_notification\<lparr>notif_id := i, notif_user_id := u, notif_channel := notif_channel n,
       notif_template_id := notif_template_id n, notif_payload := notif_payload n,
       notif_status := notif_status n,
       notif_created_at := notif_created_at n div 1000 * 1000\<rparr>"

definition notif_texts_ok :: "notification \<Rightarrow> bool" where
  "notif_texts_ok n \<longleftrightarrow>
     pg_text (notif_channel n) \<and> pg_text (notif_template_id n) \<and> pg_text (notif_status n) \<and>
     (case notif_payload n of None \<Rightarrow> True | Some m \<Rightarrow> jsonb_ok m)"

definition notif_insertable :: "database \<Rightarrow> notification \<Rightarrow> string \<Rightarrow> string \<Rightarrow> bool" where
  "notif_insertable db n i u \<longleftrightarrow>
     uuid_in (notif_id n) = Some i \<and> uuid_in (notif_user_id n) = Some u \<and> notif_texts_ok n \<and>
     i \<notin> notif_id ` set (notifs db) \<and> u \<in> set (user_ids db)"

lemma map_arg_simps [simp]: "map_of_json (map_arg p) = p" "scan_map (map_arg p) = Inr p"
  by (cases p; simp add: map_arg_def)+

lemma coerce_map_arg:
  "coerce TyJsonb (map_arg p) =
     (if (case p of None \<Rightarrow> True | Some m \<Rightarrow> jsonb_ok m) then Inr (map_arg p)
      else Inl (sqlstate ''22P05''))"
  by (cases p) (simp_all add: map_arg_def)

lemma notif_of_row_notif_row [simp]: "notif_of_row (notif_row i u n) = stored_notif i u n"
  by (simp add: notif_of_row_def notif_row_def stored_notif_def cell_def)

abbreviation notif_columns :: "string list" where
  "notif_columns \<equiv>
     [''id'', ''user_id'', ''channel'', ''template_id'', ''payload'', ''status'', ''created_at'']"

abbreviation params7 :: "expr list" where
  "params7 \<equiv> [Param 1, Param 2, Param 3, Param 4, Param 5, Param 6, Param 7]"

lemma Save_bind:
  "map_fallible (bind_col (notif_args n) \<lparr>tbl_cols = notifications_cols, tbl_rows = rs\<rparr>)
     (zip notif_columns params7) = Inr vals \<longleftrightarrow>
   (\<exists>i u. uuid_in (notif_id n) = Some i \<and> uuid_in (notif_user_id n) = Some u \<and>
      notif_texts_ok n \<and> vals = notif_row i u n)"
  by (auto simp: bind_simps notif_args_def sum_bind_Inr_iff notif_texts_ok_def notif_row_def
      coerce_map_arg split: option.splits if_splits)

lemma complete_notif_row:
  "complete_row now notifications_cols (notif_row i u n) = notif_row i u n"
  by (simp add: complete_row_def notif_row_def schema_simps)

lemma check_notif_row:
  assumes "store_ok db"
  shows "check_row db \<lparr>tbl_cols = notifications_cols, tbl_rows = rows_of db ''notifications''\<rparr>
           (notif_row i u n) = None \<longleftrightarrow>
         i \<notin> notif_id ` set (notifs db) \<and> u \<in> set (user_ids db)"
proof -
  have "(\<exists>r \<in> set (rows_of db ''notifications''). cell r ''id'' = SUuid i)
          \<longleftrightarrow> i \<in> notif_id ` set (notifs db)"
    using ids_cell [OF notif_id_cell [OF store_ok_rows(3) [OF assms]]]
    by (simp add: notifs_def notif_of_row_def image_image)
  moreover have "(\<exists>r \<in> set (rows_of db ''users''). cell r ''id'' = SUuid u) \<longleftrightarrow> u \<in> set (user_ids db)"
    using ids_cell [OF user_id_cell [OF store_ok_rows(1) [OF assms]]] by (simp add: user_ids_def)
  ultimately show ?thesis
    by (simp add: check_row_None null_violation_def pkey_violation_def refs_ok_def schema_simps
        notif_row_def cell_def [of "_ # _"] list_ex_iff)
qed

lemma exec_Save_iff:
  assumes "store_ok db"
  shows "exec_stmt (notif_args n) Save_query db = (None, db') \<longleftrightarrow>
         (\<exists>i u. notif_insertable db n i u \<and>
            db' = set_rows ''notifications'' (rows_of db ''notifications'' @ [notif_row i u n]) db)"
    (is "?L \<longleftrightarrow> ?R")
proof
  assume ?L
  then have "exec_insert (notif_args n) ''notifications'' notif_columns params7 db = (None, db')"
    by (simp add: Save_query_def)
  then show ?R
  proof (cases rule: exec_insert_cases)
    case (1 tb vals)
    then have tb: "tb = \<lparr>tbl_cols = notifications_cols, tbl_rows = rows_of db ''notifications''\<rparr>"
      using store_ok_tables(3) [OF assms] by simp
    from "1"(2) obtain i u where ids: "uuid_in (notif_id n) = Some i"
        "uuid_in (notif_user_id n) = Some u" "notif_texts_ok n" "vals = notif_row i u n"
      unfolding tb Save_bind by blast
    with "1"(3,4) show ?thesis
      unfolding tb by (auto simp: complete_notif_row check_notif_row [OF assms] notif_insertable_def)
  qed
next
  assume ?R
  then obtain i u where ins: "notif_insertable db n i u"
    and db': "db' = set_rows ''notifications'' (rows_of db ''notifications'' @ [notif_row i u n]) db"
    by blast
  let ?tb = "\<lparr>tbl_cols = notifications_cols, tbl_rows = rows_of db ''notifications''\<rparr>"
  have bnd: "map_fallible (bind_col (notif_args n) ?tb) (zip notif_columns params7) =
      Inr (notif_row i u n)"
    unfolding Save_bind using ins by (auto simp: notif_insertable_def)
  have chk: "check_row db ?tb (notif_row i u n) = None"
    using ins by (simp add: check_notif_row [OF assms] notif_insertable_def)
  have "length notif_columns = length params7" by simp
  from exec_insert_Some [OF store_ok_tables(3) [OF assms] this bnd]
  show ?L unfolding Save_query_def exec_stmt.simps db' by (simp add: complete_notif_row chk)
qed


text \<open>\<open>UpdateStatus\<close>.\<close>

definition set_notif :: "string \<Rightarrow> status \<Rightarrow> notification \<Rightarrow> notification" where
  "set_notif k st n = (if notif_id n = k then n\<lparr>notif_status := st\<rparr> else n)"

lemma UpdateStatus_bind:
  "map_fallible (bind_col [SText st, SText i]
       \<lparr>tbl_cols = notifications_cols, tbl_rows = rs\<rparr>) [(''status'', Param 1)] = Inr vals \<longleftrightarrow>
   pg_text st \<and> vals = [(''status'', SText st)]"
  "map_fallible (bind_col [SText st, SText i]
       \<lparr>tbl_cols = notifications_cols, tbl_rows = rs\<rparr>) [(''id'', Param 2)] = Inr cs \<longleftrightarrow>
   (\<exists>k. uuid_in i = Some k \<and> cs = [(''id'', SUuid k)])"
  by (auto simp: bind_simps sum_bind_Inr_iff split: option.splits if_splits)

lemma notif_row_cols:
  assumes "row_ok notifications_cols r"
  shows "fst ` set r = {''id'', ''user_id'', ''channel'', ''template_id'', ''payload'', ''status'',
                        ''created_at''}"
proof -
  have "set (map fst r) = set (map col_name notifications_cols)" using assms by (simp add: row_ok_def)
  then show ?thesis by (simp add: schema_simps)
qed

lemma assign_notif:
  assumes "row_ok notifications_cols r"
  shows "notif_of_row (assign [(''status'', SText st)] r) = (notif_of_row r)\<lparr>notif_status := st\<rparr>"
    and "cell (assign [(''status'', SText st)] r) ''created_at'' = cell r ''created_at''"
    and "\<not> null_violation notifications_cols (assign [(''status'', SText st)] r)"
proof -
  have "\<not> null_violation notifications_cols r" using assms by (simp add: row_ok_def)
  then show "\<not> null_violation notifications_cols (assign [(''status'', SText st)] r)"
    using notif_row_cols [OF assms] by (simp add: null_violation_def schema_simps cell_assign)
qed (use notif_row_cols [OF assms] in \<open>simp_all add: notif_of_row_def cell_assign\<close>)

lemma row_matches_notif:
  assumes "row_ok notifications_cols r"
  shows "row_matches [(''id'', SUuid k)] r \<longleftrightarrow> notif_id (notif_of_row r) = k"
  using notif_id_cell [OF assms] by (simp add: row_matches_def notif_of_row_def)

lemma update_rows_notif:
  assumes "\<And>r. r \<in> set rs \<Longrightarrow> row_ok notifications_cols r"
  shows "map notif_of_row (update_rows [(''status'', SText st)] [(''id'', SUuid k)] rs) =
           map (set_notif k st) (map notif_of_row rs)"
    and "\<not> list_ex (null_violation notifications_cols)
             (update_rows [(''status'', SText st)] [(''id'', SUuid k)] rs)"
  using assms
  by (auto simp: update_rows_def set_notif_def row_matches_notif assign_notif list_ex_iff row_ok_def)

lemma exec_UpdateStatus_iff:
  assumes "store_ok db"
  shows "exec_stmt [SText st, SText i] UpdateStatus_query db = (None, db') \<longleftrightarrow>
         (\<exists>k. uuid_in i = Some k \<and> pg_text st \<and>
            db' = set_rows ''notifications''
                    (update_rows [(''status'', SText st)] [(''id'', SUuid k)]
                       (rows_of db ''notifications'')) db)"
    (is "?L \<longleftrightarrow> ?R")
proof
  assume ?L
  then have "exec_update [SText st, SText i] ''notifications''
      [(''status'', Param 1)] [(''id'', Param 2)] db = (None, db')"
    by (simp add: UpdateStatus_query_def)
  then show ?R
  proof (cases rule: exec_update_cases)
    case (1 tb vals cs)
    then have tb: "tb = \<lparr>tbl_cols = notifications_cols, tbl_rows = rows_of db ''notifications''\<rparr>"
      using store_ok_tables(3) [OF assms] by simp
    from "1"(3,4,6) show ?thesis unfolding tb UpdateStatus_bind by auto
  qed
next
  assume ?R
  then obtain k where k: "uuid_in i = Some k" "pg_text st"
    and db': "db' = set_rows ''notifications''
        (update_rows [(''status'', SText st)] [(''id'', SUuid k)] (rows_of db ''notifications'')) db"
    by blast
  let ?tb = "\<lparr>tbl_cols = notifications_cols, tbl_rows = rows_of db ''notifications''\<rparr>"
  have plain: "list_all (\<lambda>ce. plain_col ?tb (fst ce)) [(''status'', Param 1)]"
    by (simp add: plain_col_def bind_simps)
  have vals: "map_fallible (bind_col [SText st, SText i] ?tb) [(''status'', Param 1)] =
      Inr [(''status'', SText st)]"
    using k UpdateStatus_bind(1) by blast
  have cs: "map_fallible (bind_col [SText st, SText i] ?tb) [(''id'', Param 2)] =
      Inr [(''id'', SUuid k)]"
    using k UpdateStatus_bind(2) by blast
  show ?L
    unfolding UpdateStatus_query_def exec_stmt.simps db'
      exec_update_Some [OF store_ok_tables(3) [OF assms] plain vals cs]
    using update_rows_notif(2) [OF store_ok_rows(3) [OF assms]] by simp
qed

subsection \<open>Reads by key\<close>

lemma first_row:
  "(case filter P xs of [] \<Rightarrow> e | x # _ \<Rightarrow> f x) = (case find P xs of None \<Rightarrow> e | Some x \<Rightarrow> f x)"
  by (induction xs) auto

text \<open>
  A \<open>SELECT ... WHERE id = $1\<close> by a UUID column: the first row whose id is the argument's canonical
  form.  \<open>key_col\<close> names the column.
\<close>

lemma query_by_key:
  assumes tb: "db_tables db t = Some \<lparr>tbl_cols = cds, tbl_rows = rows_of db t\<rparr>"
    and cols: "list_all (\<lambda>c. col_of \<lparr>tbl_cols = cds, tbl_rows = rows_of db t\<rparr> c \<noteq> None) cs"
    and kc: "\<exists>cd. col_of \<lparr>tbl_cols = cds, tbl_rows = rows_of db t\<rparr> key_col = Some cd \<and>
               col_type cd = TyUuid"
    and cell: "\<And>r s. r \<in> set (rows_of db t) \<Longrightarrow>
                 cell r key_col = SUuid s \<longleftrightarrow> text_of (cell r key_col) = s"
  shows "query_row [SText i] (Select cs t [(key_col, Param 1)]) db =
         (case uuid_in i of
            None \<Rightarrow> Inl (sqlstate ''22P02'')
          | Some k \<Rightarrow>
              (case find (\<lambda>r. text_of (cell r key_col) = k) (rows_of db t) of
                 None \<Rightarrow> Inl (Sentinel PgxErrNoRows)
               | Some r \<Rightarrow> Inr (map (cell r) cs)))"
proof (cases "uuid_in i")
  case None
  with kc tb cols show ?thesis by (auto simp: query_row_def bind_col_def eval_expr_def)
next
  case (Some k)
  have "filter (row_matches [(key_col, SUuid k)]) (rows_of db t) =
        filter (\<lambda>r. text_of (cell r key_col) = k) (rows_of db t)"
    using cell by (intro filter_cong refl) (simp add: row_matches_def)
  moreover have "(case map (\<lambda>r. map (cell r) cs) rs of
           [] \<Rightarrow> Inl (Sentinel PgxErrNoRows) | r # _ \<Rightarrow> Inr r) =
        (case rs of [] \<Rightarrow> Inl (Sentinel PgxErrNoRows) | r # _ \<Rightarrow> Inr (map (cell r) cs))" for rs
    by (cases rs) simp_all
  ultimately show ?thesis
    using Some kc tb cols by (auto simp: query_row_def bind_col_def eval_expr_def first_row)
qed

lemma FindByID_query_row:
  assumes "store_ok db"
  shows "query_row [SText i] FindByID_query db =
         (case uuid_in i of
            None \<Rightarrow> Inl (sqlstate ''22P02'')
          | Some k \<Rightarrow>
              (case find (\<lambda>r. text_of (cell r ''id'') = k) (rows_of db ''notifications'') of
                 None \<Rightarrow> Inl (Sentinel PgxErrNoRows)
               | Some r \<Rightarrow> Inr (map (cell r) notif_columns)))"
  unfolding FindByID_query_def
  by (rule query_by_key [OF store_ok_tables(3) [OF assms]])
     (simp_all add: bind_simps notif_id_cell [OF store_ok_rows(3) [OF assms]])

lemma FindUserByID_query_row:
  assumes "store_ok db"
  shows "query_row [SText i] FindUserByID_query db =
         (case uuid_in i of
            None \<Rightarrow> Inl (sqlstate ''22P02'')
          | Some k \<Rightarrow>
              (case find (\<lambda>r. text_of (cell r ''id'') = k) (rows_of db ''users'') of
                 None \<Rightarrow> Inl (Sentinel PgxErrNoRows)
               | Some r \<Rightarrow> Inr (map (cell r) [''id'', ''email'', ''phone'', ''device_token'', ''platform''])))"
  unfolding FindUserByID_query_def
  by (rule query_by_key [OF store_ok_tables(1) [OF assms]])
     (simp_all add: bind_simps user_id_cell [OF store_ok_rows(1) [OF assms]])

lemma prefs_id_cell:
  "row_ok user_preferences_cols r \<Longrightarrow> cell r ''user_id'' = SUuid s \<longleftrightarrow> text_of (cell r ''user_id'') = s"
  using uuid_cell [of user_preferences_cols r
      "(column ''user_id'' TyUuid)\<lparr>col_pkey := True, col_refs := Some (''users'', ''id'')\<rparr>"]
  by (simp add: schema_simps)

lemma FindPreferences_query_row:
  assumes "store_ok db"
  shows "query_row [SText i] FindPreferences_query db =
         (case uuid_in i of
            None \<Rightarrow> Inl (sqlstate ''22P02'')
          | Some k \<Rightarrow>
              (case find (\<lambda>r. text_of (cell r ''user_id'') = k) (rows_of db ''user_preferences'') of
                 None \<Rightarrow> Inl (Sentinel PgxErrNoRows)
               | Some r \<Rightarrow>
                   Inr (map (cell r) [''user_id'', ''email_enabled'', ''sms_enabled'', ''push_enabled''])))"
  unfolding FindPreferences_query_def
  by (rule query_by_key [OF store_ok_tables(2) [OF assms]])
     (simp_all add: bind_simps prefs_id_cell [OF store_ok_rows(2) [OF assms]])


definition user_of_row :: "row \<Rightarrow> user" where
  "user_of_row r =
     \<lparr>user_id = text_of (cell r ''id''), user_email = text_of (cell r ''email''),
      user_phone = text_of (cell r ''phone''),
      user_device_token = text_of (cell r ''device_token''),
      user_platform = text_of (cell r ''platform'')\<rparr>"

text \<open>A user row can be scanned when none of its nullable text columns is NULL.\<close>

definition user_complete :: "row \<Rightarrow> bool" where
  "user_complete r \<longleftrightarrow>
     cell r ''phone'' \<noteq> SNull \<and> cell r ''device_token'' \<noteq> SNull \<and> cell r ''platform'' \<noteq> SNull"

lemma users_cells:
  assumes "row_ok users_cols r"
  shows "\<exists>s. cell r ''id'' = SUuid s" "\<exists>s. cell r ''email'' = SText s"
    "cell r ''phone'' = SNull \<or> (\<exists>s. cell r ''phone'' = SText s)"
    "cell r ''device_token'' = SNull \<or> (\<exists>s. cell r ''device_token'' = SText s)"
    "cell r ''platform'' = SNull \<or> (\<exists>s. cell r ''platform'' = SText s)"
  using row_ok_cells [OF assms] by (simp_all add: schema_simps has_type_iff) blast+

lemma scan_user_row:
  assumes "row_ok users_cols r"
  shows "scan_user (map (cell r) [''id'', ''email'', ''phone'', ''device_token'', ''platform'']) =
           (if user_complete r then Inr (user_of_row r)
            else Inl (Opaque ''cannot scan NULL into *string''))"
  using users_cells [OF assms] by (auto simp: user_complete_def user_of_row_def)

definition user_row :: "database \<Rightarrow> string \<Rightarrow> row option" where
  "user_row db k = find (\<lambda>r. text_of (cell r ''id'') = k) (rows_of db ''users'')"

lemma FindUserByID_eq:
  assumes "store_ok db"
  shows "FindUserByID NoFault i db =
         (case uuid_in i of
            None \<Rightarrow> Inl (Wrapf ''store.FindUserByID: '' (sqlstate ''22P02'') [])
          | Some k \<Rightarrow>
              (case user_row db k of
                 None \<Rightarrow> Inl (Opaque (''store.FindUserByID: not found: '' @ i))
               | Some r \<Rightarrow>
                   if user_complete r then Inr (user_of_row r)
                   else Inl (Wrapf ''store.FindUserByID: ''
                          (Opaque ''cannot scan NULL into *string'') [])))"
proof -
  have "row_ok users_cols r" if "user_row db k = Some r" for k r
    using that store_ok_rows(1) [OF assms] by (auto simp: user_row_def find_Some_iff)
  then show ?thesis
    unfolding FindUserByID_def FindUserByID_query_row [OF assms] read_fault_simps
    by (simp add: sqlstate_def user_row_def scan_user_row split: option.split del: list.map)
qed

text \<open>\<open>FindByID\<close>: only a NULL creation time can stop the scan.\<close>

lemma notif_cells:
  assumes "row_ok notifications_cols r"
  shows "\<exists>s. cell r ''id'' = SUuid s" "\<exists>s. cell r ''user_id'' = SUuid s"
    "\<exists>s. cell r ''channel'' = SText s" "\<exists>s. cell r ''template_id'' = SText s"
    "\<exists>s. cell r ''status'' = SText s"
    "cell r ''payload'' = SNull \<or> (\<exists>m. cell r ''payload'' = SJson m)"
    "cell r ''created_at'' = SNull \<or> (\<exists>t. cell r ''created_at'' = STime t)"
  using row_ok_cells [OF assms] by (simp_all add: schema_simps has_type_iff) blast+

lemma scan_notification_row:
  assumes "row_ok notifications_cols r"
  shows "scan_notification (map (cell r) notif_columns) =
           (if cell r ''created_at'' = SNull then Inl (Opaque ''cannot scan NULL into *time.Time'')
            else Inr (notif_of_row r))"
  using notif_cells [OF assms] by (auto simp: notif_of_row_def)

definition note_row :: "database \<Rightarrow> string \<Rightarrow> row option" where
  "note_row db k = find (\<lambda>r. text_of (cell r ''id'') = k) (rows_of db ''notifications'')"

lemma FindByID_eq:
  assumes "store_ok db"
  shows "FindByID NoFault i db =
         (case uuid_in i of
            None \<Rightarrow> Inl (Wrapf ''store.FindByID: '' (sqlstate ''22P02'') [])
          | Some k \<Rightarrow>
              (case note_row db k of
                 None \<Rightarrow> Inl (Opaque (''store.FindByID: not found: '' @ i))
               | Some r \<Rightarrow>
                   if cell r ''created_at'' = SNull
                   then Inl (Wrapf ''store.FindByID: ''
                          (Opaque ''cannot scan NULL into *time.Time'') [])
                   else Inr (notif_of_row r)))"
proof -
  have "row_ok notifications_cols r" if "note_row db k = Some r" for k r
    using that store_ok_rows(3) [OF assms] by (auto simp: note_row_def find_Some_iff)
  then show ?thesis
    unfolding FindByID_def FindByID_query_row [OF assms] read_fault_simps
    by (simp add: sqlstate_def note_row_def scan_notification_row split: option.split del: list.map)
qed

lemma FindByID_member:
  assumes "store_ok db" and "FindByID f i db = Inr n"
  shows "\<exists>k. uuid_in i = Some k \<and> notif_id n = k \<and> n \<in> set (notifs db)"
proof -
  have "f = NoFault" using assms(2) by (cases f) (auto simp: FindByID_def split: if_splits)
  with assms show ?thesis
    by (auto simp: FindByID_eq note_row_def find_Some_iff notifs_def notif_of_row_def
        split: option.splits if_splits)
qed

text \<open>\<open>FindPreferences\<close>: a missing row means that everything is enabled.\<close>

definition prefs_of_row :: "row \<Rightarrow> user_preferences" where
  "prefs_of_row r =
     \<lparr>prefs_user_id = text_of (cell r ''user_id''),
      prefs_email_enabled = (cell r ''email_enabled'' = SBool True),
      prefs_sms_enabled = (cell r ''sms_enabled'' = SBool True),
      prefs_push_enabled = (cell r ''push_enabled'' = SBool True)\<rparr>"

definition prefs_complete :: "row \<Rightarrow> bool" where
  "prefs_complete r \<longleftrightarrow>
     cell r ''email_enabled'' \<noteq> SNull \<and> cell r ''sms_enabled'' \<noteq> SNull \<and>
     cell r ''push_enabled'' \<noteq> SNull"

lemma prefs_cells:
  assumes "row_ok user_preferences_cols r"
  shows "\<exists>s. cell r ''user_id'' = SUuid s"
    "cell r ''email_enabled'' = SNull \<or> (\<exists>b. cell r ''email_enabled'' = SBool b)"
    "cell r ''sms_enabled'' = SNull \<or> (\<exists>b. cell r ''sms_enabled'' = SBool b)"
    "cell r ''push_enabled'' = SNull \<or> (\<exists>b. cell r ''push_enabled'' = SBool b)"
  using row_ok_cells [OF assms] by (simp_all add: schema_simps has_type_iff) blast+

lemma scan_preferences_row:
  assumes "row_ok user_preferences_cols r"
  shows "scan_preferences
           (map (cell r) [''user_id'', ''email_enabled'', ''sms_enabled'', ''push_enabled'']) =
         (if prefs_complete r then Inr (prefs_of_row r)
          else Inl (Opaque ''cannot scan NULL into *bool''))"
  using prefs_cells [OF assms] by (auto simp: prefs_complete_def prefs_of_row_def)

definition prefs_row :: "database \<Rightarrow> string \<Rightarrow> row option" where
  "prefs_row db k = find (\<lambda>r. text_of (cell r ''user_id'') = k) (rows_of db ''user_preferences'')"

lemma FindPreferences_eq:
  assumes "store_ok db"
  shows "FindPreferences NoFault i db =
         (case uuid_in i of
            None \<Rightarrow> Inl (Wrapf ''store.FindPreferences: '' (sqlstate ''22P02'') [])
          | Some k \<Rightarrow>
              (case prefs_row db k of
                 None \<Rightarrow> Inr (default_preferences i)
               | Some r \<Rightarrow>
                   if prefs_complete r then Inr (prefs_of_row r)
                   else Inl (Wrapf ''store.FindPreferences: ''
                          (Opaque ''cannot scan NULL into *bool'') [])))"
proof -
  have "row_ok user_preferences_cols r" if "prefs_row db k = Some r" for k r
    using that store_ok_rows(2) [OF assms] by (auto simp: prefs_row_def find_Some_iff)
  then show ?thesis
    unfolding FindPreferences_def FindPreferences_query_row [OF assms] read_fault_simps
    by (simp add: sqlstate_def prefs_row_def scan_preferences_row split: option.split del: list.map)
qed

end
