(* ===== verification/Contracts.thy ===== *)
theory Contracts
  imports Repository
begin

section \<open>The repository interfaces\<close>

text \<open>
  The interfaces of \<^verbatim>\<open>internal/domain/repository.go\<close> as records of operations, what their users
  may rely on as locales, and the Store as their implementation.  \<open>view\<close> and \<open>kept\<close> are the
  abstract contents, \<open>key\<close> the canonical form of an identifier and \<open>good\<close> the store's invariant.
\<close>

record 'd log_repo =
  repo_insert :: "fault \<Rightarrow> delivery_log \<Rightarrow> 'd \<Rightarrow> error \<times> 'd"
  repo_update :: "fault \<Rightarrow> string \<Rightarrow> status \<Rightarrow> string \<Rightarrow> 'd \<Rightarrow> error \<times> 'd"
  repo_exists :: "fault \<Rightarrow> string \<Rightarrow> 'd \<Rightarrow> go_error + bool"

record 'd notif_repo =
  nrepo_save :: "fault \<Rightarrow> notification \<Rightarrow> 'd \<Rightarrow> error \<times> 'd"
  nrepo_find :: "fault \<Rightarrow> string \<Rightarrow> 'd \<Rightarrow> go_error + notification"
  nrepo_update :: "fault \<Rightarrow> string \<Rightarrow> status \<Rightarrow> 'd \<Rightarrow> error \<times> 'd"

text \<open>Some log of notification \<open>k\<close> carries the status \<open>sent\<close>.\<close>

definition sent_in :: "delivery_log list \<Rightarrow> string \<Rightarrow> bool" where
  "sent_in ls k \<longleftrightarrow> (\<exists>l \<in> set ls. dlog_notification_id l = k \<and> dlog_status l = StatusSent)"

lemma sent_in_append [simp]: "sent_in (xs @ ys) k \<longleftrightarrow> sent_in xs k \<or> sent_in ys k"
  by (auto simp: sent_in_def)

lemma sent_in_simps [simp]:
  "sent_in [] k = False"
  "sent_in (l # ls) k \<longleftrightarrow> dlog_notification_id l = k \<and> dlog_status l = StatusSent \<or> sent_in ls k"
  by (auto simp: sent_in_def)

lemma set_dlog_fields [simp]:
  "dlog_id (set_dlog k st msg l) = dlog_id l"
  "dlog_notification_id (set_dlog k st msg l) = dlog_notification_id l"
  "dlog_channel (set_dlog k st msg l) = dlog_channel l"
  "dlog_attempt (set_dlog k st msg l) = dlog_attempt l"
  by (simp_all add: set_dlog_def)

lemma sent_in_mark:
  "sent_in ls k \<Longrightarrow> sent_in (map (set_dlog i StatusSent msg) ls) k"
  "l \<in> set ls \<Longrightarrow> dlog_id l = i \<Longrightarrow>
   sent_in (map (set_dlog i StatusSent msg) ls) (dlog_notification_id l)"
  by (induction ls) (auto simp: set_dlog_def)

lemma stored_dlog_fields [simp]:
  "dlog_id (stored_dlog lid nid l) = lid"
  "dlog_notification_id (stored_dlog lid nid l) = nid"
  "dlog_channel (stored_dlog lid nid l) = dlog_channel l"
  "dlog_status (stored_dlog lid nid l) = dlog_status l"
  "dlog_attempt (stored_dlog lid nid l) = dlog_attempt l"
  "dlog_error_message (stored_dlog lid nid l) = dlog_error_message l"
  by (simp_all add: stored_dlog_def)

locale delivery_log_repository =
  fixes R :: "'d log_repo"
    and good :: "'d \<Rightarrow> bool"
    and view :: "'d \<Rightarrow> delivery_log list"
    and known :: "'d \<Rightarrow> string \<Rightarrow> bool"
    and key :: "string \<Rightarrow> string option"
  assumes good_insert: "good d \<Longrightarrow> good (snd (repo_insert R f l d))"
    and good_update: "good d \<Longrightarrow> good (snd (repo_update R f i st msg d))"
    and insert_ok: "good d \<Longrightarrow> repo_insert R f l d = (None, d') \<Longrightarrow>
      \<exists>lid nid. key (dlog_id l) = Some lid \<and> key (dlog_notification_id l) = Some nid \<and>
        lid \<notin> dlog_id ` set (view d) \<and> view d' = view d @ [stored_dlog lid nid l]"
    and insert_err: "good d \<Longrightarrow> repo_insert R f l d = (Some e, d') \<Longrightarrow>
      view d' = view d \<or>
      (\<exists>lid nid. key (dlog_id l) = Some lid \<and> key (dlog_notification_id l) = Some nid \<and>
        lid \<notin> dlog_id ` set (view d) \<and> view d' = view d @ [stored_dlog lid nid l])"
    and insert_possible: "good d \<Longrightarrow> key (dlog_id l) = Some lid \<Longrightarrow>
      key (dlog_notification_id l) = Some nid \<Longrightarrow> lid \<notin> dlog_id ` set (view d) \<Longrightarrow>
      known d nid \<Longrightarrow> dlog_texts_ok l \<Longrightarrow> fst (repo_insert R NoFault l d) = None"
    and update_ok: "good d \<Longrightarrow> repo_update R f i st msg d = (None, d') \<Longrightarrow>
      \<exists>k. key i = Some k \<and> view d' = map (set_dlog k st msg) (view d)"
    and update_err: "good d \<Longrightarrow> repo_update R f i st msg d = (Some e, d') \<Longrightarrow>
      view d' = view d \<or> (\<exists>k. key i = Some k \<and> view d' = map (set_dlog k st msg) (view d))"
    and update_possible: "good d \<Longrightarrow> key i = Some k \<Longrightarrow> pg_text st \<Longrightarrow> pg_text msg \<Longrightarrow>
      fst (repo_update R NoFault i st msg d) = None"
    and exists_ok: "good d \<Longrightarrow> repo_exists R f n d = Inr b \<Longrightarrow>
      \<exists>k. key n = Some k \<and> b = sent_in (view d) k"
    and exists_possible: "good d \<Longrightarrow> key n = Some k \<Longrightarrow>
      repo_exists R NoFault n d = Inr (sent_in (view d) k)"
    and known_insert: "good d \<Longrightarrow> known (snd (repo_insert R f l d)) k \<longleftrightarrow> known d k"
    and known_update: "good d \<Longrightarrow> known (snd (repo_update R f i st msg d)) k \<longleftrightarrow> known d k"
begin

text \<open>Whatever the outcome, an insert adds at most its own log.\<close>

lemma insert_view:
  assumes "good d"
  shows "view (snd (repo_insert R f l d)) = view d \<or>
         (\<exists>lid nid. key (dlog_id l) = Some lid \<and> key (dlog_notification_id l) = Some nid \<and>
            lid \<notin> dlog_id ` set (view d) \<and>
            view (snd (repo_insert R f l d)) = view d @ [stored_dlog lid nid l])"
  using insert_ok [OF assms] insert_err [OF assms]
  by (cases "repo_insert R f l d"; cases "fst (repo_insert R f l d)") fastforce+

lemma update_view:
  assumes "good d"
  shows "view (snd (repo_update R f i st msg d)) = view d \<or>
         (\<exists>k. key i = Some k \<and>
            view (snd (repo_update R f i st msg d)) = map (set_dlog k st msg) (view d))"
  using update_ok [OF assms] update_err [OF assms]
  by (cases "repo_update R f i st msg d"; cases "fst (repo_update R f i st msg d)") fastforce+

text \<open>Log ids stay distinct and logs are never removed.\<close>

lemma insert_distinct:
  "good d \<Longrightarrow> distinct (map dlog_id (view d)) \<Longrightarrow>
   distinct (map dlog_id (view (snd (repo_insert R f l d))))"
  using insert_view [of d f l] by auto

lemma update_ids:
  assumes "good d"
  shows "map dlog_id (view (snd (repo_update R f i st msg d))) = map dlog_id (view d)"
  using update_view [OF assms, of f i st msg] by (auto simp: comp_def)

text \<open>Once a notification is recorded as sent, only an update of that very log could undo it.\<close>

lemma insert_sent:
  "good d \<Longrightarrow> sent_in (view d) k \<Longrightarrow> sent_in (view (snd (repo_insert R f l d))) k"
  using insert_view [of d f l] by auto

lemma update_to_sent:
  assumes "good d" "sent_in (view d) k"
  shows "sent_in (view (snd (repo_update R f i StatusSent msg d))) k"
  using update_view [OF assms(1), of f i StatusSent msg] assms(2) sent_in_mark(1) by auto

end

locale notification_repository =
  fixes N :: "'d notif_repo"
    and good :: "'d \<Rightarrow> bool"
    and kept :: "'d \<Rightarrow> notification list"
    and users :: "'d \<Rightarrow> string list"
    and key :: "string \<Rightarrow> string option"
  assumes good_save: "good d \<Longrightarrow> good (snd (nrepo_save N f n d))"
    and save_ok: "good d \<Longrightarrow> nrepo_save N f n d = (None, d') \<Longrightarrow>
      \<exists>i u. key (notif_id n) = Some i \<and> key (notif_user_id n) = Some u \<and>
        i \<notin> notif_id ` set (kept d) \<and> u \<in> set (users d) \<and>
        kept d' = kept d @ [stored_notif i u n] \<and>
        nrepo_find N NoFault (notif_id n) d' = Inr (stored_notif i u n)"
    and save_err: "good d \<Longrightarrow> nrepo_save N f n d = (Some e, d') \<Longrightarrow>
      kept d' = kept d \<or>
      (\<exists>i u. key (notif_id n) = Some i \<and> key (notif_user_id n) = Some u \<and>
        i \<notin> notif_id ` set (kept d) \<and> u \<in> set (users d) \<and>
        kept d' = kept d @ [stored_notif i u n])"
    and save_possible: "good d \<Longrightarrow> key (notif_id n) = Some i \<Longrightarrow> key (notif_user_id n) = Some u \<Longrightarrow>
      i \<notin> notif_id ` set (kept d) \<Longrightarrow> u \<in> set (users d) \<Longrightarrow> notif_texts_ok n \<Longrightarrow>
      fst (nrepo_save N NoFault n d) = None"
    and find_ok: "good d \<Longrightarrow> nrepo_find N f i d = Inr n \<Longrightarrow>
      \<exists>k. key i = Some k \<and> notif_id n = k \<and> n \<in> set (kept d)"
begin

lemma save_view:
  assumes "good d"
  shows "kept (snd (nrepo_save N f n d)) = kept d \<or>
         (\<exists>i u. key (notif_id n) = Some i \<and> key (notif_user_id n) = Some u \<and>
            i \<notin> notif_id ` set (kept d) \<and>
            kept (snd (nrepo_save N f n d)) = kept d @ [stored_notif i u n])"
  using save_ok [OF assms] save_err [OF assms]
  by (cases "nrepo_save N f n d"; cases "fst (nrepo_save N f n d)") fastforce+

text \<open>A status every stored notification has, and the saved one too, is what a lookup shows.\<close>

lemma find_status:
  assumes "good d" "\<forall>n \<in> set (kept d). notif_status n = st" "nrepo_find N f i d = Inr n"
  shows "notif_status n = st"
  using find_ok [OF assms(1,3)] assms(2) by auto

end

subsection \<open>The Store implements them\<close>

definition store_log_repo :: "database log_repo" where
  "store_log_repo =
     \<lparr>repo_insert = Insert, repo_update = UpdateDeliveryStatus, repo_exists = ExistsSent\<rparr>"

definition store_notif_repo :: "database notif_repo" where
  "store_notif_repo = \<lparr>nrepo_save = Save, nrepo_find = FindByID, nrepo_update = UpdateStatus\<rparr>"

lemma Insert_args: "Insert f l db =
    wrap_exec ''store.Insert delivery log: '' (with_fault f (exec_stmt (dlog_args l) Insert_query) db)"
  by (simp add: Insert_def dlog_args_def)

lemma Save_args: "Save f n db =
    wrap_exec ''store.Save: '' (with_fault f (exec_stmt (notif_args n) Save_query) db)"
  by (simp add: Save_def notif_args_def)

lemma store_ok_Insert: "store_ok db \<Longrightarrow> store_ok (snd (Insert f l db))"
  by (simp add: Insert_def Insert_query_def store_ok_with_fault store_ok_exec
      del: exec_stmt.simps)

lemma store_ok_Save: "store_ok db \<Longrightarrow> store_ok (snd (Save f n db))"
  by (simp add: Save_def Save_query_def store_ok_with_fault store_ok_exec del: exec_stmt.simps)

lemma store_ok_UpdateDeliveryStatus:
  "store_ok db \<Longrightarrow> store_ok (snd (UpdateDeliveryStatus f i st msg db))"
  by (simp add: UpdateDeliveryStatus_def UpdateDeliveryStatus_query_def store_ok_with_fault
      store_ok_exec del: exec_stmt.simps)

lemma store_ok_UpdateStatus: "store_ok db \<Longrightarrow> store_ok (snd (UpdateStatus f i st db))"
  by (simp add: UpdateStatus_def UpdateStatus_query_def store_ok_with_fault
      store_ok_exec del: exec_stmt.simps)

text \<open>
  A statement under a fault has the state before it or the state of a successful run: the server
  undoes a statement that fails.
\<close>

lemma exec_error_state:
  assumes "(\<exists>t cs es. s = InsertInto t cs es) \<or> (\<exists>t ss cs. s = UpdateSet t ss cs)"
  shows "snd (exec_stmt args s db) = db \<or> fst (exec_stmt args s db) = None"
  using assms
  by (cases "exec_stmt args s db"; cases "fst (exec_stmt args s db)")
     (auto dest: exec_insert_error exec_update_error)

lemma faulty_exec_cases:
  assumes "(\<exists>t cs es. s = InsertInto t cs es) \<or> (\<exists>t ss cs. s = UpdateSet t ss cs)"
    and "wrap_exec pre (with_fault f (exec_stmt args s) db) = (r, db')"
  shows "r = None \<and> exec_stmt args s db = (None, db') \<or>
         r \<noteq> None \<and> (db' = db \<or> exec_stmt args s db = (None, db'))"
proof -
  have "db' = snd (with_fault f (exec_stmt args s) db)"
    using arg_cong [OF assms(2), of snd] by simp
  moreover have "r = None \<longleftrightarrow> fst (with_fault f (exec_stmt args s) db) = None"
    using arg_cong [OF assms(2), of fst] wrap_exec_simps(2) by fastforce
  ultimately show ?thesis
    using exec_error_state [OF assms(1), of args db]
    by (cases f; cases "exec_stmt args s db") auto
qed

lemma Insert_cases:
  assumes "store_ok db" "Insert f l db = (r, db')"
  shows "r = None \<and> (\<exists>lid nid. dlog_insertable db l lid nid \<and>
            logs db' = logs db @ [stored_dlog lid nid l]) \<or>
         r \<noteq> None \<and> (logs db' = logs db \<or> (\<exists>lid nid. dlog_insertable db l lid nid \<and>
            logs db' = logs db @ [stored_dlog lid nid l]))"
proof -
  have ins: "(\<exists>lid nid. dlog_insertable db l lid nid \<and> logs db' = logs db @ [stored_dlog lid nid l])"
    if "exec_stmt (dlog_args l) Insert_query db = (None, db')"
    using that Insert_view(1) [OF assms(1)] unfolding exec_Insert_iff [OF assms(1)] by blast
  have "(\<exists>t cs es. Insert_query = InsertInto t cs es) \<or> (\<exists>t ss cs. Insert_query = UpdateSet t ss cs)"
    by (simp add: Insert_query_def)
  from faulty_exec_cases [OF this assms(2) [unfolded Insert_args]] ins show ?thesis by blast
qed

lemma Insert_frame:
  assumes "store_ok db"
  shows "notifs (snd (Insert f l db)) = notifs db" "user_ids (snd (Insert f l db)) = user_ids db"
proof -
  obtain r db' where eq: "Insert f l db = (r, db')" by fastforce
  have "(\<exists>t cs es. Insert_query = InsertInto t cs es) \<or> (\<exists>t ss cs. Insert_query = UpdateSet t ss cs)"
    by (simp add: Insert_query_def)
  from faulty_exec_cases [OF this eq [unfolded Insert_args]]
  have "db' = db \<or> exec_stmt (dlog_args l) Insert_query db = (None, db')" by blast
  then have "notifs db' = notifs db \<and> user_ids db' = user_ids db"
    unfolding exec_Insert_iff [OF assms] using Insert_view(2,3) [OF assms] by blast
  with eq show "notifs (snd (Insert f l db)) = notifs db"
      "user_ids (snd (Insert f l db)) = user_ids db" by simp_all
qed

lemma UpdateDeliveryStatus_cases:
  assumes "store_ok db" "UpdateDeliveryStatus f i st msg db = (r, db')"
  shows "r = None \<and> (\<exists>k. uuid_in i = Some k \<and> logs db' = map (set_dlog k st msg) (logs db)) \<or>
         r \<noteq> None \<and> (logs db' = logs db \<or>
            (\<exists>k. uuid_in i = Some k \<and> logs db' = map (set_dlog k st msg) (logs db)))"
    and "notifs db' = notifs db" "user_ids db' = user_ids db"
proof -
  let ?run = "exec_stmt [SText st, SText msg, SText i] UpdateDeliveryStatus_query db = (None, db')"
  have upd: "(\<exists>k. uuid_in i = Some k \<and> logs db' = map (set_dlog k st msg) (logs db)) \<and>
      notifs db' = notifs db \<and> user_ids db' = user_ids db" if ?run
    using that logs_set_rows [OF assms(1)]
      update_rows_dlog(1) [OF store_ok_rows(4) [OF assms(1)]]
    unfolding exec_UpdateDelivery_iff [OF assms(1)] by (auto simp: logs_def)
  have "(\<exists>t cs es. UpdateDeliveryStatus_query = InsertInto t cs es) \<or>
      (\<exists>t ss cs. UpdateDeliveryStatus_query = UpdateSet t ss cs)"
    by (simp add: UpdateDeliveryStatus_query_def)
  from faulty_exec_cases [OF this assms(2) [unfolded UpdateDeliveryStatus_def]] upd
  show "r = None \<and> (\<exists>k. uuid_in i = Some k \<and> logs db' = map (set_dlog k st msg) (logs db)) \<or>
         r \<noteq> None \<and> (logs db' = logs db \<or>
            (\<exists>k. uuid_in i = Some k \<and> logs db' = map (set_dlog k st msg) (logs db)))"
    and "notifs db' = notifs db" "user_ids db' = user_ids db" by blast+
qed

lemma UpdateDeliveryStatus_possible:
  assumes "store_ok db" "uuid_in i = Some k" "pg_text st" "pg_text msg"
  shows "fst (UpdateDeliveryStatus NoFault i st msg db) = None"
  using exec_UpdateDelivery_iff [OF assms(1)] assms(2-4)
  unfolding UpdateDeliveryStatus_def with_fault_simps wrap_exec_simps by (metis fst_conv)

interpretation store_logs: delivery_log_repository store_log_repo store_ok logs
  "\<lambda>db k. k \<in> notif_id ` set (notifs db)" uuid_in
proof (unfold_locales, goal_cases)
  case (1 d f l)
  then show ?case by (simp add: store_log_repo_def store_ok_Insert)
next
  case (2 d f i st msg)
  then show ?case by (simp add: store_log_repo_def store_ok_UpdateDeliveryStatus)
next
  case (3 d f l d')
  then show ?case
    using Insert_cases [of d f l None d'] by (auto simp: store_log_repo_def dlog_insertable_def)
next
  case (4 d f l e d')
  then show ?case
    using Insert_cases [of d f l "Some e" d'] by (auto simp: store_log_repo_def dlog_insertable_def)
next
  case (5 d l lid nid)
  then have "\<exists>lid nid. dlog_insertable d l lid nid" by (auto simp: dlog_insertable_def)
  then show ?case
    using exec_Insert_iff [OF 5(1)]
    by (simp add: store_log_repo_def Insert_args) (metis fst_conv)
next
  case (6 d f i st msg d')
  then show ?case
    using UpdateDeliveryStatus_cases(1) [of d f i st msg None d'] by (auto simp: store_log_repo_def)
next
  case (7 d f i st msg e d')
  then show ?case
    using UpdateDeliveryStatus_cases(1) [of d f i st msg "Some e" d']
    by (auto simp: store_log_repo_def)
next
  case (8 d i k st msg)
  then show ?case by (simp add: store_log_repo_def UpdateDeliveryStatus_possible)
next
  case (9 d f n b)
  then show ?case
    by (auto simp: store_log_repo_def ExistsSent_eq sent_in_def split: fault.splits option.splits)
next
  case (10 d n k)
  then show ?case by (simp add: store_log_repo_def ExistsSent_eq sent_in_def)
next
  case (11 d f l k)
  then show ?case by (simp add: store_log_repo_def Insert_frame)
next
  case (12 d f i st msg k)
  then show ?case
    using UpdateDeliveryStatus_cases(2) [of d f i st msg] by (cases "UpdateDeliveryStatus f i st msg d")
      (auto simp: store_log_repo_def)
qed

lemma Save_cases:
  assumes "store_ok db" "Save f n db = (r, db')"
  shows "r = None \<and> (\<exists>i u. notif_insertable db n i u \<and>
            db' = set_rows ''notifications'' (rows_of db ''notifications'' @ [notif_row i u n]) db) \<or>
         r \<noteq> None \<and> (db' = db \<or> (\<exists>i u. notif_insertable db n i u \<and>
            db' = set_rows ''notifications'' (rows_of db ''notifications'' @ [notif_row i u n]) db))"
proof -
  have "(\<exists>t cs es. Save_query = InsertInto t cs es) \<or> (\<exists>t ss cs. Save_query = UpdateSet t ss cs)"
    by (simp add: Save_query_def)
  from faulty_exec_cases [OF this assms(2) [unfolded Save_args]]
  show ?thesis unfolding exec_Save_iff [OF assms(1)] by blast
qed

lemma saved_view:
  assumes "store_ok db"
    and "db' = set_rows ''notifications'' (rows_of db ''notifications'' @ [notif_row i u n]) db"
  shows "notifs db' = notifs db @ [stored_notif i u n]" "logs db' = logs db"
    "user_ids db' = user_ids db"
  using assms(2) logs_set_rows [OF assms(1)] by (simp_all add: notifs_def)

lemma Save_frame:
  assumes "store_ok db"
  shows "logs (snd (Save f n db)) = logs db" "user_ids (snd (Save f n db)) = user_ids db"
proof -
  obtain r db' where eq: "Save f n db = (r, db')" by fastforce
  from Save_cases [OF assms eq] have "db' = db \<or> (\<exists>i u. db' =
      set_rows ''notifications'' (rows_of db ''notifications'' @ [notif_row i u n]) db)" by auto
  then have "logs db' = logs db \<and> user_ids db' = user_ids db"
    using saved_view(2,3) [OF assms] by auto
  with eq show "logs (snd (Save f n db)) = logs db" "user_ids (snd (Save f n db)) = user_ids db"
    by simp_all
qed

lemma find_append_new: "(\<forall>x \<in> set xs. \<not> P x) \<Longrightarrow> P y \<Longrightarrow> find P (xs @ [y]) = Some y"
  by (induction xs) auto

lemma saved_found:
  assumes ok: "store_ok db" and ok': "store_ok db'" and ins: "notif_insertable db n i u"
    and db': "db' = set_rows ''notifications'' (rows_of db ''notifications'' @ [notif_row i u n]) db"
  shows "FindByID NoFault (notif_id n) db' = Inr (stored_notif i u n)"
proof -
  have rows: "rows_of db' ''notifications'' = rows_of db ''notifications'' @ [notif_row i u n]"
    unfolding db' using store_ok_tables(3) [OF ok] by (simp add: rows_of_set_rows)
  have "\<forall>r \<in> set (rows_of db ''notifications''). text_of (cell r ''id'') \<noteq> i"
    using ins by (auto simp: notif_insertable_def notifs_def notif_of_row_def image_image)
  moreover have "cell (notif_row i u n) ''id'' = SUuid i"
      "cell (notif_row i u n) ''created_at'' \<noteq> SNull" by (simp_all add: notif_row_def cell_def)
  ultimately show ?thesis
    using ins unfolding FindByID_eq [OF ok'] note_row_def rows
    by (simp add: notif_insertable_def find_append_new)
qed

interpretation store_notifs: notification_repository store_notif_repo store_ok notifs user_ids uuid_in
proof (unfold_locales, goal_cases)
  case (1 d f n)
  then show ?case by (simp add: store_notif_repo_def store_ok_Save)
next
  case (2 d f n d')
  then have ok': "store_ok d'" using store_ok_Save [of d f n] by (simp add: store_notif_repo_def)
  from 2 obtain i u where ins: "notif_insertable d n i u"
    and d': "d' = set_rows ''notifications'' (rows_of d ''notifications'' @ [notif_row i u n]) d"
    using Save_cases [of d f n None d'] by (auto simp: store_notif_repo_def)
  then show ?case
    using saved_view(1) [OF 2(1) d'] saved_found [OF 2(1) ok' ins d']
    by (auto simp: store_notif_repo_def notif_insertable_def)
next
  case (3 d f n e d')
  then show ?case
    using Save_cases [of d f n "Some e" d'] saved_view(1) [OF 3(1)]
    by (auto simp: store_notif_repo_def notif_insertable_def)
next
  case (4 d n i u)
  then have "\<exists>i u. notif_insertable d n i u" by (auto simp: notif_insertable_def)
  then show ?case
    using exec_Save_iff [OF 4(1)] by (simp add: store_notif_repo_def Save_args) (metis fst_conv)
next
  case (5 d f i n)
  then show ?case using FindByID_member by (simp add: store_notif_repo_def)
qed

end
