(* ===== verification/Persistence.thy ===== *)
theory Persistence
  imports Contracts
begin

section \<open>Properties of the Store\<close>

text \<open>
  The migrated database and two users for the witnesses, and the Store's properties: what the
  methods that write do to the tables under every fault, idempotent migration, round trips and the error
  behaviour on references and NULL columns.
\<close>

definition migrated :: database where
  "migrated = snd (Migrate NoFault empty_database)"

lemma migrate_empty: "Migrate NoFault empty_database = (None, migrated)"
proof -
  have "fst (Migrate NoFault empty_database) = None" by code_simp
  then show ?thesis by (simp add: migrated_def prod_eq_iff)
qed

lemma db_ok_migrated: "db_ok migrated"
  by (simp add: migrated_def Migrate_def exec_script_ok db_ok_empty)

lemma store_ok_migrated: "store_ok migrated"
proof -
  have "has_table migrated ''users'' users_cols" by code_simp
  moreover have "has_table migrated ''user_preferences'' user_preferences_cols" by code_simp
  moreover have "has_table migrated ''notifications'' notifications_cols" by code_simp
  moreover have "has_table migrated ''delivery_logs'' delivery_logs_cols" by code_simp
  ultimately show ?thesis by (simp add: store_ok_def db_ok_migrated)
qed

definition alice :: string where "alice = ''a0eebc99-9c0b-4ef8-bb6d-6bb9bd380a11''"
definition note1 :: string where "note1 = ''b1eebc99-9c0b-4ef8-bb6d-6bb9bd380a12''"
definition log1 :: string where "log1 = ''c2eebc99-9c0b-4ef8-bb6d-6bb9bd380a13''"

definition add_user :: "string \<Rightarrow> string \<Rightarrow> sqlval \<Rightarrow> sqlval \<Rightarrow> database \<Rightarrow> database" where
  "add_user i email phone token db =
     snd (exec_stmt [SText i, SText email, phone, token, SText ''ios'']
            (InsertInto ''users'' [''id'', ''email'', ''phone'', ''device_token'', ''platform'']
               [Param 1, Param 2, Param 3, Param 4, Param 5]) db)"

lemma store_ok_add_user: "store_ok db \<Longrightarrow> store_ok (add_user i e p t db)"
  unfolding add_user_def by (rule store_ok_exec) simp_all

definition db_alice :: database where
  "db_alice = add_user alice ''al@x.io'' (SText ''+441234567'') (SText ''token-0123456789'') migrated"

lemma store_ok_alice: "store_ok db_alice"
  unfolding db_alice_def by (intro store_ok_add_user store_ok_migrated)

definition example_note :: notification where
  "example_note =
     zero_notification\<lparr>notif_id := note1, notif_user_id := alice, notif_channel := ChannelEmail,
       notif_template_id := ''welcome'', notif_payload := None, notif_status := StatusPending,
       notif_created_at := 1700000000123456789, notif_recipient_email := ''al@x.io''\<rparr>"

subsection \<open>The methods that write, as operations on lists of structs\<close>

text \<open>
  The abstract Store: the notifications and the delivery logs as lists of structs, the rows of the
  other two tables.  Each specification says what a method does to them, or \<open>None\<close> if it must fail.
\<close>

record tables =
  tb_notifs :: "notification list"
  tb_logs :: "delivery_log list"
  tb_users :: "row list"
  tb_prefs :: "row list"

definition tables_of :: "database \<Rightarrow> tables" where
  "tables_of db =
     \<lparr>tb_notifs = notifs db, tb_logs = logs db, tb_users = rows_of db ''users'',
      tb_prefs = rows_of db ''user_preferences''\<rparr>"

definition user_keys :: "tables \<Rightarrow> string set" where
  "user_keys t = (\<lambda>r. text_of (cell r ''id'')) ` set (tb_users t)"

definition save_spec :: "notification \<Rightarrow> tables \<Rightarrow> tables option" where
  "save_spec n t =
     (case (uuid_in (notif_id n), uuid_in (notif_user_id n)) of
        (Some i, Some u) \<Rightarrow>
          if notif_texts_ok n \<and> i \<notin> notif_id ` set (tb_notifs t) \<and> u \<in> user_keys t
          then Some (t\<lparr>tb_notifs := tb_notifs t @ [stored_notif i u n]\<rparr>) else None
      | _ \<Rightarrow> None)"

definition status_spec :: "string \<Rightarrow> status \<Rightarrow> tables \<Rightarrow> tables option" where
  "status_spec i st t =
     (case uuid_in i of
        Some k \<Rightarrow> if pg_text st then Some (t\<lparr>tb_notifs := map (set_notif k st) (tb_notifs t)\<rparr>) else None
      | None \<Rightarrow> None)"

definition insert_spec :: "delivery_log \<Rightarrow> tables \<Rightarrow> tables option" where
  "insert_spec l t =
     (case (uuid_in (dlog_id l), uuid_in (dlog_notification_id l)) of
        (Some i, Some k) \<Rightarrow>
          if dlog_texts_ok l \<and> i \<notin> dlog_id ` set (tb_logs t) \<and> k \<in> notif_id ` set (tb_notifs t)
          then Some (t\<lparr>tb_logs := tb_logs t @ [stored_dlog i k l]\<rparr>) else None
      | _ \<Rightarrow> None)"

definition delivery_spec :: "string \<Rightarrow> status \<Rightarrow> string \<Rightarrow> tables \<Rightarrow> tables option" where
  "delivery_spec i st msg t =
     (case uuid_in i of
        Some k \<Rightarrow>
          if pg_text st \<and> pg_text msg then Some (t\<lparr>tb_logs := map (set_dlog k st msg) (tb_logs t)\<rparr>) else None
      | None \<Rightarrow> None)"

text \<open>
  A call that meets no fault does what its specification says and reports whether it could; a refused
  call does nothing; a call whose reply is lost does it and reports an error.
\<close>

definition implements :: "fault \<Rightarrow> error \<times> database \<Rightarrow> database \<Rightarrow> (tables \<Rightarrow> tables option) \<Rightarrow> bool" where
  "implements f out db spec \<longleftrightarrow>
     store_ok (snd out) \<and>
     (case f of
        NoFault \<Rightarrow>
          (fst out = None \<longleftrightarrow> spec (tables_of db) \<noteq> None) \<and>
          tables_of (snd out) = (case spec (tables_of db) of None \<Rightarrow> tables_of db | Some t \<Rightarrow> t)
      | Refused e \<Rightarrow> fst out \<noteq> None \<and> snd out = db
      | LostReply e \<Rightarrow>
          fst out \<noteq> None \<and>
          tables_of (snd out) = (case spec (tables_of db) of None \<Rightarrow> tables_of db | Some t \<Rightarrow> t))"

lemma tables_of_simps [simp]:
  "tb_notifs (tables_of db) = notifs db" "tb_logs (tables_of db) = logs db"
  "user_keys (tables_of db) = set (user_ids db)"
  by (simp_all add: tables_of_def user_keys_def user_ids_def)

lemma tables_of_set_rows:
  assumes "store_ok db"
  shows "tables_of (set_rows ''notifications'' rs db) = (tables_of db)\<lparr>tb_notifs := map notif_of_row rs\<rparr>"
    "tables_of (set_rows ''delivery_logs'' rs db) = (tables_of db)\<lparr>tb_logs := map dlog_of_row rs\<rparr>"
  using store_ok_tables [OF assms] logs_set_rows [OF assms] by (simp_all add: tables_of_def rows_of_set_rows)

text \<open>It is enough to know when the statement succeeds and what it then does.\<close>

lemma implements_exec:
  assumes shape: "(\<exists>t cs es. s = InsertInto t cs es) \<or> (\<exists>t ss cs. s = UpdateSet t ss cs)"
    and kept: "store_ok (snd (wrap_exec pre (with_fault f (exec_stmt args s) db)))"
    and runs: "\<And>db'. exec_stmt args s db = (None, db') \<Longrightarrow> spec (tables_of db) = Some (tables_of db')"
    and possible: "spec (tables_of db) \<noteq> None \<Longrightarrow> \<exists>db'. exec_stmt args s db = (None, db')"
  shows "implements f (wrap_exec pre (with_fault f (exec_stmt args s) db)) db spec"
proof -
  obtain r d where run: "exec_stmt args s db = (r, d)" by fastforce
  have "(r = None \<longleftrightarrow> spec (tables_of db) \<noteq> None) \<and>
      tables_of d = (case spec (tables_of db) of None \<Rightarrow> tables_of db | Some t \<Rightarrow> t)"
  proof (cases r)
    case None
    with runs run show ?thesis by simp
  next
    case (Some e)
    then have "spec (tables_of db) = None" using possible run by fastforce
    moreover have "d = db" using exec_error_state [OF shape, of args db] run Some by simp
    ultimately show ?thesis using Some by simp
  qed
  then show ?thesis
    using kept run by (cases f) (auto simp: implements_def)
qed

text \<open>
  C23 (refinement).  The methods of the Store that write implement operations on lists of structs, under
  every fault.  \<open>Save\<close> appends one row with the notification's own fields, exactly if the ids are UUIDs,
  the texts can be stored, its id is new and its user exists; \<open>UpdateStatus\<close> changes the status of the notification with that id and of no
  other; \<open>Insert\<close> appends one delivery log under the same conditions, with its notification for the user;
  \<open>UpdateDeliveryStatus\<close> changes status and error message of that log and of no other.  A call that
  fails changes nothing, one whose reply is lost has its effect, no method touches another table,
  and the integrity of the database is kept.
\<close>

theorem store_implements:
  assumes "store_ok db"
  shows "implements f (Save f n db) db (save_spec n) \<and>
         implements f (UpdateStatus f i st db) db (status_spec i st) \<and>
         implements f (Insert f l db) db (insert_spec l) \<and>
         implements f (UpdateDeliveryStatus f i st msg db) db (delivery_spec i st msg)"
proof (intro conjI)
  note set = tables_of_set_rows [OF assms]
  note keys = notifs_def logs_def
  show "implements f (Save f n db) db (save_spec n)"
    using store_ok_Save [OF assms, of f n] unfolding Save_args
  proof (rule implements_exec [rotated])
    show "save_spec n (tables_of db) = Some (tables_of db')"
      if "exec_stmt (notif_args n) Save_query db = (None, db')" for db'
      using that unfolding exec_Save_iff [OF assms]
      by (auto simp: save_spec_def notif_insertable_def set keys)
    show "\<exists>db'. exec_stmt (notif_args n) Save_query db = (None, db')" if "save_spec n (tables_of db) \<noteq> None"
      using that unfolding exec_Save_iff [OF assms]
      by (auto simp: save_spec_def notif_insertable_def split: option.splits if_splits)
  qed (simp add: Save_query_def)
  show "implements f (UpdateStatus f i st db) db (status_spec i st)"
    using store_ok_UpdateStatus [OF assms, of f i st] unfolding UpdateStatus_def
  proof (rule implements_exec [rotated])
    show "status_spec i st (tables_of db) = Some (tables_of db')"
      if "exec_stmt [SText st, SText i] UpdateStatus_query db = (None, db')" for db'
      using that update_rows_notif(1) [OF store_ok_rows(3) [OF assms]] unfolding exec_UpdateStatus_iff [OF assms]
      by (auto simp: status_spec_def set keys)
    show "\<exists>db'. exec_stmt [SText st, SText i] UpdateStatus_query db = (None, db')"
      if "status_spec i st (tables_of db) \<noteq> None"
      using that unfolding exec_UpdateStatus_iff [OF assms]
      by (auto simp: status_spec_def split: option.splits if_splits)
  qed (simp add: UpdateStatus_query_def)
  show "implements f (Insert f l db) db (insert_spec l)"
    using store_ok_Insert [OF assms, of f l] unfolding Insert_args
  proof (rule implements_exec [rotated])
    show "insert_spec l (tables_of db) = Some (tables_of db')"
      if "exec_stmt (dlog_args l) Insert_query db = (None, db')" for db'
      using that unfolding exec_Insert_iff [OF assms]
      by (auto simp: insert_spec_def dlog_insertable_def set keys)
    show "\<exists>db'. exec_stmt (dlog_args l) Insert_query db = (None, db')" if "insert_spec l (tables_of db) \<noteq> None"
      using that unfolding exec_Insert_iff [OF assms]
      by (auto simp: insert_spec_def dlog_insertable_def split: option.splits if_splits)
  qed (simp add: Insert_query_def)
  show "implements f (UpdateDeliveryStatus f i st msg db) db (delivery_spec i st msg)"
    using store_ok_UpdateDeliveryStatus [OF assms, of f i st msg] unfolding UpdateDeliveryStatus_def
  proof (rule implements_exec [rotated])
    show "delivery_spec i st msg (tables_of db) = Some (tables_of db')"
      if "exec_stmt [SText st, SText msg, SText i] UpdateDeliveryStatus_query db = (None, db')" for db'
      using that update_rows_dlog(1) [OF store_ok_rows(4) [OF assms]] unfolding exec_UpdateDelivery_iff [OF assms]
      by (auto simp: delivery_spec_def set keys)
    show "\<exists>db'. exec_stmt [SText st, SText msg, SText i] UpdateDeliveryStatus_query db = (None, db')"
      if "delivery_spec i st msg (tables_of db) \<noteq> None"
      using that unfolding exec_UpdateDelivery_iff [OF assms]
      by (auto simp: delivery_spec_def split: option.splits if_splits)
  qed (simp add: UpdateDeliveryStatus_query_def)
qed

theorem store_implements_witness:
  "\<exists>t. save_spec example_note (tables_of db_alice) = Some t \<and>
     tables_of (snd (Save NoFault example_note db_alice)) = t \<and>
     tables_of (snd (Save (LostReply (Opaque ''EOF'')) example_note db_alice)) = t \<and>
     fst (Save (LostReply (Opaque ''EOF'')) example_note db_alice) \<noteq> None"
proof -
  have "fst (Save NoFault example_note db_alice) = None" by code_simp
  moreover note effect = store_implements [OF store_ok_alice, THEN conjunct1, unfolded implements_def]
  ultimately obtain t where "save_spec example_note (tables_of db_alice) = Some t"
    using effect [of NoFault example_note] by auto
  then show ?thesis
    using effect [of NoFault example_note] effect [of "LostReply (Opaque ''EOF'')" example_note] by auto
qed

subsection \<open>Migrate\<close>

definition fully_migrated :: "database \<Rightarrow> bool" where
  "fully_migrated db \<longleftrightarrow>
     store_ok db \<and> ''idx_notifications_user_created'' \<in> set (db_indexes db) \<and>
     ''idx_delivery_logs_notification_status'' \<in> set (db_indexes db)"

lemma fully_migrated_migrated: "fully_migrated migrated"
proof -
  have "db_indexes migrated =
      [''idx_notifications_user_created'', ''idx_delivery_logs_notification_status'']" by code_simp
  with store_ok_migrated show ?thesis by (simp add: fully_migrated_def)
qed

text \<open>
  C33 (functional).  \<open>Migrate\<close> creates a database with integrity from an empty one, and on a database
  that has been migrated, whatever rows it holds by now, it succeeds and changes nothing: it is
  safe to run at every start of the server.
\<close>

theorem Migrate_idempotent:
  "fst (Migrate NoFault empty_database) = None \<and>
   fully_migrated (snd (Migrate NoFault empty_database)) \<and>
   (\<forall>db. fully_migrated db \<longrightarrow> Migrate NoFault db = (None, db))"
proof -
  have "Migrate NoFault db = (None, db)" if "fully_migrated db" for db
  proof -
    from that have ok: "store_ok db"
      and "''idx_notifications_user_created'' \<in> set (db_indexes db)"
      and "''idx_delivery_logs_notification_status'' \<in> set (db_indexes db)"
      by (simp_all add: fully_migrated_def)
    then have "run_script Migrate_schema db = (None, db)"
      using store_ok_tables [OF ok] by (simp add: Migrate_schema_def)
    then show ?thesis by (simp add: Migrate_def exec_script_def wrap_exec_def)
  qed
  then show ?thesis using migrate_empty fully_migrated_migrated by simp
qed

theorem Migrate_idempotent_witness:
  "Migrate NoFault (snd (Migrate NoFault empty_database)) =
     (None, snd (Migrate NoFault empty_database))"
  using Migrate_idempotent by blast

subsection \<open>Round trips\<close>

text \<open>
  C28 (roundtrip).  After a successful \<open>Save\<close> the notification is found under its id, with its user,
  channel, template, payload and status, the ids in canonical form and the creation time cut to
  microseconds; what the table has no column for (recipient fields, schedule) is lost.
\<close>

theorem Save_FindByID:
  assumes "store_ok db" and "Save NoFault n db = (None, db')"
  shows "\<exists>i u. uuid_in (notif_id n) = Some i \<and> uuid_in (notif_user_id n) = Some u \<and>
           FindByID NoFault (notif_id n) db' = Inr (stored_notif i u n)"
  using store_notifs.save_ok [OF assms(1), of NoFault n db'] assms(2)
  by (auto simp: store_notif_repo_def)

lemma save_example: "Save NoFault example_note db_alice = (None, snd (Save NoFault example_note db_alice))"
proof -
  have "fst (Save NoFault example_note db_alice) = None" by code_simp
  then show ?thesis by (simp add: prod_eq_iff)
qed

theorem Save_FindByID_witness:
  "\<exists>i u. uuid_in (notif_id example_note) = Some i \<and> uuid_in (notif_user_id example_note) = Some u \<and>
     FindByID NoFault (notif_id example_note) (snd (Save NoFault example_note db_alice)) =
       Inr (stored_notif i u example_note)"
  by (rule Save_FindByID [OF store_ok_alice save_example])

subsection \<open>Errors\<close>

text \<open>
  C34 (error).  A delivery log can only be written for a notification the database knows: \<open>Insert\<close>
  succeeds exactly when both ids are UUIDs, the log id is new, the notification is stored, the
  texts are storable and the attempt fits four bytes; otherwise it returns an error and leaves the
  database as it was.
\<close>

theorem Insert_requires_notification:
  assumes "store_ok db"
  shows "(fst (Insert NoFault l db) = None \<longleftrightarrow>
            (\<exists>lid nid. uuid_in (dlog_id l) = Some lid \<and>
               uuid_in (dlog_notification_id l) = Some nid \<and> dlog_texts_ok l \<and>
               lid \<notin> dlog_id ` set (logs db) \<and> nid \<in> notif_id ` set (notifs db))) \<and>
         (fst (Insert NoFault l db) \<noteq> None \<longrightarrow> snd (Insert NoFault l db) = db)"
proof
  show "fst (Insert NoFault l db) = None \<longleftrightarrow>
          (\<exists>lid nid. uuid_in (dlog_id l) = Some lid \<and>
             uuid_in (dlog_notification_id l) = Some nid \<and> dlog_texts_ok l \<and>
             lid \<notin> dlog_id ` set (logs db) \<and> nid \<in> notif_id ` set (notifs db))"
    (is "_ = ?ins")
  proof -
    have "fst (Insert NoFault l db) = None \<longleftrightarrow>
          (\<exists>db'. exec_stmt (dlog_args l) Insert_query db = (None, db'))"
      by (cases "exec_stmt (dlog_args l) Insert_query db") (simp add: Insert_args)
    also have "\<dots> \<longleftrightarrow> ?ins" unfolding exec_Insert_iff [OF assms] dlog_insertable_def by blast
    finally show ?thesis .
  qed
  have "(\<exists>t cs es. Insert_query = InsertInto t cs es) \<or> (\<exists>t ss cs. Insert_query = UpdateSet t ss cs)"
    by (simp add: Insert_query_def)
  from exec_error_state [OF this, of "dlog_args l" db]
  show "fst (Insert NoFault l db) \<noteq> None \<longrightarrow> snd (Insert NoFault l db) = db"
    by (auto simp: Insert_args)
qed

theorem Insert_requires_notification_witness:
  "fst (Insert NoFault
     \<lparr>dlog_id = log1, dlog_notification_id = note1, dlog_channel = ChannelEmail, dlog_attempt = 1,
      dlog_status = StatusPending, dlog_error_message = [], dlog_attempted_at = 0\<rparr> db_alice) \<noteq> None"
proof -
  have "notifs db_alice = []" by code_simp
  then show ?thesis using Insert_requires_notification [OF store_ok_alice] by simp
qed

text \<open>
  C40 (error).  A stored user with a NULL phone, device token or platform, all three nullable in the
  schema, cannot be loaded at all: \<open>FindUserByID\<close> returns an error instead of the user.
\<close>

theorem FindUserByID_null_column:
  assumes "store_ok db" and "uuid_in i = Some k" and "user_row db k = Some r"
    and "cell r ''phone'' = SNull \<or> cell r ''device_token'' = SNull \<or> cell r ''platform'' = SNull"
  shows "\<exists>e. FindUserByID NoFault i db = Inl e \<and> \<not> errors_is e PgxErrNoRows"
  using assms by (auto simp: FindUserByID_eq user_complete_def)

definition db_bob :: database where
  "db_bob = add_user alice ''bob@x.io'' SNull (SText ''token-0123456789'') migrated"

theorem FindUserByID_null_column_witness:
  "\<exists>e. FindUserByID NoFault alice db_bob = Inl e \<and> \<not> errors_is e PgxErrNoRows"
proof (rule FindUserByID_null_column)
  show "store_ok db_bob"
    unfolding db_bob_def by (intro store_ok_add_user store_ok_migrated)
  show "uuid_in alice = Some alice" by code_simp
  show "user_row db_bob alice = Some (the (user_row db_bob alice))" by code_simp
  have "cell (the (user_row db_bob alice)) ''phone'' = SNull" by code_simp
  then show "cell (the (user_row db_bob alice)) ''phone'' = SNull \<or>
      cell (the (user_row db_bob alice)) ''device_token'' = SNull \<or>
      cell (the (user_row db_bob alice)) ''platform'' = SNull" by simp
qed

end
