(* ===== verification/Redis.thy ===== *)
theory Redis
  imports Prelude
begin

section \<open>The Redis client\<close>

text \<open>
  The rate limiter and the user cache call a Redis server through \<open>go-redis\<close>, which is not part of
  the repository: the four commands they use are parameters.  The locale states what the server
  documents of them: \<open>INCR\<close> creates or increments a number and keeps its expiry, \<open>EXPIRE\<close> sets the
  expiry of an existing key, \<open>GET\<close> returns \<open>redis.Nil\<close> for a missing key, \<open>SET\<close> replaces value and
  expiry, and a key disappears when its expiry is reached.  Every call can be refused or lose its
  reply.  \<open>entry\<close> is what the server holds under a key and \<open>clock\<close> its time.  Expiries are stated
  for positive durations of whole seconds, the ones that \<open>EXPIRE\<close> and \<open>SET\<close> transmit exactly.
\<close>

datatype 'b rvalue = Num int | Blob 'b

type_synonym 'b entry = "'b rvalue \<times> int option"

record ('r, 'b) redis_ops =
  r_incr :: "fault \<Rightarrow> string \<Rightarrow> 'r \<Rightarrow> (go_error + int) \<times> 'r"
  r_expire :: "fault \<Rightarrow> string \<Rightarrow> duration \<Rightarrow> 'r \<Rightarrow> error \<times> 'r"
  r_get :: "fault \<Rightarrow> string \<Rightarrow> 'r \<Rightarrow> go_error + 'b"
  r_set :: "fault \<Rightarrow> string \<Rightarrow> 'b \<Rightarrow> duration \<Rightarrow> 'r \<Rightarrow> error \<times> 'r"

definition max_int64 :: int where "max_int64 = 2 ^ 63 - 1"

definition whole_seconds :: "duration \<Rightarrow> bool" where
  "whole_seconds w \<longleftrightarrow> 0 < sint w \<and> sint w mod 1000000000 = 0"

definition expired :: "int \<Rightarrow> 'b entry \<Rightarrow> bool" where
  "expired now x = (case snd x of None \<Rightarrow> False | Some d \<Rightarrow> d \<le> now)"

locale redis_server =
  fixes R :: "('r, 'b) redis_ops"
    and entry :: "'r \<Rightarrow> string \<rightharpoonup> 'b entry"
    and clock :: "'r \<Rightarrow> int"
    and advance :: "int \<Rightarrow> 'r \<Rightarrow> 'r"
  assumes incr_new: "entry r k = None \<Longrightarrow>
      \<exists>r'. r_incr R NoFault k r = (Inr 1, r') \<and> entry r' = (entry r)(k \<mapsto> (Num 1, None))"
    and incr_num: "entry r k = Some (Num n, t) \<Longrightarrow> n < max_int64 \<Longrightarrow>
      \<exists>r'. r_incr R NoFault k r = (Inr (n + 1), r') \<and> entry r' = (entry r)(k \<mapsto> (Num (n + 1), t))"
    and incr_frame: "k' \<noteq> k \<Longrightarrow> entry (snd (r_incr R f k r)) k' = entry r k'"
    and incr_clock: "clock (snd (r_incr R f k r)) = clock r"
    and incr_refused: "r_incr R (Refused e) k r = (Inl e, r)"
    and incr_lost: "r_incr R (LostReply e) k r = (Inl e, snd (r_incr R NoFault k r))"
    and expire_set: "entry r k = Some (v, t) \<Longrightarrow> whole_seconds w \<Longrightarrow>
      \<exists>r'. r_expire R NoFault k w r = (None, r') \<and>
        entry r' = (entry r)(k \<mapsto> (v, Some (clock r + sint w)))"
    and expire_frame: "k' \<noteq> k \<Longrightarrow> entry (snd (r_expire R f k w r)) k' = entry r k'"
    and expire_clock: "clock (snd (r_expire R f k w r)) = clock r"
    and expire_refused: "r_expire R (Refused e) k w r = (Some e, r)"
    and expire_lost: "r_expire R (LostReply e) k w r = (Some e, snd (r_expire R NoFault k w r))"
    and get_missing: "entry r k = None \<Longrightarrow> r_get R NoFault k r = Inl (Sentinel RedisNil)"
    and get_blob: "entry r k = Some (Blob b, t) \<Longrightarrow> r_get R NoFault k r = Inr b"
    and get_fault: "r_get R (Refused e) k r = Inl e" "r_get R (LostReply e) k r = Inl e"
    and set_blob: "whole_seconds w \<Longrightarrow>
      \<exists>r'. r_set R NoFault k b w r = (None, r') \<and>
        entry r' = (entry r)(k \<mapsto> (Blob b, Some (clock r + sint w)))"
    and set_frame: "k' \<noteq> k \<Longrightarrow> entry (snd (r_set R f k b w r)) k' = entry r k'"
    and set_clock: "clock (snd (r_set R f k b w r)) = clock r"
    and set_refused: "r_set R (Refused e) k b w r = (Some e, r)"
    and set_lost: "r_set R (LostReply e) k b w r = (Some e, snd (r_set R NoFault k b w r))"
    and advance_entry: "entry (advance dt r) k =
      (case entry r k of
         None \<Rightarrow> None
       | Some x \<Rightarrow> if expired (clock r + dt) x then None else Some x)"
    and advance_clock: "clock (advance dt r) = clock r + dt"

subsection \<open>A keyspace\<close>

text \<open>
  An executable server with the documented behaviour: one map from keys to values with expiries,
  and a clock.  \<open>ks_num\<close> is the text of a number as the client's bytes.  It shows that the
  assumptions of the locale hold together and is what the witnesses run on.
\<close>

record 'b keyspace =
  ks_map :: "string \<rightharpoonup> 'b entry"
  ks_now :: int
  ks_num :: "int \<Rightarrow> 'b"

definition ks_put :: "string \<Rightarrow> 'b entry \<Rightarrow> 'b keyspace \<Rightarrow> 'b keyspace" where
  "ks_put k x s = s\<lparr>ks_map := (ks_map s)(k \<mapsto> x)\<rparr>"

definition do_incr :: "string \<Rightarrow> 'b keyspace \<Rightarrow> (go_error + int) \<times> 'b keyspace" where
  "do_incr k s =
     (case ks_map s k of
        None \<Rightarrow> (Inr 1, ks_put k (Num 1, None) s)
      | Some (Num n, t) \<Rightarrow>
          if n < max_int64 then (Inr (n + 1), ks_put k (Num (n + 1), t) s)
          else (Inl (Opaque ''ERR increment or decrement would overflow''), s)
      | Some (Blob b, t) \<Rightarrow> (Inl (Opaque ''ERR value is not an integer or out of range''), s))"

definition do_expire :: "string \<Rightarrow> duration \<Rightarrow> 'b keyspace \<Rightarrow> error \<times> 'b keyspace" where
  "do_expire k w s =
     (case ks_map s k of
        None \<Rightarrow> (None, s)
      | Some (v, t) \<Rightarrow>
          if 0 < sint w then (None, ks_put k (v, Some (ks_now s + sint w)) s)
          else (None, s\<lparr>ks_map := (ks_map s)(k := None)\<rparr>))"

definition do_get :: "string \<Rightarrow> 'b keyspace \<Rightarrow> go_error + 'b" where
  "do_get k s =
     (case ks_map s k of
        None \<Rightarrow> Inl (Sentinel RedisNil)
      | Some (Num n, t) \<Rightarrow> Inr (ks_num s n)
      | Some (Blob b, t) \<Rightarrow> Inr b)"

definition do_set :: "string \<Rightarrow> 'b \<Rightarrow> duration \<Rightarrow> 'b keyspace \<Rightarrow> error \<times> 'b keyspace" where
  "do_set k b w s =
     (None, ks_put k (Blob b, if 0 < sint w then Some (ks_now s + sint w) else None) s)"

definition ks_ops :: "('b keyspace, 'b) redis_ops" where
  "ks_ops =
     \<lparr>r_incr = (\<lambda>f k s. case f of
          NoFault \<Rightarrow> do_incr k s
        | Refused e \<Rightarrow> (Inl e, s)
        | LostReply e \<Rightarrow> (Inl e, snd (do_incr k s))),
      r_expire = (\<lambda>f k w. with_fault f (do_expire k w)),
      r_get = (\<lambda>f k s. read_fault f (do_get k s)),
      r_set = (\<lambda>f k b w. with_fault f (do_set k b w))\<rparr>"

definition ks_advance :: "int \<Rightarrow> 'b keyspace \<Rightarrow> 'b keyspace" where
  "ks_advance t s =
     s\<lparr>ks_now := ks_now s + t,
       ks_map := (\<lambda>k. case ks_map s k of
          None \<Rightarrow> None
        | Some x \<Rightarrow> if expired (ks_now s + t) x then None else Some x)\<rparr>"

definition ks_empty :: "(int \<Rightarrow> 'b) \<Rightarrow> 'b keyspace" where
  "ks_empty num = \<lparr>ks_map = Map.empty, ks_now = 0, ks_num = num\<rparr>"

lemma ks_put_simps [simp]:
  "ks_map (ks_put k x s) = (ks_map s)(k \<mapsto> x)" "ks_now (ks_put k x s) = ks_now s"
  by (simp_all add: ks_put_def)

interpretation keyspace: redis_server ks_ops ks_map ks_now ks_advance
  by unfold_locales
     (auto simp: ks_ops_def do_incr_def do_expire_def do_get_def do_set_def ks_advance_def
        whole_seconds_def with_fault_def read_fault_def split: fault.splits option.splits rvalue.splits)

end
