(* ===== verification/Ratelimit.thy ===== *)
theory Ratelimit
  imports Domain Redis
begin

section \<open>The rate limiter\<close>

text \<open>
  \<^verbatim>\<open>internal/ratelimit/limiter.go\<close>.  \<open>Allow\<close> counts the calls of a user on a channel under one
  Redis key that expires a window after its first call.  A history of calls and of time passing is
  a list of events; the lemmas follow the counter through such a history.
\<close>

record limiter =
  limit :: int
  window :: duration

definition NewLimiter :: "int \<Rightarrow> duration \<Rightarrow> limiter" where
  "NewLimiter lim win = \<lparr>limit = lim, window = win\<rparr>"

definition rate_key :: "string \<Rightarrow> channel \<Rightarrow> string" where
  "rate_key userID ch = ''rate:'' @ userID @ '':'' @ ch"

text \<open>The two faults are those of the calls \<open>INCR\<close> and \<open>EXPIRE\<close>.\<close>

definition Allow ::
    "('r, 'b) redis_ops \<Rightarrow> limiter \<Rightarrow> fault \<Rightarrow> fault \<Rightarrow> string \<Rightarrow> channel \<Rightarrow> 'r
       \<Rightarrow> (bool \<times> error) \<times> 'r" where
  "Allow R l f1 f2 userID ch r =
     (let key = rate_key userID ch in
      case r_incr R f1 key r of
        (Inl err, r1) \<Rightarrow> ((True, Some (Wrapf ''rate limit check: redis incr: '' err [])), r1)
      | (Inr count, r1) \<Rightarrow>
          if count = 1 then
            (case r_expire R f2 key (window l) r1 of
               (Some err, r2) \<Rightarrow>
                 ((True, Some (Wrapf ''rate limit check: redis expire: '' err [])), r2)
             | (None, r2) \<Rightarrow> ((count \<le> limit l, None), r2))
          else ((count \<le> limit l, None), r1))"

subsection \<open>Keys\<close>

text \<open>A channel name without a colon can be read off the key, so two pairs never share a counter.\<close>

lemma split_at_last_colon:
  assumes "u @ CHR '':'' # c = u' @ CHR '':'' # c'"
    and "CHR '':'' \<notin> set c" "CHR '':'' \<notin> set c'"
  shows "u = u' \<and> c = c'"
proof -
  have "rev c @ CHR '':'' # rev u = rev c' @ CHR '':'' # rev u'"
    using arg_cong [OF assms(1), of rev] by simp
  then have "takeWhile ((\<noteq>) CHR '':'') (rev c @ CHR '':'' # rev u) =
      takeWhile ((\<noteq>) CHR '':'') (rev c' @ CHR '':'' # rev u')" by simp
  moreover have "takeWhile ((\<noteq>) CHR '':'') (rev x @ CHR '':'' # y) = rev x"
    if "CHR '':'' \<notin> set x" for x y
    using that by (subst takeWhile_append2) auto
  ultimately have "rev c = rev c'" using assms(2,3) by simp
  then show ?thesis using assms(1) by simp
qed

lemma rate_key_inj:
  assumes "CHR '':'' \<notin> set c" "CHR '':'' \<notin> set c'"
  shows "rate_key u c = rate_key u' c' \<longleftrightarrow> u = u' \<and> c = c'"
  using split_at_last_colon [of u c u' c'] assms by (auto simp: rate_key_def)

subsection \<open>Histories\<close>

datatype rate_event = Ask fault fault string channel | Wait nat

type_synonym answer = "string \<times> channel \<times> bool \<times> error"

fun run_limiter ::
    "('r, 'b) redis_ops \<Rightarrow> (int \<Rightarrow> 'r \<Rightarrow> 'r) \<Rightarrow> limiter \<Rightarrow> rate_event list \<Rightarrow> 'r
       \<Rightarrow> answer list \<times> 'r" where
  "run_limiter R adv l [] r = ([], r)"
| "run_limiter R adv l (Ask f1 f2 u c # es) r =
     (let ((ok, err), r1) = Allow R l f1 f2 u c r;
          (as, r2) = run_limiter R adv l es r1
      in ((u, c, ok, err) # as, r2))"
| "run_limiter R adv l (Wait dt # es) r = run_limiter R adv l es (adv (int dt) r)"

text \<open>How many calls of one user and channel were answered ``allowed'' without an error.\<close>

fun granted :: "string \<Rightarrow> channel \<Rightarrow> answer list \<Rightarrow> int" where
  "granted u c [] = 0"
| "granted u c ((u', c', ok, err) # as) =
     (if u' = u \<and> c' = c \<and> ok \<and> err = None then 1 else 0) + granted u c as"

fun asked :: "string \<Rightarrow> channel \<Rightarrow> rate_event list \<Rightarrow> int" where
  "asked u c [] = 0"
| "asked u c (Ask f1 f2 u' c' # es) = (if u' = u \<and> c' = c then 1 else 0) + asked u c es"
| "asked u c (Wait dt # es) = asked u c es"

fun elapsed :: "rate_event list \<Rightarrow> int" where
  "elapsed [] = 0"
| "elapsed (Ask f1 f2 u c # es) = elapsed es"
| "elapsed (Wait dt # es) = int dt + elapsed es"

text \<open>No call of this user and channel meets a fault.\<close>

fun faultless :: "string \<Rightarrow> channel \<Rightarrow> rate_event list \<Rightarrow> bool" where
  "faultless u c [] = True"
| "faultless u c (Ask f1 f2 u' c' # es) =
     ((u' = u \<and> c' = c \<longrightarrow> f1 = NoFault \<and> f2 = NoFault) \<and> faultless u c es)"
| "faultless u c (Wait dt # es) = faultless u c es"

fun plain_channels :: "rate_event list \<Rightarrow> bool" where
  "plain_channels [] = True"
| "plain_channels (Ask f1 f2 u c # es) = (CHR '':'' \<notin> set c \<and> plain_channels es)"
| "plain_channels (Wait dt # es) = plain_channels es"

lemma asked_nonneg [simp]: "0 \<le> asked u c es"
  by (induction es rule: asked.induct [where ?a0.0 = u and ?a1.0 = c]) auto

lemma elapsed_nonneg [simp]: "0 \<le> elapsed es"
  by (induction es rule: elapsed.induct) auto

lemma granted_nonneg [simp]: "0 \<le> granted u c as"
  by (induction as) auto

lemma asked_replicate [simp]:
  "asked u c (replicate n (Ask f1 f2 u c)) = int n"
  by (induction n) auto

lemma events_append [simp]:
  "asked u c (es @ es') = asked u c es + asked u c es'"
  "elapsed (es @ es') = elapsed es + elapsed es'"
  "faultless u c (es @ es') \<longleftrightarrow> faultless u c es \<and> faultless u c es'"
  "plain_channels (es @ es') \<longleftrightarrow> plain_channels es \<and> plain_channels es'"
  by (induction es rule: elapsed.induct; simp)+

lemma granted_append [simp]: "granted u c (as @ as') = granted u c as + granted u c as'"
  by (induction as) auto

lemma run_limiter_append:
  "run_limiter R adv l (es @ es') r =
     (let (as, r1) = run_limiter R adv l es r; (as', r2) = run_limiter R adv l es' r1
      in (as @ as', r2))"
  by (induction R adv l es r rule: run_limiter.induct) (auto split: prod.splits)

subsection \<open>The counter\<close>

text \<open>What one call does to the counter of its own key, and that it touches no other.\<close>

context redis_server
begin

lemma Allow_frame:
  "k \<noteq> rate_key u c \<Longrightarrow> entry (snd (Allow R l f1 f2 u c r)) k = entry r k"
  using incr_frame expire_frame
  by (auto simp: Allow_def Let_def split: prod.splits sum.splits option.splits)
     (metis snd_conv)+

lemma Allow_clock: "clock (snd (Allow R l f1 f2 u c r)) = clock r"
  using incr_clock expire_clock
  by (auto simp: Allow_def Let_def split: prod.splits sum.splits option.splits)
     (metis snd_conv)+

lemma Allow_refused:
  "Allow R l (Refused e) f2 u c r = ((True, Some (Wrapf ''rate limit check: redis incr: '' e [])), r)"
  by (simp add: Allow_def incr_refused)

lemma Allow_lost:
  "Allow R l (LostReply e) f2 u c r =
     ((True, Some (Wrapf ''rate limit check: redis incr: '' e [])),
      snd (r_incr R NoFault (rate_key u c) r))"
  by (simp add: Allow_def incr_lost)

lemma Allow_counted:
  assumes "entry r (rate_key u c) = Some (Num n, t)" "0 < n" "n < max_int64"
  shows "\<exists>r'. Allow R l NoFault f2 u c r = ((n + 1 \<le> limit l, None), r') \<and>
           entry r' (rate_key u c) = Some (Num (n + 1), t)"
  using incr_num [OF assms(1,3)] assms(2) by (auto simp: Allow_def)

lemma Allow_first:
  assumes "entry r (rate_key u c) = None" "whole_seconds (window l)"
  shows "\<exists>r'. Allow R l NoFault NoFault u c r = ((1 \<le> limit l, None), r') \<and>
           entry r' (rate_key u c) = Some (Num 1, Some (clock r + sint (window l)))"
proof -
  obtain r1 where r1: "r_incr R NoFault (rate_key u c) r = (Inr 1, r1)"
    "entry r1 = (entry r)(rate_key u c \<mapsto> (Num 1, None))"
    using incr_new [OF assms(1)] by blast
  moreover have "clock r1 = clock r" using incr_clock [of NoFault "rate_key u c" r] r1(1) by simp
  ultimately show ?thesis
    using expire_set [of r1 "rate_key u c" "Num 1" None, OF _ assms(2)] by (auto simp: Allow_def)
qed

lemma Allow_first_unexpiring:
  assumes "entry r (rate_key u c) = None"
  shows "\<exists>r'. Allow R l NoFault (Refused e) u c r =
             ((True, Some (Wrapf ''rate limit check: redis expire: '' e [])), r') \<and>
           entry r' (rate_key u c) = Some (Num 1, None)"
  using incr_new [OF assms] by (auto simp: Allow_def expire_refused)

end

subsection \<open>Quotas\<close>

text \<open>
  \<open>quota\<close> is how many more calls the counter admits; \<open>live\<close> says that the counter will neither
  expire nor overflow while the given time passes and the given number of calls is made.
\<close>

definition quota :: "int \<Rightarrow> 'b entry option \<Rightarrow> int" where
  "quota lim x = (case x of Some (Num n, t) \<Rightarrow> max 0 (lim - n) | _ \<Rightarrow> max 0 lim)"

definition live :: "duration \<Rightarrow> int \<Rightarrow> int \<Rightarrow> int \<Rightarrow> 'b entry option \<Rightarrow> bool" where
  "live w now time calls x =
     (case x of
        None \<Rightarrow> time < sint w \<and> calls < max_int64
      | Some (Num n, t) \<Rightarrow>
          0 < n \<and> n + calls \<le> max_int64 \<and> (case t of None \<Rightarrow> True | Some d \<Rightarrow> now + time < d)
      | Some (Blob b, t) \<Rightarrow> False)"

lemma quota_simps [simp]:
  "quota lim None = max 0 lim" "quota lim (Some (Num n, t)) = max 0 (lim - n)"
  by (simp_all add: quota_def)

lemma quota_nonneg [simp]: "0 \<le> quota lim x"
  by (auto simp: quota_def split: option.splits rvalue.splits)

lemma quota_zero:
  "\<not> 0 < quota lim x \<longleftrightarrow> quota lim x = 0" "quota lim x \<le> 0 \<longleftrightarrow> quota lim x = 0"
  using quota_nonneg [of lim x] by linarith+

lemma live_simps [simp]:
  "live w now time calls None \<longleftrightarrow> time < sint w \<and> calls < max_int64"
  "live w now time calls (Some (Num n, t)) \<longleftrightarrow>
     0 < n \<and> n + calls \<le> max_int64 \<and> (\<forall>d. t = Some d \<longrightarrow> now + time < d)"
  "\<not> live w now time calls (Some (Blob b, t))"
  by (auto simp: live_def split: option.splits)

lemma live_cases:
  assumes "live w now time calls x"
  obtains "x = None" "time < sint w" "calls < max_int64"
  | n t where "x = Some (Num n, t)" "0 < n" "n + calls \<le> max_int64"
      "\<forall>d. t = Some d \<longrightarrow> now + time < d"
proof (cases x)
  case None
  then show thesis using assms that(1) by simp
next
  case (Some y)
  then show thesis using assms that(2) by (cases y; cases "fst y") auto
qed

lemma max_int64_pos [simp]: "0 < max_int64" "1 < max_int64"
  by (simp_all add: max_int64_def)

text \<open>A call that takes one from the quota at most, exactly one where no fault occurs, and leaves
  a set expiry alone.\<close>

definition spends :: "int \<Rightarrow> fault \<Rightarrow> fault \<Rightarrow> 'b entry option \<Rightarrow> bool \<times> error
    \<Rightarrow> 'b entry option \<Rightarrow> bool" where
  "spends lim f1 f2 x ans x' \<longleftrightarrow>
     (if fst ans \<and> snd ans = None then 1 else 0) + quota lim x' \<le> quota lim x \<and>
     (f1 = NoFault \<and> f2 = NoFault \<longrightarrow>
        ans = (0 < quota lim x, None) \<and> quota lim x' = max 0 (quota lim x - 1)) \<and>
     (\<forall>n t. x = Some (Num n, t) \<longrightarrow> (\<exists>n'. x' = Some (Num n', t)))"

context redis_server
begin

lemma incr_any:
  assumes "live w now time (calls + 1) (entry r k)" "0 \<le> calls"
  shows "\<exists>r'. r_incr R NoFault k r = (Inr (case entry r k of Some (Num n, t) \<Rightarrow> n + 1 | _ \<Rightarrow> 1), r') \<and>
    entry r' k = (case entry r k of Some (Num n, t) \<Rightarrow> Some (Num (n + 1), t)
                  | _ \<Rightarrow> Some (Num 1, None)) \<and> clock r' = clock r"
proof -
  have clk: "clock r' = clock r" if "r_incr R NoFault k r = (c, r')" for c r'
    using incr_clock [of NoFault k r] that by simp
  from assms(1) show ?thesis
  proof (cases rule: live_cases)
    case 1
    then show ?thesis using incr_new [of r k] clk by auto
  next
    case (2 n t)
    then show ?thesis using incr_num [of r k n t] clk assms(2) by auto
  qed
qed

lemma Allow_spends:
  assumes lv: "live (window l) (clock r) time (calls + 1) (entry r (rate_key u c))"
    and ws: "whole_seconds (window l)" and nn: "0 \<le> calls" "0 \<le> time"
    and run: "Allow R l f1 f2 u c r = (ans, r')"
  shows "live (window l) (clock r) time calls (entry r' (rate_key u c)) \<and>
         spends (limit l) f1 f2 (entry r (rate_key u c)) ans (entry r' (rate_key u c))"
proof -
  let ?k = "rate_key u c"
  from incr_any [OF lv nn(1)] obtain r1 where
    r1: "r_incr R NoFault ?k r =
        (Inr (case entry r ?k of Some (Num n, t) \<Rightarrow> n + 1 | _ \<Rightarrow> 1), r1)"
    and e1: "entry r1 ?k = (case entry r ?k of Some (Num n, t) \<Rightarrow> Some (Num (n + 1), t)
                  | _ \<Rightarrow> Some (Num 1, None))" and clk1: "clock r1 = clock r" by blast
  show ?thesis
  proof (cases f1)
    case (Refused e)
    from lv have "live (window l) (clock r) time calls (entry r ?k)"
      by (cases rule: live_cases) auto
    then show ?thesis using run Refused by (auto simp: Allow_refused spends_def)
  next
    case (LostReply e)
    from lv show ?thesis
      by (cases rule: live_cases) (use run LostReply r1 e1 nn in \<open>auto simp: Allow_lost spends_def\<close>)
  next
    case NoFault
    from lv show ?thesis
    proof (cases rule: live_cases)
      case (2 n t)
      then have "\<exists>r'. Allow R l NoFault f2 u c r = ((n + 1 \<le> limit l, None), r') \<and>
          entry r' ?k = Some (Num (n + 1), t)"
        using nn by (intro Allow_counted) auto
      then show ?thesis using 2 run NoFault nn by (auto simp: spends_def)
    next
      case 1
      then have e1': "entry r1 ?k = Some (Num 1, None)" using e1 by simp
      obtain r2 where r2: "r_expire R NoFault ?k (window l) r1 = (None, r2)"
        "entry r2 ?k = Some (Num 1, Some (clock r + sint (window l)))"
        using expire_set [OF e1' ws] clk1 by auto
      show ?thesis
        by (cases f2)
           (use 1 run NoFault r1 e1' r2 in
             \<open>auto simp: Allow_def spends_def expire_refused expire_lost\<close>)
    qed
  qed
qed

text \<open>The same along a history in which other users and channels call in between.\<close>

lemma live_wait:
  assumes "live w (clock r) (int dt + time) calls (entry r k)" "0 \<le> time"
  shows "entry (advance (int dt) r) k = entry r k \<and>
         live w (clock r + int dt) time calls (entry r k)"
  using assms(1)
  by (cases rule: live_cases) (use assms(2) in \<open>auto simp: advance_entry expired_def split: option.splits\<close>)

lemma history_quota:
  assumes "whole_seconds (window l)" "CHR '':'' \<notin> set c"
    and "plain_channels es" "0 \<le> spare"
    and "live (window l) (clock r) (elapsed es + spare) (asked u c es) (entry r (rate_key u c))"
    and "run_limiter R advance l es r = (as, r')"
  shows "granted u c as + quota (limit l) (entry r' (rate_key u c))
           \<le> quota (limit l) (entry r (rate_key u c)) \<and>
         live (window l) (clock r') spare 0 (entry r' (rate_key u c)) \<and>
         clock r' = clock r + elapsed es \<and>
         (faultless u c es \<longrightarrow>
            granted u c as = min (asked u c es) (quota (limit l) (entry r (rate_key u c)))) \<and>
         (\<forall>n t. entry r (rate_key u c) = Some (Num n, t) \<longrightarrow>
            (\<exists>n'. entry r' (rate_key u c) = Some (Num n', t)))"
  using assms(3-)
proof (induction es arbitrary: r as)
  case Nil
  then show ?case by auto
next
  case (Cons ev es)
  show ?case
  proof (cases ev)
    case (Wait dt)
    have "entry (advance (int dt) r) (rate_key u c) = entry r (rate_key u c)"
      and "live (window l) (clock r + int dt) (elapsed es + spare) (asked u c es)
             (entry r (rate_key u c))"
      using live_wait [of "window l" r dt "elapsed es + spare" "asked u c es" "rate_key u c"]
        Cons.prems(2,3) Wait by (simp_all add: add.assoc)
    then show ?thesis
      using Cons.IH [of "advance (int dt) r" as] Cons.prems Wait by (auto simp: advance_clock)
  next
    case (Ask f1 f2 u' c')
    obtain ans r1 where r1: "Allow R l f1 f2 u' c' r = (ans, r1)" by fastforce
    obtain as1 where as1: "run_limiter R advance l es r1 = (as1, r')"
        "as = (u', c', ans) # as1"
      using Cons.prems(4) Ask r1 by (auto split: prod.splits)
    have clk: "clock r1 = clock r" using Allow_clock [of l f1 f2 u' c' r] r1 by simp
    note plain = Cons.prems(1) [unfolded Ask]
    show ?thesis
    proof (cases "u' = u \<and> c' = c")
      case False
      then have "rate_key u c \<noteq> rate_key u' c'" using rate_key_inj plain assms(2) by auto
      then have "entry r1 (rate_key u c) = entry r (rate_key u c)"
        using Allow_frame [of "rate_key u c" u' c' l f1 f2 r] r1 by simp
      then show ?thesis
        using Cons.IH [of r1 as1] Cons.prems(2,3) as1 Ask clk plain False
        by (cases ans) auto
    next
      case True
      have "live (window l) (clock r) (elapsed es + spare) (asked u c es + 1)
              (entry r (rate_key u c))"
        using Cons.prems(3) Ask True by (simp add: add.commute)
      from Allow_spends [OF this assms(1)] r1 True Cons.prems(2)
      have sp: "live (window l) (clock r) (elapsed es + spare) (asked u c es)
             (entry r1 (rate_key u c))"
        "spends (limit l) f1 f2 (entry r (rate_key u c)) ans (entry r1 (rate_key u c))"
        by auto
      then show ?thesis
        using Cons.IH [of r1 as1] Cons.prems(2) as1 Ask clk plain True
        by (cases ans) (auto simp: spends_def quota_zero split: if_splits)
    qed
  qed
qed

text \<open>
  Two full windows' worth of calls around the expiry of the first: one call opens the window, the
  others of its quota come one instant before the expiry, and the next quota right after it.
\<close>

lemma edge_granted:
  assumes ws: "whole_seconds (window l)" and c: "CHR '':'' \<notin> set c"
    and lim: "limit l = int m" "0 < m" "int m < max_int64"
    and fresh: "entry r (rate_key u c) = None"
    and run: "run_limiter R advance l
      (Ask NoFault NoFault u c # Wait (nat (sint (window l) - 1)) #
       replicate (m - 1) (Ask NoFault NoFault u c) @
       Wait 1 # replicate m (Ask NoFault NoFault u c)) r = (as, r')"
  shows "granted u c (tl as) = 2 * int m - 1"
proof -
  let ?k = "rate_key u c" and ?a = "Ask NoFault NoFault u c"
  let ?w = "nat (sint (window l) - 1)"
  have w: "int ?w = sint (window l) - 1" using ws by (simp add: whole_seconds_def)
  obtain r1 where r1: "Allow R l NoFault NoFault u c r = ((1 \<le> limit l, None), r1)"
    "entry r1 ?k = Some (Num 1, Some (clock r + sint (window l)))"
    using Allow_first [OF fresh ws] by blast
  have clk1: "clock r1 = clock r" using Allow_clock [of l NoFault NoFault u c r] r1 by simp
  let ?es = "Wait ?w # replicate (m - 1) ?a"
  obtain as1 r2 where s1: "run_limiter R advance l ?es r1 = (as1, r2)" by fastforce
  obtain as2 where s2: "run_limiter R advance l (replicate m ?a) (advance 1 r2) = (as2, r')"
    and as: "as = (u, c, 1 \<le> limit l, None) # as1 @ as2"
    using run r1(1) s1 by (auto simp: run_limiter_append split: prod.splits)
  have el: "elapsed (replicate n ?a) = 0" "faultless u c (replicate n ?a)"
    "plain_channels (replicate n ?a)" for n using c by (induction n) auto
  have q1: "granted u c as1 = int m - 1 \<and> live (window l) (clock r2) 0 0 (entry r2 ?k) \<and>
      granted u c as1 + quota (limit l) (entry r2 ?k) \<le> int m - 1 \<and>
      clock r2 = clock r + sint (window l) - 1 \<and>
      (\<exists>n. entry r2 ?k = Some (Num n, Some (clock r + sint (window l))))"
    using history_quota [OF ws c, of ?es 0 r1 u as1 r2] s1 el r1(2) clk1 w lim by auto
  then have "entry (advance 1 r2) ?k = None"
    by (auto simp: advance_entry expired_def)
  moreover have "0 < sint (window l)" using ws by (simp add: whole_seconds_def)
  ultimately have "granted u c as2 = int m"
    using history_quota [OF ws c, of "replicate m ?a" 0 "advance 1 r2" u as2 r'] s2 el lim by auto
  then show ?thesis using as q1 by simp
qed

end

subsection \<open>Properties\<close>

text \<open>
  A call is rejected exactly when \<open>INCR\<close> was answered with a count above the
  limit and, should that count be the first, \<open>EXPIRE\<close> succeeded; a rejection carries no error.
  Every Redis error therefore lets the notification through, wrapped so that \<open>errors.Is\<close> still sees
  the client's error.
\<close>

lemma Allow_decision:
  "(\<not> fst (fst (Allow R l f1 f2 u c r)) \<longleftrightarrow>
      (\<exists>count r1. r_incr R f1 (rate_key u c) r = (Inr count, r1) \<and> limit l < count \<and>
         (count = 1 \<longrightarrow> fst (r_expire R f2 (rate_key u c) (window l) r1) = None))) \<and>
   (\<not> fst (fst (Allow R l f1 f2 u c r)) \<longrightarrow> snd (fst (Allow R l f1 f2 u c r)) = None) \<and>
   (\<forall>e. fst (r_incr R f1 (rate_key u c) r) = Inl e \<longrightarrow>
      (\<exists>e'. fst (Allow R l f1 f2 u c r) = (True, Some e') \<and> (\<forall>s. errors_is e' s = errors_is e s)))"
  by (auto simp: Allow_def Let_def split: prod.splits sum.splits option.splits)

lemma keyspace_server: "redis_server ks_ops ks_map ks_now ks_advance"
  by (rule keyspace.redis_server_axioms)

text \<open>
  C24 (bounds).  The quota of one window, against any Redis with the documented behaviour.  From the
  first call of a user on a channel until the window ends, whatever other users and channels do and
  whichever calls fail, at most \<open>limit\<close> calls are allowed without an error; if none of them fails,
  exactly the first \<open>limit\<close> are.
\<close>

theorem Allow_window_quota:
  assumes "redis_server R entry clock adv"
    and "whole_seconds (window l)" "CHR '':'' \<notin> set c" "plain_channels es"
    and "entry r (rate_key u c) = None" "elapsed es < sint (window l)" "asked u c es < max_int64"
  shows "granted u c (fst (run_limiter R adv l es r)) \<le> max 0 (limit l) \<and>
         (faultless u c es \<longrightarrow>
            granted u c (fst (run_limiter R adv l es r)) = min (asked u c es) (max 0 (limit l)))"
  using redis_server.history_quota [OF assms(1), of l c es 0 r u "fst (run_limiter R adv l es r)"
      "snd (run_limiter R adv l es r)"] assms(2-)
  by (auto intro: order_trans [rotated])

definition busy_hour :: "rate_event list" where
  "busy_hour =
     [Ask NoFault NoFault ''u'' ChannelSMS, Ask (Refused (Opaque ''eof'')) NoFault ''v'' ChannelSMS,
      Wait 1000, Ask NoFault NoFault ''u'' ChannelSMS, Ask NoFault NoFault ''u'' ChannelIOS,
      Wait 5000, Ask NoFault NoFault ''u'' ChannelSMS]"

theorem Allow_window_quota_witness:
  "granted ''u'' ChannelSMS
     (fst (run_limiter ks_ops ks_advance \<lparr>limit = 2, window = Hour\<rparr> busy_hour (ks_empty show_int))) = 2"
  using Allow_window_quota [OF keyspace_server, where l = "\<lparr>limit = 2, window = Hour\<rparr>" and
      c = ChannelSMS and u = "''u''" and es = busy_hour and r = "ks_empty show_int"]
  by (simp add: busy_hour_def channel_defs whole_seconds_def Hour_def ks_empty_def max_int64_def)

text \<open>
  C35 (safety).  A failed \<open>EXPIRE\<close> is never made up for.  If it is refused on the call that creates
  the counter, the key has no expiry, and since only that call sets one, the user gets
  \<open>limit - 1\<close> further calls on that channel and no more, however much time passes.
\<close>

theorem Allow_lost_expiry_locks_out:
  assumes "redis_server R entry clock adv"
    and "whole_seconds (window l)" "CHR '':'' \<notin> set c" "plain_channels es"
    and "entry r (rate_key u c) = None"
    and "Allow R l NoFault (Refused e) u c r = (ans, r1)" "1 + asked u c es \<le> max_int64"
  shows "granted u c (fst (run_limiter R adv l es r1)) \<le> max 0 (limit l - 1) \<and>
         (\<exists>n. entry (snd (run_limiter R adv l es r1)) (rate_key u c) = Some (Num n, None))"
proof -
  have "entry r1 (rate_key u c) = Some (Num 1, None)"
    using redis_server.Allow_first_unexpiring [OF assms(1,5), of l e] assms(6) by auto
  then show ?thesis
    using redis_server.history_quota [OF assms(1-4), of 0 r1 u "fst (run_limiter R adv l es r1)"
        "snd (run_limiter R adv l es r1)"] assms(7)
      quota_nonneg [of "limit l" "entry (snd (run_limiter R adv l es r1)) (rate_key u c)"]
    by auto
qed

theorem Allow_lost_expiry_locks_out_witness:
  "granted ''u'' ChannelSMS (fst (run_limiter ks_ops ks_advance \<lparr>limit = 1, window = Hour\<rparr>
     [Wait 7200000000000, Ask NoFault NoFault ''u'' ChannelSMS]
     (snd (Allow ks_ops \<lparr>limit = 1, window = Hour\<rparr> NoFault (Refused (Opaque ''eof'')) ''u'' ChannelSMS
        (ks_empty show_int))))) \<le> 0"
  using Allow_lost_expiry_locks_out [OF keyspace_server, where l = "\<lparr>limit = 1, window = Hour\<rparr>" and
      c = ChannelSMS and u = "''u''" and r = "ks_empty show_int" and e = "Opaque ''eof''" and
      es = "[Wait 7200000000000, Ask NoFault NoFault ''u'' ChannelSMS]", OF _ _ _ _ surjective_pairing]
  by (simp add: channel_defs whole_seconds_def Hour_def ks_empty_def max_int64_def)

text \<open>
  C36 (bounds).  The window is fixed, not sliding: after one early call, \<open>2 * limit - 1\<close> calls are
  all allowed within the last nanosecond of the window and the first of the next.
\<close>

theorem Allow_window_edge:
  assumes "redis_server R entry clock adv"
    and "whole_seconds (window l)" "CHR '':'' \<notin> set c"
    and "limit l = int m" "0 < m" "int m < max_int64" "entry r (rate_key u c) = None"
  shows "granted u c (tl (fst (run_limiter R adv l
           (Ask NoFault NoFault u c # Wait (nat (sint (window l) - 1)) #
            replicate (m - 1) (Ask NoFault NoFault u c) @
            Wait 1 # replicate m (Ask NoFault NoFault u c)) r))) = 2 * int m - 1"
  using redis_server.edge_granted [OF assms surjective_pairing] .

theorem Allow_window_edge_witness:
  "granted ''u'' ChannelIOS (tl (fst (run_limiter ks_ops ks_advance (NewLimiter 2 Hour)
     [Ask NoFault NoFault ''u'' ChannelIOS, Wait 3599999999999, Ask NoFault NoFault ''u'' ChannelIOS,
      Wait 1, Ask NoFault NoFault ''u'' ChannelIOS, Ask NoFault NoFault ''u'' ChannelIOS]
     (ks_empty show_int)))) = 3"
  using Allow_window_edge [OF keyspace_server, where l = "NewLimiter 2 Hour" and c = ChannelIOS
      and u = "''u''" and m = 2 and r = "ks_empty show_int"]
  by (simp add: NewLimiter_def channel_defs whole_seconds_def Hour_def ks_empty_def max_int64_def
      numeral_2_eq_2)

end
