(* ===== verification/Rfc3339.thy ===== *)
theory Rfc3339
  imports Domain Utf8 "HOL-Library.Monad_Syntax"
begin

section \<open>Times as text\<close>

text \<open>
  What the program uses of Go's \<^verbatim>\<open>time\<close> package when it prints a time: \<open>Time.MarshalJSON\<close>
  (RFC 3339 with up to nine fractional digits) and its inverse, and the layout \<open>time.RFC3339\<close>.  An
  instant is a count of nanoseconds since 1970; \<open>tz\<close> is the offset of the process's local time from
  UTC in minutes.  Days are counted from 0000-01-01, the first day a four-digit year can name.
\<close>

subsection \<open>The calendar\<close>

definition leap :: "nat \<Rightarrow> bool" where
  "leap y \<longleftrightarrow> y mod 4 = 0 \<and> (y mod 100 \<noteq> 0 \<or> y mod 400 = 0)"

definition year_len :: "nat \<Rightarrow> nat" where "year_len y = (if leap y then 366 else 365)"

definition month_lens :: "nat \<Rightarrow> nat list" where
  "month_lens y = [31, if leap y then 29 else 28, 31, 30, 31, 30, 31, 31, 30, 31, 30, 31]"

text \<open>The days before the first of January of a year.\<close>

definition days_before :: "nat \<Rightarrow> nat" where
  "days_before y = 365 * y + (y + 3) div 4 + (y + 399) div 400 - (y + 99) div 100"

function find_year :: "nat \<Rightarrow> nat \<Rightarrow> nat \<times> nat" where
  "find_year y r = (if r < year_len y then (y, r) else find_year (Suc y) (r - year_len y))"
  by pat_completeness auto
termination by (relation "measure snd") (auto simp: year_len_def)

declare find_year.simps [simp del]

fun locate :: "nat list \<Rightarrow> nat \<Rightarrow> nat \<times> nat" where
  "locate [] r = (0, r)"
| "locate (l # ls) r =
     (if r < l then (0, r) else (case locate ls (r - l) of (i, r') \<Rightarrow> (Suc i, r')))"

text \<open>Year, month and day of a day count, and back.\<close>

definition civil :: "nat \<Rightarrow> nat \<times> nat \<times> nat" where
  "civil n =
     (case find_year (n div 366) (n - days_before (n div 366)) of
        (y, r) \<Rightarrow> (case locate (month_lens y) r of (i, d) \<Rightarrow> (y, i + 1, d + 1)))"

definition day_number :: "nat \<Rightarrow> nat \<Rightarrow> nat \<Rightarrow> nat" where
  "day_number y m d = days_before y + sum_list (take (m - 1) (month_lens y)) + (d - 1)"

lemma ceil_div_Suc:
  assumes "0 < (k :: nat)"
  shows "(Suc y + (k - 1)) div k = (y + (k - 1)) div k + (if y mod k = 0 then 1 else 0)"
proof -
  have "Suc (y + (k - 1)) mod k = y mod k" using assms by simp
  then show ?thesis using assms div_Suc [of "y + (k - 1)" k] by simp
qed

lemma days_before_Suc: "days_before (Suc y) = days_before y + year_len y"
proof -
  have step: "(Suc y + 3) div 4 = (y + 3) div 4 + (if y mod 4 = 0 then 1 else 0)"
    "(Suc y + 99) div 100 = (y + 99) div 100 + (if y mod 100 = 0 then 1 else 0)"
    "(Suc y + 399) div 400 = (y + 399) div 400 + (if y mod 400 = 0 then 1 else 0)"
    using ceil_div_Suc [of 4 y] ceil_div_Suc [of 100 y] ceil_div_Suc [of 400 y] by simp_all
  have "(y + 99) div 100 \<le> y"
    by (cases y) (simp_all add: div_add_self2 [of 100, simplified] le_SucI)
  moreover have "y mod 100 = 0 \<Longrightarrow> y mod 4 = 0"
    using dvd_trans [of 4 100 y] by (simp add: mod_eq_0_iff_dvd)
  moreover have "y mod 400 = 0 \<Longrightarrow> y mod 100 = 0"
    using dvd_trans [of 100 400 y] by (simp add: mod_eq_0_iff_dvd)
  moreover define a b c where "a = (y + 3) div 4" "b = (y + 99) div 100" "c = (y + 399) div 400"
  ultimately show ?thesis
    unfolding days_before_def step year_len_def leap_def a_b_c_def [symmetric] by auto
qed

lemma days_before_mono: "x \<le> y \<Longrightarrow> days_before x \<le> days_before y"
  by (rule lift_Suc_mono_le [of days_before]) (simp_all add: days_before_Suc)

lemma days_before_le: "days_before y \<le> 366 * y"
  by (induction y) (simp_all add: days_before_Suc year_len_def, simp add: days_before_def)

lemma sum_month_lens: "sum_list (month_lens y) = year_len y"
  by (simp add: month_lens_def year_len_def)

lemma find_year_sum:
  "find_year y r = (y', r') \<Longrightarrow> days_before y' + r' = days_before y + r \<and> r' < year_len y'"
proof (induction y r rule: find_year.induct)
  case (1 y r)
  show ?case
  proof (cases "r < year_len y")
    case True
    then show ?thesis using "1.prems" by (simp add: find_year.simps)
  next
    case False
    then show ?thesis
      using 1 by (simp add: find_year.simps [of y r] days_before_Suc)
  qed
qed

lemma locate_sum:
  "r < sum_list ls \<Longrightarrow> locate ls r = (i, r') \<Longrightarrow>
   sum_list (take i ls) + r' = r \<and> i < length ls \<and> r' < ls ! i"
proof (induction ls arbitrary: r i)
  case (Cons l ls)
  show ?case
  proof (cases "r < l")
    case False
    obtain j r'' where j: "locate ls (r - l) = (j, r'')" by fastforce
    then have "i = Suc j" "r'' = r'" using Cons.prems(2) False by auto
    then show ?thesis using Cons.IH [of "r - l" j] Cons.prems(1) False j
      by simp linarith
  qed (use Cons.prems in auto)
qed simp

lemma month_lens_length [simp]: "length (month_lens y) = 12"
  by (simp add: month_lens_def)

lemma civil_day_number:
  assumes "civil n = (y, m, d)"
  shows "day_number y m d = n" "1 \<le> m" "m \<le> 12" "1 \<le> d" "d \<le> month_lens y ! (m - 1)"
proof -
  obtain r where y: "find_year (n div 366) (n - days_before (n div 366)) = (y, r)"
    and md: "locate (month_lens y) r = (m - 1, d - 1)" "1 \<le> m" "1 \<le> d"
    using assms by (auto simp: civil_def split: prod.splits)
  have "days_before (n div 366) \<le> n"
    using days_before_le [of "n div 366"] by (meson div_times_less_eq_dividend order_trans times_div_less_eq_dividend)
  then have "days_before y + r = n" "r < year_len y" using find_year_sum [OF y] by auto
  moreover from this have "sum_list (take (m - 1) (month_lens y)) + (d - 1) = r \<and>
      m - 1 < 12 \<and> d - 1 < month_lens y ! (m - 1)"
    using locate_sum [OF _ md(1)] by (simp add: sum_month_lens)
  ultimately show "day_number y m d = n" "1 \<le> m" "m \<le> 12" "1 \<le> d"
    "d \<le> month_lens y ! (m - 1)"
    using md(2,3) by (simp_all add: day_number_def, linarith+)
qed

subsection \<open>Fixed-width numbers\<close>

primrec pad :: "nat \<Rightarrow> nat \<Rightarrow> string" where
  "pad 0 n = []"
| "pad (Suc w) n = pad w (n div 10) @ [digit_char (n mod 10)]"

definition digit_value :: "char \<Rightarrow> nat" where "digit_value c = byte c - 48"

definition is_num :: "char \<Rightarrow> bool" where "is_num = in_range 48 57"

definition digits_value :: "string \<Rightarrow> nat" where
  "digits_value s = foldl (\<lambda>n c. 10 * n + digit_value c) 0 s"

definition num :: "nat \<Rightarrow> nat \<Rightarrow> nat \<Rightarrow> string \<Rightarrow> (nat \<times> string) option" where
  "num w lo hi s =
     (if w \<le> length s \<and> list_all is_num (take w s) \<and>
         lo \<le> digits_value (take w s) \<and> digits_value (take w s) \<le> hi
      then Some (digits_value (take w s), drop w s) else None)"

definition lit :: "char \<Rightarrow> string \<Rightarrow> string option" where
  "lit c s = (case s of [] \<Rightarrow> None | a # r \<Rightarrow> if a = c then Some r else None)"

lemma digit_char_byte: "d < 10 \<Longrightarrow> byte (digit_char d) = 48 + d"
  by (simp add: byte_def digit_char_def)

lemma digit_char_num: "d < 10 \<Longrightarrow> is_num (digit_char d)" "d < 10 \<Longrightarrow> digit_value (digit_char d) = d"
  by (simp_all add: is_num_def in_range_def digit_value_def digit_char_byte)

lemma pad_length [simp]: "length (pad w n) = w"
  by (induction w arbitrary: n) auto

lemma pad_num: "list_all is_num (pad w n)"
  by (induction w arbitrary: n) (auto simp: digit_char_num)

lemma digits_value_snoc: "digits_value (s @ [c]) = 10 * digits_value s + digit_value c"
  by (simp add: digits_value_def)

lemma digits_value_pad: "n < 10 ^ w \<Longrightarrow> digits_value (pad w n) = n"
proof (induction w arbitrary: n)
  case 0
  then show ?case by (simp add: digits_value_def)
next
  case (Suc w)
  then have "digits_value (pad w (n div 10)) = n div 10" by auto
  then show ?case by (simp add: digits_value_snoc digit_char_num)
qed

lemma num_pad:
  "n < 10 ^ w \<Longrightarrow> lo \<le> n \<Longrightarrow> n \<le> hi \<Longrightarrow> num w lo hi (pad w n @ s) = Some (n, s)"
  by (simp add: num_def pad_num digits_value_pad)

lemma num_hour: "n \<le> 23 \<Longrightarrow> num 2 0 23 (pad 2 n @ s) = Some (n, s)"
  and num_sixty: "n \<le> 59 \<Longrightarrow> num 2 0 59 (pad 2 n @ s) = Some (n, s)"
  by (simp_all add: num_pad)

lemma lit_Cons [simp]: "lit c (c # s) = Some s"
  by (simp add: lit_def)

subsection \<open>RFC 3339\<close>

definition ns_per_sec :: int where "ns_per_sec = 1000000000"

text \<open>Seconds from 0000-01-01 to 1970-01-01.\<close>

definition epoch_offset :: int where "epoch_offset = 719528 * 86400"

definition zone_text :: "int \<Rightarrow> string" where
  "zone_text tz =
     (if tz = 0 then ''Z''
      else (if tz < 0 then CHR ''-'' else CHR ''+'') #
           pad 2 (nat \<bar>tz\<bar> div 60) @ '':'' @ pad 2 (nat \<bar>tz\<bar> mod 60))"

text \<open>The fraction without its trailing zeros; the layout \<open>.999999999\<close>.\<close>

definition strip_zeros :: "string \<Rightarrow> string" where
  "strip_zeros s = rev (dropWhile (\<lambda>c. c = CHR ''0'') (rev s))"

definition frac_text :: "nat \<Rightarrow> string" where
  "frac_text ns = (if ns = 0 then [] else CHR ''.'' # strip_zeros (pad 9 ns))"

definition clock_text :: "nat \<Rightarrow> nat \<Rightarrow> string" where
  "clock_text day sec =
     (case civil day of (y, m, d) \<Rightarrow>
        pad 4 y @ ''-'' @ pad 2 m @ ''-'' @ pad 2 d @ ''T'' @
        pad 2 (sec div 3600) @ '':'' @ pad 2 (sec div 60 mod 60) @ '':'' @ pad 2 (sec mod 60))"

text \<open>Local seconds since 0000-01-01, and the nanoseconds within the second.\<close>

definition local_seconds :: "int \<Rightarrow> instant \<Rightarrow> int" where
  "local_seconds tz t = t div ns_per_sec + tz * 60 + epoch_offset"

definition year_in_range :: "int \<Rightarrow> instant \<Rightarrow> bool" where
  "year_in_range tz t \<longleftrightarrow>
     0 \<le> local_seconds tz t \<and> local_seconds tz t < int (days_before 10000) * 86400"

text \<open>\<open>Time.MarshalJSON\<close> fails on years outside 0 to 9999.\<close>

definition time_text :: "int \<Rightarrow> instant \<Rightarrow> string option" where
  "time_text tz t =
     (if year_in_range tz t then
        Some (clock_text (nat (local_seconds tz t) div 86400) (nat (local_seconds tz t) mod 86400) @
              frac_text (nat (t mod ns_per_sec)) @ zone_text tz)
      else None)"

text \<open>\<open>Format(time.RFC3339)\<close>: no fraction.  Years outside the range are printed with the number of
  digits they need; the model stops at the range.\<close>

definition format_rfc3339 :: "int \<Rightarrow> instant \<Rightarrow> string" where
  "format_rfc3339 tz t =
     clock_text (nat (local_seconds tz t) div 86400) (nat (local_seconds tz t) mod 86400) @ zone_text tz"

definition parse_frac :: "string \<Rightarrow> (nat \<times> string) option" where
  "parse_frac s =
     (case s of
        [] \<Rightarrow> Some (0, [])
      | a # r \<Rightarrow>
          if a = CHR ''.'' then
            (if takeWhile is_num r = [] then None
             else Some (digits_value (take 9 (takeWhile is_num r @ replicate 9 (CHR ''0''))),
                        dropWhile is_num r))
          else Some (0, s))"

definition parse_zone :: "string \<Rightarrow> int option" where
  "parse_zone s =
     (if s = ''Z'' then Some 0
      else case s of
        [] \<Rightarrow> None
      | a # r \<Rightarrow>
          if a = CHR ''+'' \<or> a = CHR ''-'' then do {
            (h, r) \<leftarrow> num 2 0 23 r;
            r \<leftarrow> lit (CHR '':'') r;
            (m, r) \<leftarrow> num 2 0 59 r;
            if r = [] then Some ((if a = CHR ''-'' then -1 else 1) * int (h * 60 + m)) else None
          } else None)"

definition parse_time :: "string \<Rightarrow> instant option" where
  "parse_time s = do {
     (y, s) \<leftarrow> num 4 0 9999 s;
     s \<leftarrow> lit (CHR ''-'') s;
     (m, s) \<leftarrow> num 2 1 12 s;
     s \<leftarrow> lit (CHR ''-'') s;
     (d, s) \<leftarrow> num 2 1 (month_lens y ! (m - 1)) s;
     s \<leftarrow> lit (CHR ''T'') s;
     (hh, s) \<leftarrow> num 2 0 23 s;
     s \<leftarrow> lit (CHR '':'') s;
     (mm, s) \<leftarrow> num 2 0 59 s;
     s \<leftarrow> lit (CHR '':'') s;
     (ss, s) \<leftarrow> num 2 0 59 s;
     (ns, s) \<leftarrow> parse_frac s;
     tz \<leftarrow> parse_zone s;
     Some ((int (day_number y m d * 86400 + hh * 3600 + mm * 60 + ss) - epoch_offset - tz * 60)
             * ns_per_sec + int ns)
   }"

lemma strip_zeros_replicate:
  "strip_zeros s @ replicate (length s - length (strip_zeros s)) (CHR ''0'') = s"
proof -
  define tw dw where "tw = takeWhile (\<lambda>c. c = CHR ''0'') (rev s)"
    "dw = dropWhile (\<lambda>c. c = CHR ''0'') (rev s)"
  then have "rev s = tw @ dw" by simp
  then have s: "s = rev dw @ rev tw" by (metis rev_append rev_rev_ident)
  have "\<forall>c \<in> set tw. c = CHR ''0''" by (auto simp: tw_dw_def dest: set_takeWhileD)
  then have "tw = replicate (length tw) (CHR ''0'')" by (metis replicate_length_same)
  then have tw: "rev tw = replicate (length tw) (CHR ''0'')" by (metis rev_replicate)
  have "strip_zeros s = rev dw" by (simp add: strip_zeros_def tw_dw_def)
  then show ?thesis using s tw by simp
qed

lemma digits_value_zeros: "digits_value (replicate n (CHR ''0'')) = 0"
  by (induction n)
     (simp_all add: digits_value_snoc digit_value_def byte_def flip: replicate_append_same,
      simp add: digits_value_def)

lemma parse_frac_text:
  assumes "ns < 1000000000" "s \<noteq> []" "hd s \<noteq> CHR ''.''" "\<not> is_num (hd s)"
  shows "parse_frac (frac_text ns @ s) = Some (ns, s)"
proof (cases "ns = 0")
  case True
  then show ?thesis using assms(2,3) by (cases s) (simp_all add: parse_frac_def frac_text_def)
next
  case False
  let ?z = "strip_zeros (pad 9 ns)"
  have z: "?z @ replicate (9 - length ?z) (CHR ''0'') = pad 9 ns"
    using strip_zeros_replicate [of "pad 9 ns"] by simp
  then have "length ?z \<le> 9" by (metis le_iff_add length_append pad_length)
  have nums: "list_all is_num ?z" using pad_num [of 9 ns] z by (metis list_all_append)
  have "?z \<noteq> []"
  proof
    assume "?z = []"
    then have "pad 9 ns = replicate 9 (CHR ''0'')" using z by simp
    then show False using digits_value_pad [of ns 9] digits_value_zeros [of 9] False assms(1) by simp
  qed
  moreover have "takeWhile is_num (?z @ s) = ?z" "dropWhile is_num (?z @ s) = s"
    using nums assms(2,4) by (cases s; simp add: list_all_iff takeWhile_append2 dropWhile_append2)+
  moreover have "take 9 (?z @ replicate 9 (CHR ''0'')) = pad 9 ns"
    using z \<open>length ?z \<le> 9\<close> by simp
  ultimately show ?thesis
    using False digits_value_pad [of ns 9] assms(1) by (simp add: parse_frac_def frac_text_def)
qed

lemma parse_zone_text:
  assumes "\<bar>tz\<bar> < 1440"
  shows "parse_zone (zone_text tz) = Some tz"
proof (cases "tz = 0")
  case True
  then show ?thesis by (simp add: parse_zone_def zone_text_def)
next
  case False
  let ?a = "nat \<bar>tz\<bar>"
  have "?a div 60 \<le> 23" using assms by simp
  then have n: "num 2 0 23 (pad 2 (?a div 60) @ s) = Some (?a div 60, s)"
    "num 2 0 59 (pad 2 (?a mod 60)) = Some (?a mod 60, [])" for s
    using num_pad [of "?a div 60" 2 0 23 s] num_pad [of "?a mod 60" 2 0 59 "[]"] by simp_all
  have "(if tz < 0 then - 1 else 1) * int (?a div 60 * 60 + ?a mod 60) = tz" by simp
  then show ?thesis using False n by (auto simp: parse_zone_def zone_text_def)
qed

lemma zone_text_head:
  "zone_text tz \<noteq> []" "hd (zone_text tz) \<noteq> CHR ''.''" "\<not> is_num (hd (zone_text tz))"
  by (simp_all add: zone_text_def is_num_def in_range_def byte_def)

lemma month_lens_le: "i < 12 \<Longrightarrow> month_lens y ! i \<le> 31"
proof -
  assume "i < 12"
  moreover have "\<forall>l \<in> set (month_lens y). l \<le> 31" by (simp add: month_lens_def)
  ultimately show ?thesis by simp
qed

lemma parse_time_parts:
  assumes "y \<le> 9999" "1 \<le> m" "m \<le> 12" "d < 10 ^ 2" "1 \<le> d" "d \<le> month_lens y ! (m - 1)"
    and "hh \<le> 23" "mm \<le> 59" "ss \<le> 59" "ns < 1000000000" "\<bar>tz\<bar> < 1440"
  shows "parse_time (pad 4 y @ ''-'' @ pad 2 m @ ''-'' @ pad 2 d @ ''T'' @ pad 2 hh @ '':'' @
           pad 2 mm @ '':'' @ pad 2 ss @ frac_text ns @ zone_text tz) =
         Some ((int (day_number y m d * 86400 + hh * 3600 + mm * 60 + ss) - epoch_offset - tz * 60)
                 * ns_per_sec + int ns)"
proof -
  have "y < 10 ^ 4" "m < 10 ^ 2" using assms by simp_all
  then show ?thesis
    using assms unfolding parse_time_def
    by (simp add: num_pad num_hour num_sixty parse_frac_text [OF _ zone_text_head] parse_zone_text
        del: One_nat_def)
qed

text \<open>Printing a time and reading it back loses nothing.\<close>

lemma parse_time_text:
  assumes "time_text tz t = Some s" "\<bar>tz\<bar> < 1440"
  shows "parse_time s = Some t"
proof -
  let ?L = "local_seconds tz t" and ?ns = "nat (t mod ns_per_sec)"
  let ?day = "nat ?L div 86400" and ?sec = "nat ?L mod 86400"
  obtain y m d where ymd: "civil ?day = (y, m, d)" using prod_cases3 by blast
  have range: "0 \<le> ?L" "?L < int (days_before 10000) * 86400"
    and s: "s = clock_text ?day ?sec @ frac_text ?ns @ zone_text tz"
    using assms(1) by (auto simp: time_text_def year_in_range_def split: if_splits)
  note c = civil_day_number [OF ymd]
  have "?day < days_before 10000" using range by (simp add: less_mult_imp_div_less nat_less_iff)
  moreover have "days_before y \<le> ?day" using c(1) by (simp add: day_number_def)
  ultimately have "y < 10000" using days_before_mono [of 10000 y] by (meson leD le_less_trans not_le)
  then have y: "y < 10 ^ 4" "y \<le> 9999" by simp_all
  have m: "m < 10 ^ 2" "1 \<le> m" "m \<le> 12" using c by simp_all
  have "m - 1 < 12" using m by simp
  then have d: "d < 10 ^ 2" using le_trans [OF c(5) month_lens_le] by force
  have "?sec div 3600 < 24" by (rule less_mult_imp_div_less) simp
  moreover have "?sec div 60 mod 60 < 60" "?sec mod 60 < 60" by simp_all
  ultimately have sec: "?sec div 3600 \<le> 23" "?sec div 60 mod 60 \<le> 59" "?sec mod 60 \<le> 59"
    by linarith+
  have ns: "?ns < 1000000000" by (simp add: ns_per_sec_def)
  have total: "?day * 86400 + ?sec div 3600 * 3600 + ?sec div 60 mod 60 * 60 + ?sec mod 60 = nat ?L"
  proof -
    have split: "x div 3600 * 3600 + x div 60 mod 60 * 60 + x mod 60 = x" for x :: nat
    proof -
      have "x div 60 div 60 * 60 + x div 60 mod 60 = x div 60" "x div 60 * 60 + x mod 60 = x"
        by simp_all
      moreover have "x div 60 div 60 = x div 3600" by (simp add: div_mult2_eq [symmetric])
      ultimately show ?thesis by linarith
    qed
    show ?thesis using split [of ?sec] div_mult_mod_eq [of "nat ?L" 86400] by linarith
  qed
  have "int (day_number y m d * 86400 + ?sec div 3600 * 3600 + ?sec div 60 mod 60 * 60 + ?sec mod 60)
      = ?L" unfolding c(1) total using range by simp
  then have "(int (day_number y m d * 86400 + ?sec div 3600 * 3600 + ?sec div 60 mod 60 * 60 +
      ?sec mod 60) - epoch_offset - tz * 60) * ns_per_sec + int ?ns = t"
    by (simp add: local_seconds_def ns_per_sec_def)
  moreover have "parse_time s = Some ((int (day_number y m d * 86400 + ?sec div 3600 * 3600 +
      ?sec div 60 mod 60 * 60 + ?sec mod 60) - epoch_offset - tz * 60) * ns_per_sec + int ?ns)"
    unfolding s clock_text_def ymd using parse_time_parts [OF y(2) m(2,3) d c(4,5) sec ns assms(2)]
    by (simp only: prod.case append_assoc)
  ultimately show ?thesis by (simp only:)
qed

end
