(* ===== verification/Wire.thy ===== *)
theory Wire
  imports Domain Json Rfc3339 "HOL-Library.List_Lexorder" "HOL-Library.Char_ord"
begin

section \<open>Structs as JSON\<close>

text \<open>
  How \<^verbatim>\<open>encoding/json\<close> maps the structs of \<^verbatim>\<open>internal/domain/notification.go\<close>: the fields in the
  order of declaration under the names of their tags, \<open>omitempty\<close>, maps with sorted keys; and back:
  fields matched by name, exactly or else up to letter case, unknown fields ignored, \<open>null\<close> leaving a
  field alone.  A value of the wrong type is an error.  A time is parsed from the decoded string.
\<close>

subsection \<open>Field names\<close>

definition fold_rune :: "string option \<Rightarrow> string" where
  "fold_rune r =
     (case r of
        None \<Rightarrow> replacement
      | Some u \<Rightarrow>
          if length u = 1 then
            (if in_range 97 122 (hd u) then [char_of (byte (hd u) - 32)] else u)
          else if u = rune_encode 0x17F then ''S''
          else if u = rune_encode 0x212A then ''K''
          else u)"

definition fold_name :: "string \<Rightarrow> string" where
  "fold_name s = concat (map fold_rune (runes s))"

definition match_field :: "string list \<Rightarrow> string \<Rightarrow> string option" where
  "match_field names key =
     (if key \<in> set names then Some key else List.find (\<lambda>n. fold_name n = fold_name key) names)"

lemma match_field_exact [simp]: "key \<in> set names \<Longrightarrow> match_field names key = Some key"
  by (simp add: match_field_def)

text \<open>Store the members of an object one after the other; \<open>None\<close> is a type mismatch.\<close>

fun store_members ::
    "string list \<Rightarrow> (string \<Rightarrow> jval \<Rightarrow> 'a \<Rightarrow> 'a option) \<Rightarrow> (string \<times> jval) list \<Rightarrow> 'a \<Rightarrow> 'a option" where
  "store_members names st [] x = Some x"
| "store_members names st ((k, v) # kvs) x =
     (case match_field names k of
        None \<Rightarrow> store_members names st kvs x
      | Some f \<Rightarrow>
         (case st f v x of
            None \<Rightarrow> None
          | Some x' \<Rightarrow> store_members names st kvs x'))"

definition store_struct ::
    "string list \<Rightarrow> (string \<Rightarrow> jval \<Rightarrow> 'a \<Rightarrow> 'a option) \<Rightarrow> jval \<Rightarrow> 'a \<Rightarrow> 'a option" where
  "store_struct names st v x =
     (case v of
        JNull \<Rightarrow> Some x
      | JObj kvs \<Rightarrow> store_members names st kvs x
      | _ \<Rightarrow> None)"

lemma store_members_append:
  "store_members names st (xs @ ys) x =
     (case store_members names st xs x of None \<Rightarrow> None | Some x' \<Rightarrow> store_members names st ys x')"
  by (induction xs arbitrary: x) (auto split: option.splits)

subsection \<open>Field values\<close>

fun store_string :: "jval \<Rightarrow> string \<Rightarrow> string option" where
  "store_string JNull old = Some old"
| "store_string (JStr s) old = Some s"
| "store_string _ old = None"

fun store_bool :: "jval \<Rightarrow> bool \<Rightarrow> bool option" where
  "store_bool JNull old = Some old"
| "store_bool (JBool b) old = Some b"
| "store_bool _ old = None"

text \<open>An element of a map starts from the zero value.\<close>

fun store_entries :: "(string \<times> jval) list \<Rightarrow> (string, string) fmap \<Rightarrow> (string, string) fmap option" where
  "store_entries [] m = Some m"
| "store_entries ((k, v) # kvs) m =
     (case store_string v [] of None \<Rightarrow> None | Some s \<Rightarrow> store_entries kvs (fmupd k s m))"

fun store_payload :: "jval \<Rightarrow> payload \<Rightarrow> payload option" where
  "store_payload JNull old = Some None"
| "store_payload (JObj kvs) old =
     map_option Some (store_entries kvs (case old of None \<Rightarrow> fmempty | Some m \<Rightarrow> m))"
| "store_payload _ old = None"

fun store_time :: "jval \<Rightarrow> instant \<Rightarrow> instant option" where
  "store_time JNull old = Some old"
| "store_time (JStr s) old = parse_time s"
| "store_time _ old = None"

fun store_time_ptr :: "jval \<Rightarrow> instant option \<Rightarrow> instant option option" where
  "store_time_ptr JNull old = Some None"
| "store_time_ptr v old = map_option Some (store_time v zero_time)"

definition payload_json :: "payload \<Rightarrow> jval" where
  "payload_json p =
     (case p of
        None \<Rightarrow> JNull
      | Some m \<Rightarrow>
          JObj (map (\<lambda>k. (k, JStr (the (fmlookup m k)))) (sorted_list_of_fset (fmdom m))))"

lemma store_entries_lookup:
  "distinct ks \<Longrightarrow> \<exists>m'. store_entries (map (\<lambda>k. (k, JStr (f k))) ks) m = Some m' \<and>
     (\<forall>k. fmlookup m' k = (if k \<in> set ks then Some (f k) else fmlookup m k))"
proof (induction ks arbitrary: m)
  case (Cons k ks)
  then obtain m' where "store_entries (map (\<lambda>k. (k, JStr (f k))) ks) (fmupd k (f k) m) = Some m'"
    "\<forall>x. fmlookup m' x = (if x \<in> set ks then Some (f x) else fmlookup (fmupd k (f k) m) x)"
    by (metis distinct.simps(2))
  then show ?case by auto
qed simp

lemma store_payload_json: "store_payload (payload_json p) None = Some p"
proof (cases p)
  case None
  then show ?thesis by (simp add: payload_json_def)
next
  case (Some m)
  let ?ks = "sorted_list_of_fset (fmdom m)"
  have "distinct ?ks" by (simp add: sorted_list_of_fset.rep_eq)
  from store_entries_lookup [OF this, of "\<lambda>k. the (fmlookup m k)" fmempty]
  obtain m' where m': "store_entries (map (\<lambda>k. (k, JStr (the (fmlookup m k)))) ?ks) fmempty = Some m'"
    "\<forall>k. fmlookup m' k = (if k \<in> set ?ks then Some (the (fmlookup m k)) else fmlookup fmempty k)"
    by blast
  have "m' = m"
  proof (rule fmap_ext)
    show "fmlookup m' k = fmlookup m k" for k
    proof (cases "fmlookup m k")
      case None
      then have "k \<notin> set ?ks" by (simp add: fmdom_notI)
      then show ?thesis using m'(2) None by simp
    next
      case (Some v)
      then have "k \<in> set ?ks" by (simp add: fmdomI)
      then show ?thesis using m'(2) Some by simp
    qed
  qed
  then show ?thesis using Some m'(1) by (simp add: payload_json_def)
qed

subsection \<open>Notifications\<close>

definition omit_empty :: "string \<Rightarrow> string \<Rightarrow> (string \<times> jval) list" where
  "omit_empty k s = (if s = [] then [] else [(k, JStr s)])"

text \<open>The tree that \<open>json.Marshal\<close> prints; it fails on a time outside the years 0 to 9999.\<close>

definition notification_json :: "int \<Rightarrow> notification \<Rightarrow> jval option" where
  "notification_json tz n =
     (case time_text tz (notif_created_at n) of
        None \<Rightarrow> None
      | Some created \<Rightarrow>
         (case notif_scheduled_at n of
            None \<Rightarrow> Some []
          | Some t \<Rightarrow> map_option (\<lambda>s. [(''scheduled_at'', JStr s)]) (time_text tz t))
         \<bind> (\<lambda>scheduled. Some (JObj
           ([(''id'', JStr (notif_id n)), (''user_id'', JStr (notif_user_id n)),
             (''channel'', JStr (notif_channel n)), (''template_id'', JStr (notif_template_id n)),
             (''payload'', payload_json (notif_payload n)), (''status'', JStr (notif_status n)),
             (''created_at'', JStr created)] @ scheduled @
            omit_empty ''recipient_email'' (notif_recipient_email n) @
            omit_empty ''recipient_phone'' (notif_recipient_phone n) @
            omit_empty ''recipient_token'' (notif_recipient_token n)))))"

definition notification_fields :: "string list" where
  "notification_fields =
     [''id'', ''user_id'', ''channel'', ''template_id'', ''payload'', ''status'', ''created_at'',
      ''scheduled_at'', ''recipient_email'', ''recipient_phone'', ''recipient_token'']"

definition store_notification_field :: "string \<Rightarrow> jval \<Rightarrow> notification \<Rightarrow> notification option" where
  "store_notification_field f v n =
     (if f = ''id'' then
        map_option (\<lambda>s. n\<lparr>notif_id := s\<rparr>) (store_string v (notif_id n))
      else if f = ''user_id'' then
        map_option (\<lambda>s. n\<lparr>notif_user_id := s\<rparr>) (store_string v (notif_user_id n))
      else if f = ''channel'' then
        map_option (\<lambda>s. n\<lparr>notif_channel := s\<rparr>) (store_string v (notif_channel n))
      else if f = ''template_id'' then
        map_option (\<lambda>s. n\<lparr>notif_template_id := s\<rparr>) (store_string v (notif_template_id n))
      else if f = ''payload'' then
        map_option (\<lambda>s. n\<lparr>notif_payload := s\<rparr>) (store_payload v (notif_payload n))
      else if f = ''status'' then
        map_option (\<lambda>s. n\<lparr>notif_status := s\<rparr>) (store_string v (notif_status n))
      else if f = ''created_at'' then
        map_option (\<lambda>s. n\<lparr>notif_created_at := s\<rparr>) (store_time v (notif_created_at n))
      else if f = ''scheduled_at'' then
        map_option (\<lambda>s. n\<lparr>notif_scheduled_at := s\<rparr>) (store_time_ptr v (notif_scheduled_at n))
      else if f = ''recipient_email'' then
        map_option (\<lambda>s. n\<lparr>notif_recipient_email := s\<rparr>) (store_string v (notif_recipient_email n))
      else if f = ''recipient_phone'' then
        map_option (\<lambda>s. n\<lparr>notif_recipient_phone := s\<rparr>) (store_string v (notif_recipient_phone n))
      else
        map_option (\<lambda>s. n\<lparr>notif_recipient_token := s\<rparr>) (store_string v (notif_recipient_token n)))"

definition marshal_notification :: "int \<Rightarrow> notification \<Rightarrow> string option" where
  "marshal_notification tz n = map_option json_text (notification_json tz n)"

definition unmarshal_notification :: "string \<Rightarrow> notification option" where
  "unmarshal_notification data =
     parse_json data \<bind>
       (\<lambda>v. store_struct notification_fields store_notification_field v zero_notification)"

subsection \<open>Round trip\<close>

text \<open>A notification that survives the wire: its strings are valid UTF-8.\<close>

definition payload_utf8 :: "payload \<Rightarrow> bool" where
  "payload_utf8 p =
     (case p of
        None \<Rightarrow> True
      | Some m \<Rightarrow> fBall (fmdom m) utf8_valid \<and> fBall (fmran m) utf8_valid)"

definition notif_utf8 :: "notification \<Rightarrow> bool" where
  "notif_utf8 n \<longleftrightarrow>
     utf8_valid (notif_id n) \<and> utf8_valid (notif_user_id n) \<and> utf8_valid (notif_channel n) \<and>
     utf8_valid (notif_template_id n) \<and> utf8_valid (notif_status n) \<and>
     utf8_valid (notif_recipient_email n) \<and> utf8_valid (notif_recipient_phone n) \<and>
     utf8_valid (notif_recipient_token n) \<and> payload_utf8 (notif_payload n)"

lemma fix_payload:
  assumes "payload_utf8 p"
  shows "fix_json (payload_json p) = payload_json p"
proof (cases p)
  case (Some m)
  have "utf8_fix k = k \<and> utf8_fix (the (fmlookup m k)) = the (fmlookup m k)"
    if "k |\<in>| fmdom m" for k
    using assms Some that fmranI [of m k] by (auto simp: payload_utf8_def intro!: utf8_fix_valid)
  then show ?thesis using Some by (simp add: payload_json_def)
qed (simp add: payload_json_def)

lemma plain_payload [simp]: "plain_json (payload_json p)"
  by (auto simp: payload_json_def list_all_iff split: option.splits)

lemma nesting_payload: "nesting (payload_json p) \<le> 1"
proof -
  have "Max (insert 0 ((\<lambda>x. 0 :: nat) ` A)) = 0" for A :: "string set"
    by (simp add: image_constant_conv)
  then show ?thesis by (auto simp: payload_json_def image_image split: option.splits)
qed

lemma zone_ascii: "list_all (\<lambda>a. byte a < 0x80) (zone_text tz)"
  and digits_ascii: "list_all (\<lambda>a. byte a < 0x80) (pad w n)"
proof -
  have "list_all (\<lambda>a. byte a < 0x80) (pad w n)" for w n
    using pad_num [of w n] by (auto simp: list_all_iff is_num_def in_range_def)
  then show "list_all (\<lambda>a. byte a < 0x80) (zone_text tz)" "list_all (\<lambda>a. byte a < 0x80) (pad w n)"
    by (simp_all add: zone_text_def byte_def)
qed

lemma frac_ascii: "list_all (\<lambda>a. byte a < 0x80) (frac_text ns)"
proof -
  have "list_all (\<lambda>a. byte a < 0x80) (strip_zeros (pad 9 ns))"
    using digits_ascii [of 9 ns] strip_zeros_replicate [of "pad 9 ns"] by (metis list_all_append)
  then show ?thesis by (simp add: frac_text_def byte_def)
qed

lemma time_text_ascii: "time_text tz t = Some s \<Longrightarrow> list_all (\<lambda>a. byte a < 0x80) s"
  using digits_ascii zone_ascii frac_ascii
  by (auto simp: time_text_def clock_text_def byte_def split: if_splits prod.splits)

lemma fix_omit [simp]:
  "utf8_valid s \<Longrightarrow>
   map (\<lambda>(k, v). (utf8_fix k, fix_json v)) (omit_empty k s) = map (\<lambda>(k, v). (utf8_fix k, v)) (omit_empty k s)"
  by (simp add: omit_empty_def utf8_fix_valid)

lemma fields_ascii: "f \<in> set notification_fields \<Longrightarrow> utf8_fix f = f"
  by (rule utf8_fix_ascii) (auto simp: notification_fields_def byte_def)

lemma store_omit:
  "k \<in> set names \<Longrightarrow> st k (JStr s) x = Some y \<Longrightarrow> (s = [] \<Longrightarrow> y = x) \<Longrightarrow>
   store_members names st (omit_empty k s) x = Some y"
  by (auto simp: omit_empty_def)

lemma fix_members:
  assumes "list_all (\<lambda>(k, v). k \<in> set notification_fields \<and> fix_json v = v) kvs"
  shows "fix_json (JObj kvs) = JObj kvs"
  using assms fields_ascii by (induction kvs) auto

lemma notification_json_shape:
  assumes "notification_json tz n = Some j" "notif_utf8 n"
  shows "plain_json j \<and> nesting j \<le> max_nesting \<and> fix_json j = j"
proof -
  obtain created sched where j: "j = JObj
      ([(''id'', JStr (notif_id n)), (''user_id'', JStr (notif_user_id n)),
        (''channel'', JStr (notif_channel n)), (''template_id'', JStr (notif_template_id n)),
        (''payload'', payload_json (notif_payload n)), (''status'', JStr (notif_status n)),
        (''created_at'', JStr created)] @ sched @
       omit_empty ''recipient_email'' (notif_recipient_email n) @
       omit_empty ''recipient_phone'' (notif_recipient_phone n) @
       omit_empty ''recipient_token'' (notif_recipient_token n))"
    and created: "time_text tz (notif_created_at n) = Some created"
    and sched: "sched = [] \<or> (\<exists>t s. sched = [(''scheduled_at'', JStr s)] \<and> time_text tz t = Some s)"
    using assms(1) unfolding notification_json_def
    by (auto split: option.splits simp: bind_eq_Some_conv)
  let ?kvs = "case j of JObj kvs \<Rightarrow> kvs"
  have ok: "list_all (\<lambda>(k, v). k \<in> set notification_fields \<and> fix_json v = v \<and> plain_json v \<and>
      nesting v \<le> 1) ?kvs"
    using assms(2) sched utf8_fix_ascii [OF time_text_ascii] created nesting_payload
    unfolding j
    by (auto simp: notif_utf8_def utf8_fix_valid fix_payload omit_empty_def notification_fields_def)
  have "fix_json (JObj ?kvs) = JObj ?kvs"
    by (rule fix_members) (use ok in \<open>auto simp: list_all_iff\<close>)
  moreover have "plain_json (JObj ?kvs)" using ok by (auto simp: list_all_iff)
  moreover have "Max (insert 0 ((\<lambda>(k, v). nesting v) ` set ?kvs)) \<le> 1"
    using ok by (subst Max_le_iff) (auto simp: list_all_iff)
  then have "nesting (JObj ?kvs) \<le> Suc 1" by (simp only: nesting.simps Suc_le_mono)
  then have "nesting (JObj ?kvs) \<le> max_nesting"
    by (rule order_trans) (simp add: max_nesting_def)
  moreover have "JObj ?kvs = j" by (simp add: j)
  ultimately show ?thesis by simp
qed

lemma store_notification_json:
  assumes "notification_json tz n = Some j" "\<bar>tz\<bar> < 1440"
  shows "store_struct notification_fields store_notification_field j zero_notification = Some n"
proof -
  let ?st = "store_members notification_fields store_notification_field"
  let ?base = "\<lparr>notif_id = notif_id n, notif_user_id = notif_user_id n,
      notif_channel = notif_channel n, notif_template_id = notif_template_id n,
      notif_payload = notif_payload n, notif_status = notif_status n,
      notif_created_at = notif_created_at n, notif_scheduled_at = None,
      notif_recipient_email = [], notif_recipient_phone = [], notif_recipient_token = []\<rparr>"
  let ?timed = "?base\<lparr>notif_scheduled_at := notif_scheduled_at n\<rparr>"
  let ?mail = "?timed\<lparr>notif_recipient_email := notif_recipient_email n\<rparr>"
  let ?phone = "?mail\<lparr>notif_recipient_phone := notif_recipient_phone n\<rparr>"
  obtain created sched where j: "j = JObj
      ([(''id'', JStr (notif_id n)), (''user_id'', JStr (notif_user_id n)),
        (''channel'', JStr (notif_channel n)), (''template_id'', JStr (notif_template_id n)),
        (''payload'', payload_json (notif_payload n)), (''status'', JStr (notif_status n)),
        (''created_at'', JStr created)] @ sched @
       omit_empty ''recipient_email'' (notif_recipient_email n) @
       omit_empty ''recipient_phone'' (notif_recipient_phone n) @
       omit_empty ''recipient_token'' (notif_recipient_token n))"
    and created: "time_text tz (notif_created_at n) = Some created"
    and sched: "notif_scheduled_at n = None \<and> sched = [] \<or>
      (\<exists>t s. notif_scheduled_at n = Some t \<and> sched = [(''scheduled_at'', JStr s)] \<and>
             time_text tz t = Some s)"
    using assms(1) unfolding notification_json_def
    by (auto split: option.splits simp: bind_eq_Some_conv)
  have 1: "?st [(''id'', JStr (notif_id n)), (''user_id'', JStr (notif_user_id n)),
        (''channel'', JStr (notif_channel n)), (''template_id'', JStr (notif_template_id n)),
        (''payload'', payload_json (notif_payload n)), (''status'', JStr (notif_status n)),
        (''created_at'', JStr created)] zero_notification = Some ?base"
    using parse_time_text [OF created assms(2)]
    by (simp add: notification_fields_def store_notification_field_def store_payload_json
        zero_notification_def)
  have 2: "?st sched ?base = Some ?timed"
    using sched parse_time_text [OF _ assms(2)]
    by (auto simp: notification_fields_def store_notification_field_def)
  have 3: "?st (omit_empty ''recipient_email'' (notif_recipient_email n)) ?timed = Some ?mail"
    by (rule store_omit) (simp_all add: notification_fields_def store_notification_field_def)
  have 4: "?st (omit_empty ''recipient_phone'' (notif_recipient_phone n)) ?mail = Some ?phone"
    by (rule store_omit) (simp_all add: notification_fields_def store_notification_field_def)
  have 5: "?st (omit_empty ''recipient_token'' (notif_recipient_token n)) ?phone = Some n"
    by (rule store_omit) (simp_all add: notification_fields_def store_notification_field_def)
  show ?thesis
    unfolding j store_struct_def
    by (simp only: jval.case store_members_append 1 2 3 4 5 option.case)
qed

text \<open>What the producer writes, the consumer reads back unchanged.\<close>

lemma unmarshal_marshal:
  assumes "marshal_notification tz n = Some data" "notif_utf8 n" "\<bar>tz\<bar> < 1440"
  shows "unmarshal_notification data = Some n"
proof -
  obtain j where j: "notification_json tz n = Some j" "data = json_text j"
    using assms(1) by (auto simp: marshal_notification_def)
  from notification_json_shape [OF j(1) assms(2)]
  have "parse_json data = Some j" using parse_json_text j(2) by metis
  then show ?thesis
    using store_notification_json [OF j(1) assms(3)] by (simp add: unmarshal_notification_def)
qed

subsection \<open>Users and preferences\<close>

text \<open>These structs have no tags: the JSON names are the Go names.\<close>

definition user_fields :: "string list" where
  "user_fields = [''ID'', ''Email'', ''Phone'', ''DeviceToken'', ''Platform'']"

definition user_json :: "user \<Rightarrow> jval" where
  "user_json u = JObj
     [(''ID'', JStr (user_id u)), (''Email'', JStr (user_email u)), (''Phone'', JStr (user_phone u)),
      (''DeviceToken'', JStr (user_device_token u)), (''Platform'', JStr (user_platform u))]"

definition store_user_field :: "string \<Rightarrow> jval \<Rightarrow> user \<Rightarrow> user option" where
  "store_user_field f v u =
     (if f = ''ID'' then map_option (\<lambda>s. u\<lparr>user_id := s\<rparr>) (store_string v (user_id u))
      else if f = ''Email'' then map_option (\<lambda>s. u\<lparr>user_email := s\<rparr>) (store_string v (user_email u))
      else if f = ''Phone'' then map_option (\<lambda>s. u\<lparr>user_phone := s\<rparr>) (store_string v (user_phone u))
      else if f = ''DeviceToken'' then
        map_option (\<lambda>s. u\<lparr>user_device_token := s\<rparr>) (store_string v (user_device_token u))
      else map_option (\<lambda>s. u\<lparr>user_platform := s\<rparr>) (store_string v (user_platform u)))"

definition marshal_user :: "user \<Rightarrow> string" where
  "marshal_user u = json_text (user_json u)"

definition unmarshal_user :: "string \<Rightarrow> user option" where
  "unmarshal_user data =
     parse_json data \<bind> (\<lambda>v. store_struct user_fields store_user_field v zero_user)"

definition prefs_fields :: "string list" where
  "prefs_fields = [''UserID'', ''EmailEnabled'', ''SMSEnabled'', ''PushEnabled'']"

definition prefs_json :: "user_preferences \<Rightarrow> jval" where
  "prefs_json p = JObj
     [(''UserID'', JStr (prefs_user_id p)), (''EmailEnabled'', JBool (prefs_email_enabled p)),
      (''SMSEnabled'', JBool (prefs_sms_enabled p)), (''PushEnabled'', JBool (prefs_push_enabled p))]"

definition store_prefs_field ::
    "string \<Rightarrow> jval \<Rightarrow> user_preferences \<Rightarrow> user_preferences option" where
  "store_prefs_field f v p =
     (if f = ''UserID'' then
        map_option (\<lambda>s. p\<lparr>prefs_user_id := s\<rparr>) (store_string v (prefs_user_id p))
      else if f = ''EmailEnabled'' then
        map_option (\<lambda>b. p\<lparr>prefs_email_enabled := b\<rparr>) (store_bool v (prefs_email_enabled p))
      else if f = ''SMSEnabled'' then
        map_option (\<lambda>b. p\<lparr>prefs_sms_enabled := b\<rparr>) (store_bool v (prefs_sms_enabled p))
      else map_option (\<lambda>b. p\<lparr>prefs_push_enabled := b\<rparr>) (store_bool v (prefs_push_enabled p)))"

definition marshal_prefs :: "user_preferences \<Rightarrow> string" where
  "marshal_prefs p = json_text (prefs_json p)"

definition unmarshal_prefs :: "string \<Rightarrow> user_preferences option" where
  "unmarshal_prefs data =
     parse_json data \<bind> (\<lambda>v. store_struct prefs_fields store_prefs_field v zero_preferences)"

text \<open>What comes back from the cache: the value with its strings repaired.\<close>

definition fix_user :: "user \<Rightarrow> user" where
  "fix_user u =
     \<lparr>user_id = utf8_fix (user_id u), user_email = utf8_fix (user_email u),
      user_phone = utf8_fix (user_phone u), user_device_token = utf8_fix (user_device_token u),
      user_platform = utf8_fix (user_platform u)\<rparr>"

definition fix_prefs :: "user_preferences \<Rightarrow> user_preferences" where
  "fix_prefs p = p\<lparr>prefs_user_id := utf8_fix (prefs_user_id p)\<rparr>"

lemma tag_fix: "list_all (\<lambda>a. byte a < 0x80) k \<Longrightarrow> utf8_fix k = k"
  by (rule utf8_fix_ascii)

lemma unmarshal_marshal_user: "unmarshal_user (marshal_user u) = Some (fix_user u)"
proof -
  have "parse_json (json_text (user_json u)) = Some (fix_json (user_json u))"
    by (rule parse_json_text) (simp_all add: user_json_def max_nesting_def)
  moreover have "fix_json (user_json u) = user_json (fix_user u)"
    by (simp add: user_json_def fix_user_def tag_fix byte_def)
  ultimately show ?thesis
    by (simp add: unmarshal_user_def marshal_user_def store_struct_def user_json_def
        user_fields_def store_user_field_def zero_user_def)
qed

lemma unmarshal_marshal_prefs: "unmarshal_prefs (marshal_prefs p) = Some (fix_prefs p)"
proof -
  have "parse_json (json_text (prefs_json p)) = Some (fix_json (prefs_json p))"
    by (rule parse_json_text) (simp_all add: prefs_json_def max_nesting_def)
  moreover have "fix_json (prefs_json p) = prefs_json (fix_prefs p)"
    by (simp add: prefs_json_def fix_prefs_def tag_fix byte_def)
  ultimately show ?thesis
    by (simp add: unmarshal_prefs_def marshal_prefs_def store_struct_def prefs_json_def
        prefs_fields_def store_prefs_field_def zero_preferences_def)
qed

end
