(* ===== verification/Cache.thy ===== *)
theory Cache
  imports Persistence Ratelimit Wire
begin

section \<open>The user cache\<close>

text \<open>
  \<^verbatim>\<open>internal/store/cache.go\<close> and the interface \<open>UserRepository\<close> of \<^verbatim>\<open>internal/domain/repository.go\<close>.
  The cache keeps users and preferences in Redis as JSON, reads Redis first and falls back to the
  Store.  It reads the database without changing it, so the operations thread the Redis state and
  take the database as an argument.
\<close>

record ('f, 'd, 'r) user_repo =
  urepo_find :: "'f \<Rightarrow> string \<Rightarrow> 'd \<Rightarrow> 'r \<Rightarrow> (go_error + user) \<times> 'r"
  urepo_prefs :: "'f \<Rightarrow> string \<Rightarrow> 'd \<Rightarrow> 'r \<Rightarrow> (go_error + user_preferences) \<times> 'r"

text \<open>
  What a client of the interface relies on (\<open>sane\<close> excludes a fault whose error poses as
  \<open>pgx.ErrNoRows\<close>, which the Store would take for a missing row): answers that are not errors are the directory's, a call
  without faults answers as the directory does, and calls keep the invariant.
\<close>

locale user_repository =
  fixes U :: "('f, 'd, 'r) user_repo"
    and good :: "'d \<Rightarrow> 'r \<Rightarrow> bool"
    and directory :: "'d \<Rightarrow> string \<Rightarrow> go_error + user"
    and settings :: "'d \<Rightarrow> string \<Rightarrow> go_error + user_preferences"
    and calm :: 'f
    and sane :: "'f \<Rightarrow> bool"
  assumes good_find: "good d r \<Longrightarrow> good d (snd (urepo_find U f i d r))"
    and good_prefs: "good d r \<Longrightarrow> sane f \<Longrightarrow> good d (snd (urepo_prefs U f i d r))"
    and find_ok: "good d r \<Longrightarrow> fst (urepo_find U f i d r) = Inr u \<Longrightarrow> directory d i = Inr u"
    and find_calm: "good d r \<Longrightarrow> fst (urepo_find U calm i d r) = directory d i"
    and prefs_ok: "good d r \<Longrightarrow> sane f \<Longrightarrow> fst (urepo_prefs U f i d r) = Inr p \<Longrightarrow> settings d i = Inr p"
    and prefs_calm: "good d r \<Longrightarrow> fst (urepo_prefs U calm i d r) = settings d i"
begin

text \<open>Two answers for the same user agree, whatever faults and calls lie between them.\<close>

lemma find_agree:
  assumes "good d r" "good d r'" "fst (urepo_find U f i d r) = Inr u"
    and "fst (urepo_find U f' i d r') = Inr u'"
  shows "u = u'"
  using find_ok [OF assms(1,3)] find_ok [OF assms(2,4)] by simp

end

subsection \<open>The operations\<close>

text \<open>The faults of one call: Redis \<open>GET\<close>, the query, Redis \<open>SET\<close>.\<close>

record cache_faults =
  get_fault :: fault
  db_fault :: fault
  set_fault :: fault

definition user_key :: "string \<Rightarrow> string" where "user_key i = ''user:'' @ i"
definition prefs_key :: "string \<Rightarrow> string" where "prefs_key i = ''prefs:'' @ i"

text \<open>
  A cached value that does not decode counts as a miss; an error of \<open>GET\<close> other than \<open>redis.Nil\<close>
  falls through as well (the branch that tests for it is empty); errors of \<open>SET\<close> are dropped.
\<close>

definition UserCache_FindByID ::
    "('r, string) redis_ops \<Rightarrow> duration \<Rightarrow> cache_faults \<Rightarrow> string \<Rightarrow> database \<Rightarrow> 'r
       \<Rightarrow> (go_error + user) \<times> 'r" where
  "UserCache_FindByID R ttl f i db r =
     (let key = user_key i in
      case (case r_get R (get_fault f) key r of
              Inr data \<Rightarrow> unmarshal_user data
            | Inl err \<Rightarrow> None) of
        Some u \<Rightarrow> (Inr u, r)
      | None \<Rightarrow>
          (case FindUserByID (db_fault f) i db of
             Inl err \<Rightarrow> (Inl err, r)
           | Inr u \<Rightarrow> (Inr u, snd (r_set R (set_fault f) key (marshal_user u) ttl r))))"

definition UserCache_FindPreferences ::
    "('r, string) redis_ops \<Rightarrow> duration \<Rightarrow> cache_faults \<Rightarrow> string \<Rightarrow> database \<Rightarrow> 'r
       \<Rightarrow> (go_error + user_preferences) \<times> 'r" where
  "UserCache_FindPreferences R ttl f i db r =
     (let key = prefs_key i in
      case (case r_get R (get_fault f) key r of
              Inr data \<Rightarrow> unmarshal_prefs data
            | Inl err \<Rightarrow> None) of
        Some p \<Rightarrow> (Inr p, r)
      | None \<Rightarrow>
          (case FindPreferences (db_fault f) i db of
             Inl err \<Rightarrow> (Inl err, r)
           | Inr p \<Rightarrow> (Inr p, snd (r_set R (set_fault f) key (marshal_prefs p) ttl r))))"

definition NewUserCache ::
    "('r, string) redis_ops \<Rightarrow> duration \<Rightarrow> (cache_faults, database, 'r) user_repo" where
  "NewUserCache R ttl =
     \<lparr>urepo_find = UserCache_FindByID R ttl, urepo_prefs = UserCache_FindPreferences R ttl\<rparr>"

text \<open>The Store on its own implements the interface too, under its own method names.\<close>

definition store_user_repo :: "(fault, database, unit) user_repo" where
  "store_user_repo =
     \<lparr>urepo_find = (\<lambda>f i db r. (FindUserByID f i db, r)),
      urepo_prefs = (\<lambda>f i db r. (FindPreferences f i db, r))\<rparr>"

subsection \<open>Stored texts survive the cache\<close>

text \<open>What the database gives out is valid UTF-8: identifiers are ASCII, texts were checked.\<close>

definition ascii :: "string \<Rightarrow> bool" where "ascii s \<longleftrightarrow> list_all (\<lambda>c. byte c < 0x80) s"

lemma ascii_simps [simp]:
  "ascii []" "ascii (c # s) \<longleftrightarrow> byte c < 0x80 \<and> ascii s" "ascii (s @ t) \<longleftrightarrow> ascii s \<and> ascii t"
  by (simp_all add: ascii_def)

lemma ascii_take_drop: "ascii s \<Longrightarrow> ascii (take n s)" "ascii s \<Longrightarrow> ascii (drop n s)"
  by (auto simp: ascii_def list_all_iff dest: in_set_takeD in_set_dropD)

lemma ascii_fix: "ascii s \<Longrightarrow> utf8_fix s = s" and ascii_utf8: "ascii s \<Longrightarrow> utf8_valid s"
  by (simp_all add: ascii_def utf8_fix_ascii ascii_valid)

lemma hex_lower_ascii:
  assumes "hex_lower c = Some c'"
  shows "byte c < 0x80" "byte c' < 0x80"
  using assms by (auto simp: hex_lower_def byte_def Let_def split: if_splits)

lemma uuid_digits_ascii:
  "uuid_digits k s = Some (ds, rest) \<Longrightarrow> ascii rest \<Longrightarrow> ascii ds \<and> ascii s"
proof (induction k s arbitrary: ds rule: uuid_digits.induct)
  case (2 k a b s)
  let ?s = "case s of [] \<Rightarrow> s | c # s' \<Rightarrow> if c = CHR ''-'' \<and> even k \<and> 0 < k then s' else s"
  obtain a' b' ds' where h: "hex_lower a = Some a'" "hex_lower b = Some b'"
    "uuid_digits k ?s = Some (ds', rest)" "ds = a' # b' # ds'"
    using "2.prems"(1) by (auto split: option.splits)
  have "ascii ds' \<and> ascii ?s" using "2.IH" [OF _ h(1,2,3) "2.prems"(2)] by simp
  moreover have "byte (CHR ''-'') < 0x80" by (simp add: byte_def)
  ultimately show ?case
    using hex_lower_ascii [OF h(1)] hex_lower_ascii [OF h(2)] h(4)
    by (cases s) (auto split: if_splits)
qed auto

lemma uuid_in_ascii:
  assumes "uuid_in i = Some k"
  shows "ascii i \<and> ascii k"
proof -
  have out: "ascii ds \<Longrightarrow> ascii (uuid_out ds)" for ds
    by (simp add: uuid_out_def ascii_take_drop byte_def)
  obtain c s where i: "i = c # s" using assms by (cases i) (auto simp: uuid_in_def)
  show ?thesis
  proof (cases "c = CHR ''{''")
    case True
    then obtain ds where "uuid_digits 16 s = Some (ds, ''}'')" "k = uuid_out ds"
      using assms i by (auto simp: uuid_in_def split: option.splits if_splits)
    then show ?thesis
      using uuid_digits_ascii [of 16 s ds "''}''"] out i True by (simp add: byte_def)
  next
    case False
    then obtain ds where "uuid_digits 16 i = Some (ds, [])" "k = uuid_out ds"
      using assms i by (auto simp: uuid_in_def split: option.splits if_splits)
    then show ?thesis using uuid_digits_ascii [of 16 i ds "[]"] out by simp
  qed
qed

definition user_utf8 :: "user \<Rightarrow> bool" where
  "user_utf8 u \<longleftrightarrow>
     ascii (user_id u) \<and> utf8_valid (user_email u) \<and> utf8_valid (user_phone u) \<and>
     utf8_valid (user_device_token u) \<and> utf8_valid (user_platform u)"

lemma fix_user_valid: "user_utf8 u \<Longrightarrow> fix_user u = u"
  by (simp add: user_utf8_def fix_user_def utf8_fix_valid ascii_fix)

lemma users_texts:
  assumes "row_ok users_cols r" "f \<in> {''email'', ''phone'', ''device_token'', ''platform''}"
  shows "cell r f = SNull \<or> (\<exists>s. cell r f = SText s \<and> utf8_valid s)"
  using row_ok_cells [OF assms(1)] assms(2)
  by (auto simp: schema_simps has_type_iff pg_text_def)

lemma FindUserByID_user:
  assumes "store_ok db" "FindUserByID NoFault i db = Inr u"
  shows "user_utf8 u \<and> (\<exists>k. uuid_in i = Some k \<and> user_id u = k)"
proof -
  obtain k r where kr: "uuid_in i = Some k" "user_row db k = Some r" "user_complete r"
    "u = user_of_row r"
    using assms(2) unfolding FindUserByID_eq [OF assms(1)]
    by (auto split: option.splits if_splits)
  then have "text_of (cell r ''id'') = k" "r \<in> set (rows_of db ''users'')"
    by (auto simp: user_row_def find_Some_iff)
  then have ok: "row_ok users_cols r" using store_ok_rows(1) [OF assms(1)] by simp
  have "utf8_valid (text_of (cell r f))" if "f \<in> {''email'', ''phone'', ''device_token'', ''platform''}" for f
    using users_texts [OF ok that] by auto
  then show ?thesis
    using kr uuid_in_ascii [OF kr(1)] \<open>text_of (cell r ''id'') = k\<close>
    by (simp add: user_of_row_def user_utf8_def)
qed

lemma FindPreferences_prefs:
  assumes "store_ok db" "FindPreferences NoFault i db = Inr p"
  shows "fix_prefs p = p"
proof -
  obtain k where k: "uuid_in i = Some k"
    using assms(2) unfolding FindPreferences_eq [OF assms(1)] by (auto split: option.splits)
  have "prefs_user_id p = i \<or> prefs_user_id p = k"
    using assms(2) k unfolding FindPreferences_eq [OF assms(1)]
    by (auto simp: default_preferences_def prefs_of_row_def prefs_row_def find_Some_iff
        split: option.splits if_splits)
  then show ?thesis using uuid_in_ascii [OF k] by (auto simp: fix_prefs_def ascii_fix)
qed

subsection \<open>Coherence\<close>

text \<open>
  Every cached value is what the database gives out now.  The program never changes users or
  preferences, so all of its operations preserve this; only an update made behind its back can
  make the cache stale, for as long as the entry lives.
\<close>

definition coherent :: "database \<Rightarrow> (string \<rightharpoonup> string entry) \<Rightarrow> bool" where
  "coherent db e \<longleftrightarrow>
     (\<forall>i v t. e (user_key i) = Some (v, t) \<longrightarrow>
        (\<exists>u. v = Blob (marshal_user u) \<and> FindUserByID NoFault i db = Inr u)) \<and>
     (\<forall>i v t. e (prefs_key i) = Some (v, t) \<longrightarrow>
        (\<exists>p. v = Blob (marshal_prefs p) \<and> FindPreferences NoFault i db = Inr p))"

lemma cache_keys [simp]:
  "user_key i = user_key j \<longleftrightarrow> i = j" "prefs_key i = prefs_key j \<longleftrightarrow> i = j"
  "user_key i \<noteq> prefs_key j" "prefs_key j \<noteq> user_key i"
  by (simp_all add: user_key_def prefs_key_def)

lemma coherent_other:
  "coherent db e \<Longrightarrow> (\<And>i. e' (user_key i) = e (user_key i)) \<Longrightarrow>
   (\<And>i. e' (prefs_key i) = e (prefs_key i)) \<Longrightarrow> coherent db e'"
  by (simp add: coherent_def)

lemma coherent_put_user:
  "coherent db e \<Longrightarrow> FindUserByID NoFault i db = Inr u \<Longrightarrow>
   coherent db (e(user_key i \<mapsto> (Blob (marshal_user u), t)))"
  by (auto simp: coherent_def)

lemma coherent_put_prefs:
  "coherent db e \<Longrightarrow> FindPreferences NoFault i db = Inr p \<Longrightarrow>
   coherent db (e(prefs_key i \<mapsto> (Blob (marshal_prefs p), t)))"
  by (auto simp: coherent_def)

lemma coherentD:
  assumes "coherent db e"
  shows "e (user_key i) = Some x \<Longrightarrow>
      \<exists>u. fst x = Blob (marshal_user u) \<and> FindUserByID NoFault i db = Inr u"
    and "e (prefs_key i) = Some x \<Longrightarrow>
      \<exists>p. fst x = Blob (marshal_prefs p) \<and> FindPreferences NoFault i db = Inr p"
  using assms by (cases x; simp add: coherent_def; blast)+

definition no_rows_fault :: "fault \<Rightarrow> bool" where
  "no_rows_fault f = (case f of NoFault \<Rightarrow> False | Refused e \<Rightarrow> errors_is e PgxErrNoRows
                      | LostReply e \<Rightarrow> errors_is e PgxErrNoRows)"

lemma FindUserByID_fault: "FindUserByID f i db = Inr u \<Longrightarrow> f = NoFault"
  by (cases f) (auto simp: FindUserByID_def split: if_splits)

lemma FindPreferences_fault:
  "FindPreferences f i db = Inr p \<Longrightarrow> \<not> no_rows_fault f \<Longrightarrow> f = NoFault"
  by (cases f) (auto simp: FindPreferences_def no_rows_fault_def split: if_splits)

text \<open>A Redis server whose \<open>SET\<close> is called with a time to live it transmits exactly.\<close>

locale user_cache_server = redis_server R entry clock advance
  for R :: "('r, string) redis_ops" and entry clock advance +
  fixes ttl :: duration
  assumes ttl_whole: "whole_seconds ttl"
begin

lemma set_entry:
  "entry (snd (r_set R f k b ttl r)) = entry r \<or>
   entry (snd (r_set R f k b ttl r)) = (entry r)(k \<mapsto> (Blob b, Some (clock r + sint ttl)))"
  using set_blob [OF ttl_whole, of k b r] set_refused [of _ k b ttl r] set_lost [of _ k b ttl r]
  by (cases f) auto

lemma cached_user:
  assumes "store_ok db" "coherent db (entry r)"
  shows "(case r_get R f (user_key i) r of Inr data \<Rightarrow> unmarshal_user data | Inl err \<Rightarrow> None) = None \<or>
    (\<exists>u. (case r_get R f (user_key i) r of Inr data \<Rightarrow> unmarshal_user data | Inl err \<Rightarrow> None) = Some u \<and>
         FindUserByID NoFault i db = Inr u)"
proof (cases f)
  case NoFault
  show ?thesis
  proof (cases "entry r (user_key i)")
    case None
    then show ?thesis using get_missing NoFault by simp
  next
    case (Some x)
    then obtain u t where u: "x = (Blob (marshal_user u), t)" "FindUserByID NoFault i db = Inr u"
      using coherentD(1) [OF assms(2) Some] by (cases x) auto
    then have "user_utf8 u" using FindUserByID_user [OF assms(1)] by simp
    then show ?thesis
      using get_blob Some u NoFault by (simp add: unmarshal_marshal_user fix_user_valid)
  qed
qed (simp_all add: get_fault)

lemma cached_prefs:
  assumes "store_ok db" "coherent db (entry r)"
  shows "(case r_get R f (prefs_key i) r of Inr data \<Rightarrow> unmarshal_prefs data | Inl err \<Rightarrow> None) = None \<or>
    (\<exists>p. (case r_get R f (prefs_key i) r of Inr data \<Rightarrow> unmarshal_prefs data | Inl err \<Rightarrow> None) = Some p \<and>
         FindPreferences NoFault i db = Inr p)"
proof (cases f)
  case NoFault
  show ?thesis
  proof (cases "entry r (prefs_key i)")
    case None
    then show ?thesis using get_missing NoFault by simp
  next
    case (Some x)
    then obtain p t where p: "x = (Blob (marshal_prefs p), t)" "FindPreferences NoFault i db = Inr p"
      using coherentD(2) [OF assms(2) Some] by (cases x) auto
    then have "fix_prefs p = p" using FindPreferences_prefs [OF assms(1)] by simp
    then show ?thesis
      using get_blob Some p NoFault by (simp add: unmarshal_marshal_prefs)
  qed
qed (simp_all add: get_fault)

text \<open>The answer and the state of a lookup, in one statement each.\<close>

lemma find_user_step:
  assumes "store_ok db" "coherent db (entry r)"
  shows "(fst (UserCache_FindByID R ttl f i db r) = FindUserByID NoFault i db \<or>
          fst (UserCache_FindByID R ttl f i db r) = FindUserByID (db_fault f) i db) \<and>
         coherent db (entry (snd (UserCache_FindByID R ttl f i db r)))"
  using cached_user [OF assms, of "get_fault f" i]
proof
  assume miss: "(case r_get R (get_fault f) (user_key i) r of
      Inr data \<Rightarrow> unmarshal_user data | Inl err \<Rightarrow> None) = None"
  show ?thesis
  proof (cases "FindUserByID (db_fault f) i db")
    case (Inl e)
    then show ?thesis using miss assms(2) by (simp add: UserCache_FindByID_def Let_def)
  next
    case (Inr u)
    then have "FindUserByID NoFault i db = Inr u" using FindUserByID_fault by metis
    then show ?thesis
      using miss Inr assms(2) set_entry [of "set_fault f" "user_key i" "marshal_user u" r]
      by (auto simp: UserCache_FindByID_def Let_def coherent_put_user)
  qed
qed (use assms(2) in \<open>auto simp: UserCache_FindByID_def Let_def\<close>)

lemma find_prefs_step:
  assumes "store_ok db" "coherent db (entry r)" "\<not> no_rows_fault (db_fault f)"
  shows "(fst (UserCache_FindPreferences R ttl f i db r) = FindPreferences NoFault i db \<or>
          fst (UserCache_FindPreferences R ttl f i db r) = FindPreferences (db_fault f) i db) \<and>
         coherent db (entry (snd (UserCache_FindPreferences R ttl f i db r)))"
  using cached_prefs [OF assms(1,2), of "get_fault f" i]
proof
  assume miss: "(case r_get R (get_fault f) (prefs_key i) r of
      Inr data \<Rightarrow> unmarshal_prefs data | Inl err \<Rightarrow> None) = None"
  show ?thesis
  proof (cases "FindPreferences (db_fault f) i db")
    case (Inl e)
    then show ?thesis using miss assms(2) by (simp add: UserCache_FindPreferences_def Let_def)
  next
    case (Inr p)
    then have "FindPreferences NoFault i db = Inr p" using FindPreferences_fault assms(3) by metis
    then show ?thesis
      using miss Inr assms(2) set_entry [of "set_fault f" "prefs_key i" "marshal_prefs p" r]
      by (auto simp: UserCache_FindPreferences_def Let_def coherent_put_prefs)
  qed
qed (use assms(2) in \<open>auto simp: UserCache_FindPreferences_def Let_def\<close>)

end

definition no_cache_fault :: cache_faults where
  "no_cache_fault = \<lparr>get_fault = NoFault, db_fault = NoFault, set_fault = NoFault\<rparr>"

sublocale user_cache_server \<subseteq> cached: user_repository "NewUserCache R ttl"
  "\<lambda>db r. store_ok db \<and> coherent db (entry r)" "\<lambda>db i. FindUserByID NoFault i db"
  "\<lambda>db i. FindPreferences NoFault i db" no_cache_fault "\<lambda>f. \<not> no_rows_fault (db_fault f)"
proof (unfold_locales, goal_cases)
  case (1 d r f i)
  then show ?case using find_user_step by (simp add: NewUserCache_def)
next
  case (2 d r f i)
  then show ?case using find_prefs_step by (simp add: NewUserCache_def)
next
  case (3 d r f i u)
  then show ?case
    using find_user_step [of d r f i] FindUserByID_fault [of "db_fault f" i d u]
    by (auto simp: NewUserCache_def)
next
  case (4 d r i)
  then show ?case
    using find_user_step [of d r no_cache_fault i] by (simp add: NewUserCache_def no_cache_fault_def)
next
  case (5 d r f i p)
  then show ?case
    using find_prefs_step [of d r f i] FindPreferences_fault [of "db_fault f" i d p]
    by (auto simp: NewUserCache_def)
next
  case (6 d r i)
  then show ?case
    using find_prefs_step [of d r no_cache_fault i]
    by (simp add: NewUserCache_def no_cache_fault_def no_rows_fault_def)
qed

interpretation store_users: user_repository store_user_repo "\<lambda>db r. True"
  "\<lambda>db i. FindUserByID NoFault i db" "\<lambda>db i. FindPreferences NoFault i db" NoFault
  "\<lambda>f. \<not> no_rows_fault f"
  by unfold_locales
     (auto simp: store_user_repo_def dest: FindUserByID_fault FindPreferences_fault)

lemma five_minutes: "whole_seconds (5 * Minute)"
  by (simp add: whole_seconds_def Minute_def)

interpretation keyspace_cache: user_cache_server ks_ops ks_map ks_now ks_advance "5 * Minute"
  by unfold_locales (rule five_minutes)

subsection \<open>The program keeps the cache coherent\<close>

text \<open>No method of the Store writes users or preferences.\<close>

definition same_people :: "database \<Rightarrow> database \<Rightarrow> bool" where
  "same_people db db' \<longleftrightarrow>
     rows_of db' ''users'' = rows_of db ''users'' \<and>
     rows_of db' ''user_preferences'' = rows_of db ''user_preferences''"

lemma same_people_set_rows:
  "store_ok db \<Longrightarrow> t = ''notifications'' \<or> t = ''delivery_logs'' \<Longrightarrow> same_people db (set_rows t rs db)"
  using store_ok_tables [of db] by (auto simp: same_people_def rows_of_set_rows)

lemma same_people_faulty:
  assumes "store_ok db"
    and "(\<exists>t cs es. s = InsertInto t cs es) \<or> (\<exists>t ss cs. s = UpdateSet t ss cs)"
    and "\<And>db'. exec_stmt args s db = (None, db') \<Longrightarrow> same_people db db'"
  shows "same_people db (snd (wrap_exec pre (with_fault f (exec_stmt args s) db)))"
proof -
  obtain r db' where eq: "wrap_exec pre (with_fault f (exec_stmt args s) db) = (r, db')" by fastforce
  from faulty_exec_cases [OF assms(2) eq] have "db' = db \<or> exec_stmt args s db = (None, db')" by blast
  then show ?thesis using assms(3) eq by (auto simp: same_people_def)
qed

lemma same_people_writes:
  assumes "store_ok db"
  shows "same_people db (snd (Save f n db))" "same_people db (snd (UpdateStatus f i st db))"
    "same_people db (snd (Insert f l db))" "same_people db (snd (UpdateDeliveryStatus f i st msg db))"
proof -
  note frame = same_people_set_rows [OF assms]
  show "same_people db (snd (Save f n db))"
    unfolding Save_args by (rule same_people_faulty [OF assms])
      (use exec_Save_iff [OF assms] frame in \<open>auto simp: Save_query_def simp del: exec_stmt.simps\<close>)
  show "same_people db (snd (UpdateStatus f i st db))"
    unfolding UpdateStatus_def by (rule same_people_faulty [OF assms])
      (use exec_UpdateStatus_iff [OF assms] frame in
        \<open>auto simp: UpdateStatus_query_def simp del: exec_stmt.simps\<close>)
  show "same_people db (snd (Insert f l db))"
    unfolding Insert_args by (rule same_people_faulty [OF assms])
      (use exec_Insert_iff [OF assms] frame in \<open>auto simp: Insert_query_def simp del: exec_stmt.simps\<close>)
  show "same_people db (snd (UpdateDeliveryStatus f i st msg db))"
    unfolding UpdateDeliveryStatus_def by (rule same_people_faulty [OF assms])
      (use exec_UpdateDelivery_iff [OF assms] frame in
        \<open>auto simp: UpdateDeliveryStatus_query_def simp del: exec_stmt.simps\<close>)
qed

lemma same_people_lookups:
  assumes "store_ok db" "store_ok db'" "same_people db db'"
  shows "FindUserByID NoFault i db' = FindUserByID NoFault i db"
    "FindPreferences NoFault i db' = FindPreferences NoFault i db"
proof -
  have "user_row db' k = user_row db k" "prefs_row db' k = prefs_row db k" for k
    using assms(3) by (simp_all add: user_row_def prefs_row_def same_people_def)
  then show "FindUserByID NoFault i db' = FindUserByID NoFault i db"
    "FindPreferences NoFault i db' = FindPreferences NoFault i db"
    unfolding FindUserByID_eq [OF assms(1)] FindUserByID_eq [OF assms(2)]
      FindPreferences_eq [OF assms(1)] FindPreferences_eq [OF assms(2)]
    by (simp_all split: option.split)
qed

lemma coherent_same_people:
  "store_ok db \<Longrightarrow> store_ok db' \<Longrightarrow> same_people db db' \<Longrightarrow> coherent db e \<Longrightarrow> coherent db' e"
  by (simp add: coherent_def same_people_lookups)

lemma rate_key_other: "user_key i \<noteq> rate_key u c" "prefs_key i \<noteq> rate_key u c"
  by (simp_all add: user_key_def prefs_key_def rate_key_def)

context user_cache_server
begin

lemma coherent_Allow:
  assumes "coherent db (entry r)"
  shows "coherent db (entry (snd (Allow R l f1 f2 u c r)))"
  by (rule coherent_other [OF assms]) (simp_all add: Allow_frame rate_key_other)

lemma coherent_advance:
  assumes "coherent db (entry r)"
  shows "coherent db (entry (advance dt r))"
  using assms by (auto simp: coherent_def advance_entry split: option.splits if_splits)

end

subsection \<open>Properties\<close>

text \<open>
  C8 (equivalence).  On a cache that agrees with the database the cache is transparent.  If the query
  meets no fault, both lookups answer exactly as the Store does, values and errors, whatever happens to
  the calls of Redis; if it does, an answer that is not an error is the Store's and an error is the
  one the Store's own method returns under that fault.  Every lookup leaves the cache in agreement with
  the database.  (The failure of a query is not taken for the answer that there is no row.)
\<close>

theorem cache_transparent:
  assumes "user_cache_server R entry clock advance ttl"
    and "store_ok db" "coherent db (entry r)" "\<not> no_rows_fault (db_fault f)"
  shows "(db_fault f = NoFault \<longrightarrow>
            fst (UserCache_FindByID R ttl f i db r) = FindUserByID NoFault i db \<and>
            fst (UserCache_FindPreferences R ttl f i db r) = FindPreferences NoFault i db) \<and>
         (\<forall>u. fst (UserCache_FindByID R ttl f i db r) = Inr u \<longrightarrow>
              FindUserByID NoFault i db = Inr u) \<and>
         (\<forall>p. fst (UserCache_FindPreferences R ttl f i db r) = Inr p \<longrightarrow>
              FindPreferences NoFault i db = Inr p) \<and>
         (\<forall>err. fst (UserCache_FindByID R ttl f i db r) = Inl err \<longrightarrow>
              FindUserByID (db_fault f) i db = Inl err) \<and>
         (\<forall>err. fst (UserCache_FindPreferences R ttl f i db r) = Inl err \<longrightarrow>
              FindPreferences (db_fault f) i db = Inl err) \<and>
         coherent db (entry (snd (UserCache_FindByID R ttl f i db r))) \<and>
         coherent db (entry (snd (UserCache_FindPreferences R ttl f i db r)))"
proof -
  note step = user_cache_server.find_user_step [OF assms(1,2,3), of f i]
    user_cache_server.find_prefs_step [OF assms(1,2,3,4), of i]
  have "FindUserByID NoFault i db = Inr u"
    if "fst (UserCache_FindByID R ttl f i db r) = Inr u" for u
    using step(1) FindUserByID_fault [of "db_fault f" i db u] that by auto
  moreover have "FindPreferences NoFault i db = Inr p"
    if "fst (UserCache_FindPreferences R ttl f i db r) = Inr p" for p
    using step(2) FindPreferences_fault [OF _ assms(4), of i db p] that by auto
  moreover have "FindUserByID (db_fault f) i db = Inl err"
    if "fst (UserCache_FindByID R ttl f i db r) = Inl err" for err
    using that by (auto simp: UserCache_FindByID_def Let_def split: option.splits sum.splits)
  moreover have "FindPreferences (db_fault f) i db = Inl err"
    if "fst (UserCache_FindPreferences R ttl f i db r) = Inl err" for err
    using that by (auto simp: UserCache_FindPreferences_def Let_def split: option.splits sum.splits)
  ultimately show ?thesis using step by auto
qed

lemma alice_found: "\<exists>u. FindUserByID NoFault alice db_alice = Inr u"
proof -
  have "(case FindUserByID NoFault alice db_alice of Inr u \<Rightarrow> True | Inl e \<Rightarrow> False)" by code_simp
  then show ?thesis by (cases "FindUserByID NoFault alice db_alice") simp_all
qed

lemma cache_on_keyspace: "user_cache_server ks_ops ks_map ks_now ks_advance (5 * Minute)"
  by (rule keyspace_cache.user_cache_server_axioms)

theorem cache_transparent_witness:
  "fst (UserCache_FindByID ks_ops (5 * Minute)
      \<lparr>get_fault = Refused (Opaque ''i/o timeout''), db_fault = NoFault, set_fault = Refused (Opaque ''i/o timeout'')\<rparr>
      alice db_alice (ks_empty show_int)) = FindUserByID NoFault alice db_alice"
proof -
  let ?f = "\<lparr>get_fault = Refused (Opaque ''i/o timeout''), db_fault = NoFault,
      set_fault = Refused (Opaque ''i/o timeout'')\<rparr>"
  have empty: "coherent db_alice (ks_map (ks_empty show_int))" by (simp add: coherent_def ks_empty_def)
  have sane: "\<not> no_rows_fault (db_fault ?f)" and calm: "db_fault ?f = NoFault"
    by (simp_all add: no_rows_fault_def)
  show ?thesis
    by (rule cache_transparent [OF cache_on_keyspace store_ok_alice empty sane, THEN conjunct1, rule_format,
          OF calm, THEN conjunct1])
qed

text \<open>
  C29 (invariant).  That the cache agrees with the database is an invariant of the whole program: both
  lookups of the cache, rate limiting, time passing and every writing method of the Store, under every
  fault, keep each cached user and each cached preference equal to what the database gives out (the
  lookup of preferences unless the failure of its query is taken for the answer that there is no row).
\<close>

theorem coherence_invariant:
  assumes "user_cache_server R entry clock advance ttl"
    and "store_ok db" "coherent db (entry r)"
  shows "coherent db (entry (snd (UserCache_FindByID R ttl fc j db r))) \<and>
         (\<not> no_rows_fault (db_fault fc) \<longrightarrow>
            coherent db (entry (snd (UserCache_FindPreferences R ttl fc j db r)))) \<and>
         coherent db (entry (snd (Allow R l f1 f2 u c r))) \<and>
         coherent db (entry (advance dt r)) \<and>
         coherent (snd (Save f n db)) (entry r) \<and>
         coherent (snd (UpdateStatus f i st db)) (entry r) \<and>
         coherent (snd (Insert f lg db)) (entry r) \<and>
         coherent (snd (UpdateDeliveryStatus f i st msg db)) (entry r)"
  using user_cache_server.find_user_step [OF assms(1,2,3), of fc j, THEN conjunct2]
    user_cache_server.find_prefs_step [OF assms(1,2,3), of fc j, THEN conjunct2]
    user_cache_server.coherent_Allow [OF assms(1,3)]
    user_cache_server.coherent_advance [OF assms(1,3)]
    coherent_same_people [OF assms(2) _ same_people_writes(1) [OF assms(2)] assms(3)]
    coherent_same_people [OF assms(2) _ same_people_writes(2) [OF assms(2)] assms(3)]
    coherent_same_people [OF assms(2) _ same_people_writes(3) [OF assms(2)] assms(3)]
    coherent_same_people [OF assms(2) _ same_people_writes(4) [OF assms(2)] assms(3)]
    store_ok_Save [OF assms(2)] store_ok_UpdateStatus [OF assms(2)] store_ok_Insert [OF assms(2)]
    store_ok_UpdateDeliveryStatus [OF assms(2)]
  by simp

theorem coherence_invariant_witness:
  "coherent db_alice (ks_map (snd (UserCache_FindByID ks_ops (5 * Minute) no_cache_fault alice db_alice
      (ks_empty show_int)))) \<and>
   ks_map (snd (UserCache_FindByID ks_ops (5 * Minute) no_cache_fault alice db_alice (ks_empty show_int)))
     (user_key alice) \<noteq> None"
proof -
  have "coherent db_alice (ks_map (ks_empty show_int))" by (simp add: coherent_def ks_empty_def)
  note kept = coherence_invariant [OF cache_on_keyspace store_ok_alice this, THEN conjunct1, of no_cache_fault alice]
  obtain u where "FindUserByID NoFault alice db_alice = Inr u" using alice_found by blast
  then have "ks_map (snd (UserCache_FindByID ks_ops (5 * Minute) no_cache_fault alice db_alice
      (ks_empty show_int))) (user_key alice) \<noteq> None"
    by (simp add: UserCache_FindByID_def no_cache_fault_def ks_ops_def do_get_def do_set_def ks_empty_def)
  with kept show ?thesis by blast
qed

end
