(* ===== verification/Kafka.thy ===== *)
theory Kafka
  imports Config Wire
begin

section \<open>Kafka producer and consumer\<close>

text \<open>
  \<^verbatim>\<open>internal/kafka/producer.go\<close> and \<^verbatim>\<open>internal/kafka/consumer.go\<close>.  The \<open>kafka-go\<close> library and the
  broker are not part of the repository: \<open>put\<close> stands for \<open>Writer.WriteMessages\<close>, and the answer of
  \<open>Reader.ReadMessage\<close> is an argument of \<open>ReadOne\<close>.  The locale says what is documented of a write:
  the writer makes up to \<open>MaxAttempts\<close> attempts to deliver the message, each of which may append it to
  the topic, so the log gains some copies of it (as it was given: the partition that the balancer picks for it is not
  recorded); the source leaves \<open>MaxAttempts\<close> at its zero value, for which the library takes ten.  The writer's error does not tell how many copies there are, because the
  producer leaves \<open>RequiredAcks\<close> at its zero value, fire and forget.  Parameters stand
  for the wording of the verb \<open>%q\<close> (\<open>quote\<close>) and of the JSON decoder's errors (\<open>complaint\<close>).
\<close>

record message =
  msg_topic :: string
  msg_partition :: int
  msg_key :: string
  msg_value :: string
  msg_time :: instant
  msg_headers :: "(string \<times> string) list"

locale kafka_writer =
  fixes put :: "message \<Rightarrow> 'k \<Rightarrow> error \<times> 'k"
    and topic_log :: "'k \<Rightarrow> message list"
  assumes put_copies: "\<exists>j \<le> 10. topic_log (snd (put m k)) = topic_log k @ replicate j m"

text \<open>
  A broker that follows a script: for every write, the error the client sees and how many of the
  writer's attempts were stored.  The defaults after the script's end are those of a healthy broker.
\<close>

record broker =
  broker_log :: "message list"
  broker_script :: "(error \<times> nat) list"

definition broker_put :: "message \<Rightarrow> broker \<Rightarrow> error \<times> broker" where
  "broker_put m b =
     (case broker_script b of
        [] \<Rightarrow> (None, b\<lparr>broker_log := broker_log b @ [m]\<rparr>)
      | (e, copies) # rest \<Rightarrow>
          (e, b\<lparr>broker_log := broker_log b @ replicate (min copies 10) m, broker_script := rest\<rparr>))"

interpretation scripted: kafka_writer broker_put broker_log
proof
  show "\<exists>j \<le> 10. broker_log (snd (broker_put m k)) = broker_log k @ replicate j m" for m k
  proof (cases "broker_script k")
    case Nil
    then show ?thesis by (intro exI [of _ 1]) (simp add: broker_put_def)
  next
    case (Cons x rest)
    then show ?thesis
      by (intro exI [of _ "min (snd x) 10"]) (cases x, simp add: broker_put_def)
  qed
qed

subsection \<open>The producer\<close>

text \<open>The settings of the writer; a field the composite literal omits is zero, so
  \<open>RequiredAcks\<close> is \<open>RequireNone\<close>.\<close>

record writer_config =
  wc_addr :: string
  wc_round_robin :: bool
  wc_required_acks :: int
  wc_write_timeout :: duration
  wc_read_timeout :: duration
  wc_auto_topic :: bool

record producer =
  prod_writer :: writer_config
  prod_routing :: "string \<rightharpoonup> channel_routing"

definition NewProducer :: "kafka_config \<Rightarrow> producer" where
  "NewProducer cfg =
     \<lparr>prod_writer =
        \<lparr>wc_addr = kafka_broker_addr cfg, wc_round_robin = True, wc_required_acks = 0,
         wc_write_timeout = 5 * Second, wc_read_timeout = 5 * Second, wc_auto_topic = True\<rparr>,
      prod_routing = kafka_routing cfg\<rparr>"

definition marshal_time_error :: go_error where
  "marshal_time_error = Opaque (''json: error calling MarshalJSON for type time.Time: '' @
     ''Time.MarshalJSON: year outside of range [0,9999]'')"

definition Publish ::
    "(string \<Rightarrow> string) \<Rightarrow> int \<Rightarrow> (message \<Rightarrow> 'k \<Rightarrow> error \<times> 'k) \<Rightarrow> producer \<Rightarrow> instant
       \<Rightarrow> notification \<Rightarrow> 'k \<Rightarrow> error \<times> 'k" where
  "Publish quote tz put p now n k =
     (case prod_routing p (notif_channel n) of
        None \<Rightarrow>
          (Some (Opaque (''publish: no routing config for channel '' @ quote (notif_channel n))), k)
      | Some route \<Rightarrow>
          (case marshal_notification tz n of
             None \<Rightarrow> (Some (Wrapf ''publish: marshal notification: '' marshal_time_error []), k)
           | Some data \<Rightarrow>
               (let msg = \<lparr>msg_topic = route_topic route, msg_partition = route_partition route,
                           msg_key = notif_user_id n, msg_value = data, msg_time = now,
                           msg_headers = [(''channel'', notif_channel n),
                                          (''notification_id'', notif_id n)]\<rparr>
                in case put msg k of
                     (Some err, k') \<Rightarrow>
                       (Some (Wrapf (''publish: write to kafka [topic='' @ route_topic route @
                                     '' partition='' @ show_int (route_partition route) @ '']: '')
                                err []), k')
                   | (None, k') \<Rightarrow> (None, k'))))"

subsection \<open>The consumer\<close>

record reader_config =
  rc_brokers :: "string list"
  rc_topic :: string
  rc_group_id :: string
  rc_min_bytes :: int
  rc_max_bytes :: int
  rc_commit_interval :: duration
  rc_start_last :: bool

record consumer =
  cons_reader :: reader_config
  cons_channel :: channel

definition NewConsumer ::
    "(string \<Rightarrow> string) \<Rightarrow> kafka_config \<Rightarrow> channel \<Rightarrow> go_error + consumer" where
  "NewConsumer quote cfg ch =
     (case kafka_routing cfg ch of
        None \<Rightarrow> Inl (Opaque (''consumer: no routing config for channel '' @ quote ch))
      | Some route \<Rightarrow> Inr
          \<lparr>cons_reader =
             \<lparr>rc_brokers = [kafka_broker_addr cfg], rc_topic = route_topic route,
              rc_group_id = route_group_id route, rc_min_bytes = 1, rc_max_bytes = 2 ^ 20,
              rc_commit_interval = Second, rc_start_last = True\<rparr>,
           cons_channel = ch\<rparr>)"

text \<open>The reader's answer is an error, or the value and offset of a message.\<close>

definition ReadOne ::
    "(string \<Rightarrow> string) \<Rightarrow> consumer \<Rightarrow> go_error + (string \<times> int) \<Rightarrow> go_error + notification" where
  "ReadOne complaint c answer =
     (case answer of
        Inl err \<Rightarrow> Inl (Wrapf (''consumer ['' @ cons_channel c @ '']: read message: '') err [])
      | Inr (value, offset) \<Rightarrow>
          (case unmarshal_notification value of
             None \<Rightarrow>
               Inl (Wrapf (''consumer ['' @ cons_channel c @ '']: unmarshal message offset='' @
                           show_int offset @ '': '') (Opaque (complaint value)) [])
           | Some n \<Rightarrow> Inr n))"

context kafka_writer
begin

lemma Publish_cases:
  "snd (Publish quote tz put p now n k) = k \<or>
   (\<exists>route data m j. prod_routing p (notif_channel n) = Some route \<and>
      marshal_notification tz n = Some data \<and>
      snd (Publish quote tz put p now n k) = snd (put m k) \<and> j \<le> 10 \<and>
      topic_log (snd (Publish quote tz put p now n k)) = topic_log k @ replicate j m \<and>
      msg_topic m = route_topic route \<and> msg_partition m = route_partition route \<and>
      msg_key m = notif_user_id n \<and> msg_value m = data)"
proof (cases "prod_routing p (notif_channel n)")
  case (Some route)
  show ?thesis
  proof (cases "marshal_notification tz n")
    case (Some data)
    let ?m = "\<lparr>msg_topic = route_topic route, msg_partition = route_partition route,
        msg_key = notif_user_id n, msg_value = data, msg_time = now,
        msg_headers = [(''channel'', notif_channel n), (''notification_id'', notif_id n)]\<rparr>"
    have "snd (Publish quote tz put p now n k) = snd (put ?m k)"
      using Some \<open>prod_routing p (notif_channel n) = Some route\<close>
      by (simp add: Publish_def Let_def split: prod.split option.split)
    then show ?thesis
      using put_copies [of ?m k] Some \<open>prod_routing p (notif_channel n) = Some route\<close> by auto
  qed (simp add: Publish_def Some)
qed (simp add: Publish_def)

end

subsection \<open>Properties\<close>

text \<open>
  C27 (roundtrip).  Whatever the broker does, publishing leaves it alone or is one write of one message,
  on the channel's route and keyed by the user, of which the topic gains at most the writer's ten
  attempts and nothing else, and a consumer that reads a copy gets back exactly the notification
  that was published.
\<close>

theorem Publish_ReadOne:
  assumes "kafka_writer put topic_log" "notif_utf8 n" "\<bar>tz\<bar> < 1440"
  shows "snd (Publish quote tz put p now n k) = k \<or>
         (\<exists>m route j. snd (Publish quote tz put p now n k) = snd (put m k) \<and> j \<le> 10 \<and>
            topic_log (snd (Publish quote tz put p now n k)) = topic_log k @ replicate j m \<and>
            prod_routing p (notif_channel n) = Some route \<and> msg_topic m = route_topic route \<and>
            msg_key m = notif_user_id n \<and>
            (\<forall>c off. ReadOne complaint c (Inr (msg_value m, off)) = Inr n))"
  using kafka_writer.Publish_cases [OF assms(1), of quote tz p now n k]
    unmarshal_marshal [OF _ assms(2,3)]
  by (fastforce simp: ReadOne_def)

lemma scripted_writer: "kafka_writer broker_put broker_log"
  by (rule scripted.kafka_writer_axioms)

definition default_producer :: producer where
  "default_producer = NewProducer \<lparr>kafka_broker_addr = [], kafka_routing = default_routing\<rparr>"

definition sms_note :: notification where
  "sms_note = zero_notification
     \<lparr>notif_id := ''n1'', notif_user_id := ''u1'', notif_channel := ChannelSMS,
      notif_status := StatusPending, notif_recipient_phone := ''+4412345678''\<rparr>"

lemma sms_note_utf8: "notif_utf8 sms_note"
  by (simp add: notif_utf8_def sms_note_def zero_notification_def payload_utf8_def ascii_valid
      channel_defs status_defs byte_def)

theorem Publish_ReadOne_witness:
  "\<exists>m. broker_log (snd (Publish id 0 broker_put default_producer 0 sms_note
          \<lparr>broker_log = [], broker_script = [(None, 2)]\<rparr>)) = [m, m] \<and> msg_key m = ''u1'' \<and>
       ReadOne id \<lparr>cons_reader = undefined, cons_channel = ChannelSMS\<rparr> (Inr (msg_value m, 0))
         = Inr sms_note"
proof -
  let ?p = "default_producer" and ?b = "\<lparr>broker_log = [], broker_script = [(None, 2)]\<rparr>"
  let ?b' = "snd (Publish id 0 broker_put ?p 0 sms_note ?b)"
  have "?b' \<noteq> ?b"
    by (simp add: Publish_def default_producer_def NewProducer_def sms_note_def marshal_notification_def notification_json_def
        time_text_def year_in_range_def local_seconds_def zero_notification_def zero_time_def
        ns_per_sec_def epoch_offset_def days_before_def broker_put_def)
  then obtain m where m: "?b' = snd (broker_put m ?b)" "msg_key m = notif_user_id sms_note"
      "\<forall>c off. ReadOne id c (Inr (msg_value m, off)) = Inr sms_note"
    using Publish_ReadOne [OF scripted_writer sms_note_utf8, of 0 id ?p 0 ?b id] by auto
  then have "broker_log ?b' = [m, m]" by (simp add: broker_put_def numeral_2_eq_2)
  with m(2,3) show ?thesis by (simp add: sms_note_def)
qed

text \<open>
  A channel without a route is refused on both sides with an error and without a
  trace on the broker; the four declared channels always have one under the loaded configuration,
  and the consumers built for them read the same topic in groups of their own.
\<close>

lemma routing_total:
  "(kafka_routing cfg ch = None \<longrightarrow>
      (\<exists>e. Publish quote tz put (NewProducer cfg) now (n\<lparr>notif_channel := ch\<rparr>) k = (Some e, k)) \<and>
      (\<exists>e. NewConsumer quote cfg ch = Inl e)) \<and>
   (kafka_routing cfg = default_routing \<and> ch \<in> set all_channels \<longrightarrow>
      (\<exists>c. NewConsumer quote cfg ch = Inr c \<and> cons_channel c = ch \<and>
         rc_topic (cons_reader c) = ''notifications'' \<and>
         rc_group_id (cons_reader c) = ''worker-'' @ ch))"
  by (auto simp: Publish_def NewProducer_def NewConsumer_def all_channels_def topic_route_def)
     (simp_all add: channel_defs)

end
