(* ===== verification/Metrics.thy ===== *)
theory Metrics
  imports Domain
begin

section \<open>Prometheus series\<close>

text \<open>
  \<^verbatim>\<open>pkg/metrics/metrics.go\<close>.  One constructor per declared metric, with its label values as
  arguments in the order of the declaration; a state of the registry gives every series its count.
  A histogram is represented by its number of observations.
\<close>

datatype series =
    HTTPRequestsTotal (http_method: string) (http_path: string) (http_status: string)
  | HTTPRequestDuration string string
  | HTTPRequestsInFlight
  | NotificationsSentTotal string
  | NotificationsFailedTotal string
  | NotificationsSkippedTotal string string
  | DeliveryDuration string
  | KafkaPublishTotal string string
  | KafkaConsumerLag string
  | ActiveWorkers

type_synonym metrics = "series \<Rightarrow> int"

definition Inc :: "series \<Rightarrow> metrics \<Rightarrow> metrics" where
  "Inc x m = m(x := m x + 1)"

definition Dec :: "series \<Rightarrow> metrics \<Rightarrow> metrics" where
  "Dec x m = m(x := m x - 1)"

text \<open>One observation recorded by a histogram.\<close>

definition Observe :: "series \<Rightarrow> metrics \<Rightarrow> metrics" where
  "Observe x m = m(x := m x + 1)"

lemma metrics_apply [simp]:
  "Inc x m y = (if y = x then m y + 1 else m y)"
  "Dec x m y = (if y = x then m y - 1 else m y)"
  "Observe x m y = (if y = x then m y + 1 else m y)"
  by (simp_all add: Inc_def Dec_def Observe_def)

end
