(* ===== verification/Api.thy ===== *)
theory Api
  imports Http Jsontext Cache Kafka Metrics
begin

section \<open>The HTTP handlers\<close>

text \<open>
  \<^verbatim>\<open>internal/api/handler.go\<close>.  A handler transforms the response writer and the state of the server:
  database, Redis, broker, standard output and metrics.  Its dependencies are the handler's fields;
  what the libraries contribute (Redis commands, \<open>WriteMessages\<close>, the verb \<open>%q\<close>, the local time zone)
  is a record of parameters, and what the environment decides in one request (faults, the generated
  id, the clock) another.
\<close>

subsection \<open>Requests and responses as JSON\<close>

record send_request =
  sr_user_id :: string
  sr_channel :: string
  sr_template_id :: string
  sr_payload :: payload

definition zero_send_request :: send_request where
  "zero_send_request =
     \<lparr>sr_user_id = [], sr_channel = [], sr_template_id = [], sr_payload = None\<rparr>"

definition send_request_fields :: "string list" where
  "send_request_fields = [''user_id'', ''channel'', ''template_id'', ''payload'']"

definition store_send_request_field :: "string \<Rightarrow> jval \<Rightarrow> send_request \<Rightarrow> send_request option" where
  "store_send_request_field f v r =
     (if f = ''user_id'' then
        map_option (\<lambda>s. r\<lparr>sr_user_id := s\<rparr>) (store_string v (sr_user_id r))
      else if f = ''channel'' then
        map_option (\<lambda>s. r\<lparr>sr_channel := s\<rparr>) (store_string v (sr_channel r))
      else if f = ''template_id'' then
        map_option (\<lambda>s. r\<lparr>sr_template_id := s\<rparr>) (store_string v (sr_template_id r))
      else
        map_option (\<lambda>p. r\<lparr>sr_payload := p\<rparr>) (store_payload v (sr_payload r)))"

definition decode_send_request :: "string \<Rightarrow> send_request option" where
  "decode_send_request body =
     decode_first body \<bind>
       (\<lambda>v. store_struct send_request_fields store_send_request_field v zero_send_request)"

record send_response =
  sresp_notification_id :: string
  sresp_status :: string
  sresp_message :: string

definition send_response_json :: "send_response \<Rightarrow> jval" where
  "send_response_json r =
     JObj [(''notification_id'', JStr (sresp_notification_id r)),
           (''status'', JStr (sresp_status r)), (''message'', JStr (sresp_message r))]"

record status_response =
  stat_notification_id :: string
  stat_channel :: string
  stat_status :: string
  stat_created_at :: string

definition status_response_json :: "status_response \<Rightarrow> jval" where
  "status_response_json r =
     JObj [(''notification_id'', JStr (stat_notification_id r)),
           (''channel'', JStr (stat_channel r)), (''status'', JStr (stat_status r)),
           (''created_at'', JStr (stat_created_at r))]"

record error_response =
  err_error :: string
  err_code :: string

definition error_response_json :: "error_response \<Rightarrow> jval" where
  "error_response_json r = JObj [(''error'', JStr (err_error r)), (''code'', JStr (err_code r))]"

definition writeJSON :: "int \<Rightarrow> jval \<Rightarrow> response \<Rightarrow> response" where
  "writeJSON status body rsp =
     Write_body (json_text body @ [CHR 0x0A])
       (WriteHeader status (Header_Set ''Content-Type'' ''application/json'' rsp))"

definition writeError :: "string \<Rightarrow> string \<Rightarrow> int \<Rightarrow> response \<Rightarrow> response" where
  "writeError msg code status rsp =
     writeJSON status (error_response_json \<lparr>err_error = msg, err_code = code\<rparr>) rsp"

subsection \<open>The handler and its state\<close>

record ('f, 'd, 'r) handler =
  h_producer :: producer
  h_user_cache :: "('f, 'd, 'r) user_repo"
  h_notif_repo :: "'d notif_repo"
  h_limiter :: limiter
  h_logger :: logger

definition NewHandler ::
    "producer \<Rightarrow> ('f, 'd, 'r) user_repo \<Rightarrow> 'd notif_repo \<Rightarrow> limiter \<Rightarrow> logger \<Rightarrow> ('f, 'd, 'r) handler" where
  "NewHandler p c nr l lg =
     \<lparr>h_producer = p, h_user_cache = c, h_notif_repo = nr, h_limiter = l, h_logger = lg\<rparr>"

record ('r, 'k) libs =
  lib_redis :: "('r, string) redis_ops"
  lib_put :: "message \<Rightarrow> 'k \<Rightarrow> error \<times> 'k"
  lib_quote :: "string \<Rightarrow> string"
  lib_tz :: int

record 'f api_env =
  ae_incr :: fault
  ae_expire :: fault
  ae_user :: 'f
  ae_prefs :: 'f
  ae_save :: fault
  ae_find :: fault
  ae_id :: string
  ae_now :: instant
  ae_sent_at :: instant

record ('d, 'r, 'k) server =
  srv_db :: 'd
  srv_redis :: 'r
  srv_broker :: 'k
  srv_out :: stdout
  srv_metrics :: metrics

definition srv_log :: "logger \<Rightarrow> level \<Rightarrow> string \<Rightarrow> attrs \<Rightarrow> ('d, 'r, 'k) server \<Rightarrow> ('d, 'r, 'k) server" where
  "srv_log lg lv msg as s = s\<lparr>srv_out := emit lg lv msg as (srv_out s)\<rparr>"

definition srv_inc :: "series \<Rightarrow> ('d, 'r, 'k) server \<Rightarrow> ('d, 'r, 'k) server" where
  "srv_inc x s = s\<lparr>srv_metrics := Inc x (srv_metrics s)\<rparr>"

lemma srv_simps [simp]:
  "srv_db (srv_log lg lv msg as s) = srv_db s" "srv_redis (srv_log lg lv msg as s) = srv_redis s"
  "srv_broker (srv_log lg lv msg as s) = srv_broker s"
  "srv_metrics (srv_log lg lv msg as s) = srv_metrics s"
  "srv_db (srv_inc x s) = srv_db s" "srv_redis (srv_inc x s) = srv_redis s"
  "srv_broker (srv_inc x s) = srv_broker s" "srv_out (srv_inc x s) = srv_out s"
  "srv_metrics (srv_inc x s) = Inc x (srv_metrics s)"
  by (simp_all add: srv_log_def srv_inc_def)

subsection \<open>SendNotification\<close>

definition validChannels :: "channel list" where
  "validChannels = [ChannelIOS, ChannelAndroid, ChannelSMS, ChannelEmail]"

definition isChannelEnabled :: "channel \<Rightarrow> user_preferences \<Rightarrow> bool" where
  "isChannelEnabled ch prefs =
     (if ch = ChannelEmail then prefs_email_enabled prefs
      else if ch = ChannelSMS then prefs_sms_enabled prefs
      else if ch = ChannelIOS \<or> ch = ChannelAndroid then prefs_push_enabled prefs
      else False)"

definition new_notification :: "'f api_env \<Rightarrow> send_request \<Rightarrow> user \<Rightarrow> notification" where
  "new_notification e r u =
     \<lparr>notif_id = ae_id e, notif_user_id = sr_user_id r, notif_channel = sr_channel r,
      notif_template_id = sr_template_id r, notif_payload = sr_payload r,
      notif_status = StatusPending, notif_created_at = ae_now e, notif_scheduled_at = None,
      notif_recipient_email = user_email u, notif_recipient_phone = user_phone u,
      notif_recipient_token = user_device_token u\<rparr>"

text \<open>Steps 6 to 9: build, save, publish, answer 202.\<close>

definition enqueue ::
    "('r, 'k) libs \<Rightarrow> ('f, 'd, 'r) handler \<Rightarrow> 'f api_env \<Rightarrow> logger \<Rightarrow> send_request \<Rightarrow> user
       \<Rightarrow> response \<Rightarrow> ('d, 'r, 'k) server \<Rightarrow> response \<times> ('d, 'r, 'k) server" where
  "enqueue L h e log r u rsp s =
     (let notif = new_notification e r u in
      case nrepo_save (h_notif_repo h) (ae_save e) notif (srv_db s) of
        (Some err, d1) \<Rightarrow>
          (writeError ''internal server error'' ''INTERNAL_ERROR'' 500 rsp,
           srv_log log LevelError ''failed to save notification'' [(''error'', error_text err)]
             (s\<lparr>srv_db := d1\<rparr>))
      | (None, d1) \<Rightarrow>
          (case Publish (lib_quote L) (lib_tz L) (lib_put L) (h_producer h) (ae_sent_at e) notif
                  (srv_broker s) of
             (Some err, k1) \<Rightarrow>
               (writeError ''failed to queue notification'' ''INTERNAL_ERROR'' 500 rsp,
                srv_inc (KafkaPublishTotal (sr_channel r) ''failure'')
                  (srv_log log LevelError ''failed to publish to kafka''
                    [(''notification_id'', notif_id notif), (''channel'', notif_channel notif),
                     (''error'', error_text err)]
                    (s\<lparr>srv_db := d1, srv_broker := k1\<rparr>)))
           | (None, k1) \<Rightarrow>
               (writeJSON 202 (send_response_json
                  \<lparr>sresp_notification_id = notif_id notif, sresp_status = ''queued'',
                   sresp_message = ''notification accepted for delivery''\<rparr>) rsp,
                srv_log log LevelInfo ''notification queued''
                  [(''notification_id'', notif_id notif), (''user_id'', sr_user_id r),
                   (''channel'', notif_channel notif)]
                  (srv_inc (KafkaPublishTotal (sr_channel r) ''success'')
                    (s\<lparr>srv_db := d1, srv_broker := k1\<rparr>)))))"

text \<open>Steps 4 and 5: the user and the preferences, then on to the queue.\<close>

definition resolve ::
    "('r, 'k) libs \<Rightarrow> ('f, 'd, 'r) handler \<Rightarrow> 'f api_env \<Rightarrow> logger \<Rightarrow> send_request
       \<Rightarrow> response \<Rightarrow> ('d, 'r, 'k) server \<Rightarrow> response \<times> ('d, 'r, 'k) server" where
  "resolve L h e log r rsp s =
     (case urepo_find (h_user_cache h) (ae_user e) (sr_user_id r) (srv_db s) (srv_redis s) of
        (Inl err, r1) \<Rightarrow>
          (writeError ''user not found'' ''USER_NOT_FOUND'' 404 rsp,
           srv_log log LevelError ''failed to resolve user''
             [(''user_id'', sr_user_id r), (''error'', error_text err)] (s\<lparr>srv_redis := r1\<rparr>))
      | (Inr u, r1) \<Rightarrow>
          (case urepo_prefs (h_user_cache h) (ae_prefs e) (sr_user_id r) (srv_db s) r1 of
             (Inl err, r2) \<Rightarrow>
               (writeError ''internal server error'' ''INTERNAL_ERROR'' 500 rsp,
                srv_log log LevelError ''failed to load preferences''
                  [(''user_id'', sr_user_id r), (''error'', error_text err)] (s\<lparr>srv_redis := r2\<rparr>))
           | (Inr prefs, r2) \<Rightarrow>
               if \<not> isChannelEnabled (sr_channel r) prefs then
                 (writeJSON 200 (send_response_json
                    \<lparr>sresp_notification_id = [], sresp_status = ''skipped'',
                     sresp_message = ''user has disabled this notification channel''\<rparr>) rsp,
                  srv_inc (NotificationsSkippedTotal (sr_channel r) ''user_opted_out'')
                    (s\<lparr>srv_redis := r2\<rparr>))
               else enqueue L h e log r u rsp (s\<lparr>srv_redis := r2\<rparr>)))"

definition SendNotification ::
    "('r, 'k) libs \<Rightarrow> ('f, 'd, 'r) handler \<Rightarrow> 'f api_env \<Rightarrow> request
       \<Rightarrow> response \<Rightarrow> ('d, 'r, 'k) server \<Rightarrow> response \<times> ('d, 'r, 'k) server" where
  "SendNotification L h e req rsp s =
     (let log = With (h_logger h) [(''handler'', ''SendNotification'')] in
      case decode_send_request (rq_body req) of
        None \<Rightarrow> (writeError ''invalid request body'' ''BAD_REQUEST'' 400 rsp, s)
      | Some r \<Rightarrow>
          if sr_user_id r = [] \<or> sr_channel r = [] \<or> sr_template_id r = [] then
            (writeError ''user_id, channel, and template_id are required'' ''VALIDATION_ERROR'' 400
               rsp, s)
          else if sr_channel r \<notin> set validChannels then
            (writeError ''invalid channel: must be ios, android, sms, or email'' ''VALIDATION_ERROR''
               400 rsp, s)
          else
            (let ((allowed, err), r1) = Allow (lib_redis L) (h_limiter h) (ae_incr e) (ae_expire e)
                                          (sr_user_id r) (sr_channel r) (srv_redis s);
                 s1 = (case err of
                         None \<Rightarrow> s\<lparr>srv_redis := r1\<rparr>
                       | Some x \<Rightarrow> srv_log log LevelError ''rate limiter error, failing open''
                                    [(''error'', error_text x)] (s\<lparr>srv_redis := r1\<rparr>))
             in if \<not> allowed then
                  (writeError ''rate limit exceeded for this channel'' ''RATE_LIMITED'' 429 rsp,
                   srv_inc (NotificationsSkippedTotal (sr_channel r) ''rate_limited'') s1)
                else resolve L h e log r rsp s1))"

subsection \<open>The other handlers\<close>

definition GetNotificationStatus ::
    "('r, 'k) libs \<Rightarrow> ('f, 'd, 'r) handler \<Rightarrow> 'f api_env \<Rightarrow> request
       \<Rightarrow> response \<Rightarrow> ('d, 'r, 'k) server \<Rightarrow> response \<times> ('d, 'r, 'k) server" where
  "GetNotificationStatus L h e req rsp s =
     (let i = Query_Get (rq_query req) ''id'' in
      if i = [] then (writeError ''notification id is required'' ''BAD_REQUEST'' 400 rsp, s)
      else
        (case nrepo_find (h_notif_repo h) (ae_find e) i (srv_db s) of
           Inl err \<Rightarrow> (writeError ''notification not found'' ''NOT_FOUND'' 404 rsp, s)
         | Inr notif \<Rightarrow>
             (writeJSON 200 (status_response_json
                \<lparr>stat_notification_id = notif_id notif, stat_channel = notif_channel notif,
                 stat_status = notif_status notif,
                 stat_created_at = format_rfc3339 (lib_tz L) (notif_created_at notif)\<rparr>) rsp, s)))"

definition HealthCheck ::
    "request \<Rightarrow> response \<Rightarrow> ('d, 'r, 'k) server \<Rightarrow> response \<times> ('d, 'r, 'k) server" where
  "HealthCheck req rsp s = (writeJSON 200 (JObj [(''status'', JStr ''ok'')]) rsp, s)"

subsection \<open>Responses\<close>

lemma writeJSON_fresh [simp]:
  assumes "rsp_sent rsp = None"
  shows "rsp_sent (writeJSON code b rsp) =
      Some (code, (rsp_header rsp)(''Content-Type'' \<mapsto> ''application/json''))"
    "rsp_body (writeJSON code b rsp) = rsp_body rsp @ json_text b @ [CHR 0x0A]"
  using assms by (simp_all add: writeJSON_def byte_def in_range_def)

lemma writeError_fresh [simp]:
  assumes "rsp_sent rsp = None"
  shows "rsp_sent (writeError msg code st rsp) =
      Some (st, (rsp_header rsp)(''Content-Type'' \<mapsto> ''application/json''))"
    "rsp_body (writeError msg code st rsp) =
      rsp_body rsp @ json_text (error_response_json \<lparr>err_error = msg, err_code = code\<rparr>) @ [CHR 0x0A]"
  using assms by (simp_all add: writeError_def)

subsection \<open>Decoded requests\<close>

text \<open>What a body decodes to is valid UTF-8 throughout.\<close>

definition request_utf8 :: "send_request \<Rightarrow> bool" where
  "request_utf8 r \<longleftrightarrow> utf8_valid (sr_user_id r) \<and> utf8_valid (sr_channel r) \<and>
     utf8_valid (sr_template_id r) \<and> payload_utf8 (sr_payload r)"

lemma store_string_utf8:
  "store_string v old = Some s \<Longrightarrow> json_utf8 v \<Longrightarrow> utf8_valid old \<Longrightarrow> utf8_valid s"
  by (induction v old rule: store_string.induct) auto

definition map_utf8 :: "(string, string) fmap \<Rightarrow> bool" where
  "map_utf8 m \<longleftrightarrow> (\<forall>k x. fmlookup m k = Some x \<longrightarrow> utf8_valid k \<and> utf8_valid x)"

lemma map_utf8_simps:
  "map_utf8 fmempty" "utf8_valid k \<Longrightarrow> utf8_valid x \<Longrightarrow> map_utf8 m \<Longrightarrow> map_utf8 (fmupd k x m)"
  by (auto simp: map_utf8_def)

lemma payload_utf8_iff [simp]: "payload_utf8 None" "payload_utf8 (Some m) \<longleftrightarrow> map_utf8 m"
  by (simp add: payload_utf8_def)
     (auto simp: payload_utf8_def map_utf8_def fmlookup_dom_iff fmlookup_ran_iff)

lemma store_entries_utf8:
  "store_entries kvs m = Some m' \<Longrightarrow> list_all (\<lambda>(k, v). utf8_valid k \<and> json_utf8 v) kvs \<Longrightarrow>
   map_utf8 m \<Longrightarrow> map_utf8 m'"
proof (induction kvs m rule: store_entries.induct)
  case (2 k v kvs m)
  obtain s where s: "store_string v [] = Some s" "store_entries kvs (fmupd k s m) = Some m'"
    using "2.prems"(1) by (auto split: option.splits)
  have "utf8_valid s" using store_string_utf8 [OF s(1)] "2.prems"(2) by simp
  then show ?case using "2.IH" [OF s] "2.prems"(2,3) by (simp add: map_utf8_simps)
qed simp

lemma store_payload_utf8:
  assumes "store_payload v old = Some p" "json_utf8 v" "payload_utf8 old"
  shows "payload_utf8 p"
proof (cases v)
  case (JObj kvs)
  then obtain m where m: "p = Some m"
      "store_entries kvs (case old of None \<Rightarrow> fmempty | Some m \<Rightarrow> m) = Some m"
    using assms(1) by auto
  have "map_utf8 (case old of None \<Rightarrow> fmempty | Some m \<Rightarrow> m)"
    using assms(3) by (cases old) (simp_all add: map_utf8_simps)
  then show ?thesis using store_entries_utf8 [OF m(2)] assms(2) JObj m(1) by simp
qed (use assms in simp_all)

lemma store_send_request_field_utf8:
  "store_send_request_field f v r = Some r' \<Longrightarrow> json_utf8 v \<Longrightarrow> request_utf8 r \<Longrightarrow> request_utf8 r'"
  by (auto simp: store_send_request_field_def request_utf8_def split: if_splits
      intro: store_string_utf8 store_payload_utf8)

lemma decode_send_request_utf8:
  assumes "decode_send_request body = Some r"
  shows "request_utf8 r"
proof -
  obtain v where v: "decode_first body = Some v"
      "store_struct send_request_fields store_send_request_field v zero_send_request = Some r"
    using assms by (auto simp: decode_send_request_def bind_eq_Some_conv)
  have zero: "request_utf8 zero_send_request"
    by (simp add: request_utf8_def zero_send_request_def)
  have members: "request_utf8 r'"
    if "store_members send_request_fields store_send_request_field kvs r0 = Some r'" "request_utf8 r0"
      "list_all (\<lambda>(k, v). utf8_valid k \<and> json_utf8 v) kvs" for kvs r0 r'
    using that
  proof (induction kvs arbitrary: r0)
    case (Cons a kvs)
    then show ?case
      by (cases a) (auto split: option.splits dest: store_send_request_field_utf8)
  qed simp
  show ?thesis
    using v(2) zero members decode_first_utf8 [OF v(1)]
    by (auto simp: store_struct_def split: jval.splits)
qed

end
