(* ===== verification/Intake.thy ===== *)
theory Intake
  imports Api
begin

section \<open>What the API accepts\<close>

text \<open>
  \<open>SendNotification\<close> relies on the interfaces alone: the user repository, the notification repository
  and the Kafka writer.  The locale collects what it may rely on; the instance is the handler that
  \<^verbatim>\<open>cmd/server/main.go\<close> builds, with the cache in front of the Store.
\<close>

text \<open>The body of a 202 for notification \<open>i\<close>.\<close>

definition queued_body :: "string \<Rightarrow> string" where
  "queued_body i = json_text (send_response_json
     \<lparr>sresp_notification_id = i, sresp_status = ''queued'',
      sresp_message = ''notification accepted for delivery''\<rparr>) @ [CHR 0x0A]"

locale api_contract =
  people: user_repository U goodU directory settings nofault sane +
  stored: notification_repository N goodN kept users key +
  topic: kafka_writer put topic_log
  for U :: "('f, 'd, 'r) user_repo" and goodU directory settings nofault sane
    and N :: "'d notif_repo" and goodN kept users key
    and put :: "message \<Rightarrow> 'k \<Rightarrow> error \<times> 'k" and topic_log +
  fixes L :: "('r, 'k) libs" and h :: "('f, 'd, 'r) handler"
  assumes parts: "h_user_cache h = U" "h_notif_repo h = N" "lib_put L = put"
    and allow_goodU: "goodU d r \<Longrightarrow> goodU d (snd (Allow (lib_redis L) (h_limiter h) f1 f2 u c r))"
    and save_goodU: "goodN d \<Longrightarrow> goodU d r \<Longrightarrow> goodU (snd (nrepo_save N f n d)) r"
begin

text \<open>The four ways a request ends, with what each has done.\<close>

lemma enqueue_cases:
  assumes "rsp_sent rsp = None" "enqueue L h e lg r u rsp s = (rsp', s')"
  obtains (unsaved) err where "nrepo_save N (ae_save e) (new_notification e r u) (srv_db s) = (Some err, srv_db s')"
      "srv_broker s' = srv_broker s" "srv_redis s' = srv_redis s" "status_of rsp' = 500"
  | (saved) err where "nrepo_save N (ae_save e) (new_notification e r u) (srv_db s) = (None, srv_db s')"
      "Publish (lib_quote L) (lib_tz L) put (h_producer h) (ae_sent_at e) (new_notification e r u)
         (srv_broker s) = (err, srv_broker s')"
      "srv_redis s' = srv_redis s" "status_of rsp' = (if err = None then 202 else 500)"
      "err = None \<Longrightarrow> rsp_body rsp' = rsp_body rsp @ queued_body (ae_id e)"
proof (cases "nrepo_save N (ae_save e) (new_notification e r u) (srv_db s)")
  case (Pair x d1)
  show thesis
  proof (cases x)
    case None
    obtain y k1 where pub: "Publish (lib_quote L) (lib_tz L) put (h_producer h) (ae_sent_at e)
        (new_notification e r u) (srv_broker s) = (y, k1)" by fastforce
    have "notif_id (new_notification e r u) = ae_id e" by (simp add: new_notification_def)
    with None Pair pub assms show thesis
      by (intro saved [of y]) (auto simp: enqueue_def Let_def parts queued_body_def split: option.splits)
  next
    case (Some err)
    with Pair assms show thesis
      by (intro unsaved [of err]) (auto simp: enqueue_def Let_def parts)
  qed
qed

lemma resolve_cases:
  assumes good: "goodU (srv_db s) (srv_redis s)" and sane: "sane (ae_prefs e)"
    and "rsp_sent rsp = None" "resolve L h e lg r rsp s = (rsp', s')"
  obtains (refused) "srv_db s' = srv_db s" "srv_broker s' = srv_broker s"
      "goodU (srv_db s') (srv_redis s')" "status_of rsp' \<in> {404, 500}"
  | (skipped) prefs where "settings (srv_db s) (sr_user_id r) = Inr prefs"
      "\<not> isChannelEnabled (sr_channel r) prefs"
      "srv_db s' = srv_db s" "srv_broker s' = srv_broker s"
      "goodU (srv_db s') (srv_redis s')" "status_of rsp' = 200"
  | (enqueued) u prefs s1 where "directory (srv_db s) (sr_user_id r) = Inr u"
      "settings (srv_db s) (sr_user_id r) = Inr prefs" "isChannelEnabled (sr_channel r) prefs"
      "srv_db s1 = srv_db s" "srv_broker s1 = srv_broker s" "goodU (srv_db s1) (srv_redis s1)"
      "enqueue L h e lg r u rsp s1 = (rsp', s')"
proof (cases "urepo_find U (ae_user e) (sr_user_id r) (srv_db s) (srv_redis s)")
  case (Pair x r1)
  have good1: "goodU (srv_db s) r1"
    using people.good_find [OF good, of "ae_user e" "sr_user_id r"] Pair by simp
  show thesis
  proof (cases x)
    case (Inl err)
    with Pair assms good1 show thesis by (intro refused) (auto simp: resolve_def parts)
  next
    case (Inr u)
    have dir: "directory (srv_db s) (sr_user_id r) = Inr u"
      using people.find_ok [OF good, of "ae_user e"] Pair Inr by simp
    obtain y r2 where prefs: "urepo_prefs U (ae_prefs e) (sr_user_id r) (srv_db s) r1 = (y, r2)"
      by fastforce
    have good2: "goodU (srv_db s) r2"
      using people.good_prefs [OF good1 sane, of "sr_user_id r"] prefs by simp
    show thesis
    proof (cases y)
      case (Inl err)
      with Inr Pair prefs assms good2 show thesis
        by (intro refused) (auto simp: resolve_def parts)
    next
      case y: (Inr p)
      have set: "settings (srv_db s) (sr_user_id r) = Inr p"
        using people.prefs_ok [OF good1 sane] prefs y by simp
      show thesis
      proof (cases "isChannelEnabled (sr_channel r) p")
        case True
        with y Inr Pair prefs assms good2 dir set show thesis
          by (intro enqueued [of u p "s\<lparr>srv_redis := r2\<rparr>"]) (auto simp: resolve_def parts)
      next
        case False
        with y Inr Pair prefs assms good2 set show thesis
          by (intro skipped [of p]) (auto simp: resolve_def parts)
      qed
    qed
  qed
qed

lemma send_cases:
  assumes good: "goodU (srv_db s) (srv_redis s)" and sane: "sane (ae_prefs e)"
    and fresh: "rsp_sent rsp = None" and run: "SendNotification L h e req rsp s = (rsp', s')"
  obtains (refused) "srv_db s' = srv_db s" "srv_broker s' = srv_broker s"
      "goodU (srv_db s') (srv_redis s')" "status_of rsp' \<in> {400, 404, 429, 500}"
  | (skipped) r prefs where "decode_send_request (rq_body req) = Some r"
      "settings (srv_db s) (sr_user_id r) = Inr prefs" "\<not> isChannelEnabled (sr_channel r) prefs"
      "srv_db s' = srv_db s" "srv_broker s' = srv_broker s"
      "goodU (srv_db s') (srv_redis s')" "status_of rsp' = 200"
  | (enqueued) r u prefs lg s1 where "decode_send_request (rq_body req) = Some r"
      "sr_user_id r \<noteq> []" "sr_template_id r \<noteq> []" "sr_channel r \<in> set validChannels"
      "fst (fst (Allow (lib_redis L) (h_limiter h) (ae_incr e) (ae_expire e) (sr_user_id r)
         (sr_channel r) (srv_redis s)))"
      "directory (srv_db s) (sr_user_id r) = Inr u"
      "settings (srv_db s) (sr_user_id r) = Inr prefs" "isChannelEnabled (sr_channel r) prefs"
      "srv_db s1 = srv_db s" "srv_broker s1 = srv_broker s" "goodU (srv_db s1) (srv_redis s1)"
      "enqueue L h e lg r u rsp s1 = (rsp', s')"
proof (cases "decode_send_request (rq_body req)")
  case None
  with run fresh good show thesis by (intro refused) (auto simp: SendNotification_def Let_def)
next
  case (Some r)
  show thesis
  proof (cases "sr_user_id r = [] \<or> sr_channel r = [] \<or> sr_template_id r = [] \<or>
      sr_channel r \<notin> set validChannels")
    case True
    with Some run fresh good show thesis
      by (intro refused) (auto simp: SendNotification_def Let_def split: if_splits)
  next
    case valid: False
    obtain ok err r1 where allow: "Allow (lib_redis L) (h_limiter h) (ae_incr e) (ae_expire e)
        (sr_user_id r) (sr_channel r) (srv_redis s) = ((ok, err), r1)"
      by (metis prod.exhaust)
    let ?lg = "With (h_logger h) [(''handler'', ''SendNotification'')]"
    define s1 where "s1 = (case err of
        None \<Rightarrow> s\<lparr>srv_redis := r1\<rparr>
      | Some x \<Rightarrow> srv_log ?lg LevelError ''rate limiter error, failing open''
                   [(''error'', error_text x)] (s\<lparr>srv_redis := r1\<rparr>))"
    have s1: "srv_db s1 = srv_db s" "srv_broker s1 = srv_broker s" "srv_redis s1 = r1"
      by (simp_all add: s1_def split: option.split)
    have good1: "goodU (srv_db s1) (srv_redis s1)"
      using allow_goodU [OF good, of "ae_incr e" "ae_expire e" "sr_user_id r" "sr_channel r"] allow s1
      by simp
    show thesis
    proof (cases ok)
      case False
      with Some valid allow run fresh s1 good1 show thesis
        by (intro refused) (auto simp: SendNotification_def Let_def s1_def [symmetric])
    next
      case True
      with Some valid allow run have go: "resolve L h e ?lg r rsp s1 = (rsp', s')"
        by (auto simp: SendNotification_def Let_def s1_def [symmetric])
      from good1 sane fresh go show thesis
      proof (cases rule: resolve_cases)
        case refused
        with s1 show thesis by (intro that(1)) auto
      next
        case (skipped prefs)
        with s1 Some show thesis by (intro that(2)) auto
      next
        case (enqueued u prefs s2)
        with s1 Some valid allow True show thesis by (intro that(3)) auto
      qed
    qed
  qed
qed

lemma send_good:
  assumes "goodN (srv_db s)" "goodU (srv_db s) (srv_redis s)" "sane (ae_prefs e)"
    and "rsp_sent rsp = None" "SendNotification L h e req rsp s = (rsp', s')"
  shows "goodN (srv_db s') \<and> goodU (srv_db s') (srv_redis s')"
  using assms(2-)
proof (cases rule: send_cases)
  case (enqueued r u prefs lg s1)
  have "goodN (snd (nrepo_save N f n (srv_db s1)))"
      "goodU (snd (nrepo_save N f n (srv_db s1))) (srv_redis s1)" for f n
    using stored.good_save save_goodU assms(1) enqueued(9,11) by simp_all
  with assms(4) enqueued(12) show ?thesis
    by (cases rule: enqueue_cases) (metis snd_conv)+
qed (use assms in auto)

text \<open>A success, or a new message on the topic, means that all the checks were passed and that the
  notification was stored first.\<close>

lemma send_accepted:
  assumes "goodN (srv_db s)" "goodU (srv_db s) (srv_redis s)" "sane (ae_prefs e)"
    and "rsp_sent rsp = None" "SendNotification L h e req rsp s = (rsp', s')"
    and "status_of rsp' = 202 \<or> topic_log (srv_broker s') \<noteq> topic_log (srv_broker s) \<or>
         kept (srv_db s') \<noteq> kept (srv_db s)"
  obtains r u prefs err i uid where "decode_send_request (rq_body req) = Some r"
    "sr_channel r \<in> set validChannels"
    "fst (fst (Allow (lib_redis L) (h_limiter h) (ae_incr e) (ae_expire e) (sr_user_id r)
       (sr_channel r) (srv_redis s)))"
    "directory (srv_db s) (sr_user_id r) = Inr u"
    "settings (srv_db s) (sr_user_id r) = Inr prefs" "isChannelEnabled (sr_channel r) prefs"
    "key (ae_id e) = Some i" "key (sr_user_id r) = Some uid"
    "i \<notin> notif_id ` set (kept (srv_db s))"
    "kept (srv_db s') = kept (srv_db s) @ [stored_notif i uid (new_notification e r u)]"
    "topic_log (srv_broker s') = topic_log (srv_broker s) \<or>
     nrepo_save N (ae_save e) (new_notification e r u) (srv_db s) = (None, srv_db s') \<and>
     (\<exists>err. Publish (lib_quote L) (lib_tz L) put (h_producer h) (ae_sent_at e)
        (new_notification e r u) (srv_broker s) = (err, srv_broker s'))"
    "status_of rsp' = 202 \<Longrightarrow>
     nrepo_save N (ae_save e) (new_notification e r u) (srv_db s) = (None, srv_db s') \<and>
     rsp_body rsp' = rsp_body rsp @ queued_body (ae_id e)"
  using assms(2-5)
proof (cases rule: send_cases)
  case refused
  with assms(6) show thesis by auto
next
  case (skipped r prefs)
  with assms(6) show thesis by auto
next
  case (enqueued r u prefs lg s1)
  let ?n = "new_notification e r u"
  have n: "notif_id ?n = ae_id e" "notif_user_id ?n = sr_user_id r"
    by (simp_all add: new_notification_def)
  from assms(4) enqueued(12) show thesis
  proof (cases rule: enqueue_cases)
    case (unsaved err)
    have "kept (srv_db s') = kept (srv_db s) \<or> (\<exists>i uid. key (ae_id e) = Some i \<and>
        key (sr_user_id r) = Some uid \<and> i \<notin> notif_id ` set (kept (srv_db s)) \<and>
        kept (srv_db s') = kept (srv_db s) @ [stored_notif i uid ?n])"
      using stored.save_err [OF assms(1), of "ae_save e" ?n err "srv_db s'"] unsaved(1) enqueued(9) n
      by auto
    with unsaved enqueued assms(6) obtain i uid where "key (ae_id e) = Some i"
        "key (sr_user_id r) = Some uid" "i \<notin> notif_id ` set (kept (srv_db s))"
        "kept (srv_db s') = kept (srv_db s) @ [stored_notif i uid ?n]"
      by auto
    with unsaved enqueued show thesis by (intro that [of r u prefs i uid]) auto
  next
    case (saved err)
    then obtain i uid where "key (ae_id e) = Some i" "key (sr_user_id r) = Some uid"
        "i \<notin> notif_id ` set (kept (srv_db s))"
        "kept (srv_db s') = kept (srv_db s) @ [stored_notif i uid ?n]"
      using stored.save_ok [OF assms(1), of "ae_save e" ?n "srv_db s'"] saved(1) enqueued(9) n
      by auto
    with saved enqueued show thesis by (intro that [of r u prefs i uid]) (auto split: if_splits)
  qed
qed

end

lemma send_succeeds:
  assumes "rsp_sent rsp = None" "decode_send_request (rq_body req) = Some r"
    and "sr_user_id r \<noteq> []" "sr_template_id r \<noteq> []" "sr_channel r \<in> set validChannels"
    and "Allow (lib_redis L) (h_limiter h) (ae_incr e) (ae_expire e) (sr_user_id r) (sr_channel r)
           (srv_redis s) = ((True, err), r1)"
    and "urepo_find (h_user_cache h) (ae_user e) (sr_user_id r) (srv_db s) r1 = (Inr u, r2)"
    and "urepo_prefs (h_user_cache h) (ae_prefs e) (sr_user_id r) (srv_db s) r2 = (Inr prefs, r3)"
    and "isChannelEnabled (sr_channel r) prefs"
    and "nrepo_save (h_notif_repo h) (ae_save e) (new_notification e r u) (srv_db s) = (None, d')"
    and "Publish (lib_quote L) (lib_tz L) (lib_put L) (h_producer h) (ae_sent_at e)
           (new_notification e r u) (srv_broker s) = (None, k')"
  shows "\<exists>rsp' s'. SendNotification L h e req rsp s = (rsp', s') \<and> status_of rsp' = 202 \<and>
    srv_db s' = d' \<and> srv_redis s' = r3 \<and> srv_broker s' = k'"
proof -
  have "sr_channel r \<noteq> []" using assms(5) by (auto simp: validChannels_def channel_defs)
  then show ?thesis
    using assms
    by (cases err) (auto simp: SendNotification_def resolve_def enqueue_def Let_def)
qed

subsection \<open>The handler of the server\<close>

context user_cache_server
begin

lemma cache_is_repository:
  "user_repository (NewUserCache R ttl) (\<lambda>db r. store_ok db \<and> coherent db (entry r))
     (\<lambda>db i. FindUserByID NoFault i db) (\<lambda>db i. FindPreferences NoFault i db) no_cache_fault
     (\<lambda>f. \<not> no_rows_fault (db_fault f))"
  by unfold_locales

end

definition server_handler ::
    "('r, string) redis_ops \<Rightarrow> duration \<Rightarrow> producer \<Rightarrow> limiter \<Rightarrow> logger
       \<Rightarrow> (cache_faults, database, 'r) handler" where
  "server_handler R ttl p l lg = NewHandler p (NewUserCache R ttl) store_notif_repo l lg"

lemma server_handler_parts [simp]:
  "h_user_cache (server_handler R ttl p l lg) = NewUserCache R ttl"
  "h_notif_repo (server_handler R ttl p l lg) = store_notif_repo"
  "h_producer (server_handler R ttl p l lg) = p" "h_limiter (server_handler R ttl p l lg) = l"
  "h_logger (server_handler R ttl p l lg) = lg"
  by (simp_all add: server_handler_def NewHandler_def)

lemma api_wired:
  assumes "user_cache_server R entry clock advance ttl" "kafka_writer put topic_log"
    and "lib_redis L = R" "lib_put L = put"
  shows "api_contract (NewUserCache R ttl) (\<lambda>db r. store_ok db \<and> coherent db (entry r))
    (\<lambda>db i. FindUserByID NoFault i db) (\<lambda>db i. FindPreferences NoFault i db) no_cache_fault
    (\<lambda>f. \<not> no_rows_fault (db_fault f)) store_notif_repo store_ok notifs user_ids uuid_in
    put topic_log L (server_handler R ttl p l lg)"
proof (intro api_contract.intro api_contract_axioms.intro assms(2)
    store_notifs.notification_repository_axioms)
  show "user_repository (NewUserCache R ttl) (\<lambda>db r. store_ok db \<and> coherent db (entry r))
      (\<lambda>db i. FindUserByID NoFault i db) (\<lambda>db i. FindPreferences NoFault i db) no_cache_fault
      (\<lambda>f. \<not> no_rows_fault (db_fault f))"
    by (rule user_cache_server.cache_is_repository [OF assms(1)])
next
  fix d r f1 f2 u c
  assume "store_ok d \<and> coherent d (entry r)"
  then show "store_ok d \<and> coherent d (entry (snd (Allow (lib_redis L)
      (h_limiter (server_handler R ttl p l lg)) f1 f2 u c r)))"
    using user_cache_server.coherent_Allow [OF assms(1)] assms(3) by simp
next
  fix d r f n
  assume "store_ok d" "store_ok d \<and> coherent d (entry r)"
  then show "store_ok (snd (nrepo_save store_notif_repo f n d)) \<and>
      coherent (snd (nrepo_save store_notif_repo f n d)) (entry r)"
    using coherent_same_people [OF _ store_ok_Save same_people_writes(1)]
    by (simp add: store_notif_repo_def store_ok_Save)
qed (use assms in simp_all)

interpretation keyspace_api: api_contract "NewUserCache ks_ops (5 * Minute)"
  "\<lambda>db r. store_ok db \<and> coherent db (ks_map r)" "\<lambda>db i. FindUserByID NoFault i db"
  "\<lambda>db i. FindPreferences NoFault i db" no_cache_fault "\<lambda>f. \<not> no_rows_fault (db_fault f)"
  store_notif_repo store_ok notifs user_ids uuid_in broker_put broker_log
  "\<lparr>lib_redis = ks_ops, lib_put = broker_put, lib_quote = q, lib_tz = tz\<rparr>"
  "server_handler ks_ops (5 * Minute) p l lg" for q tz p l lg
  by (rule api_wired [OF cache_on_keyspace scripted_writer]) simp_all

lemma new_notification_utf8:
  assumes "decode_send_request body = Some r" "user_utf8 u" "uuid_in (ae_id e) = Some i"
  shows "notif_utf8 (new_notification e r u)"
proof -
  have "utf8_valid StatusPending"
    by (rule ascii_valid) (simp add: StatusPending_def byte_def)
  then show ?thesis
    using decode_send_request_utf8 [OF assms(1)] assms(2) ascii_utf8 uuid_in_ascii [OF assms(3)]
    by (simp add: notif_utf8_def new_notification_def request_utf8_def user_utf8_def)
qed

lemma published_message:
  assumes "kafka_writer put topic_log" "notif_utf8 n" "\<bar>tz\<bar> < 1440"
  shows "\<exists>j m. j \<le> 10 \<and> topic_log (snd (Publish quote tz put p now n k)) = topic_log k @ replicate j m \<and>
    (0 < j \<longrightarrow> (\<forall>complaint c off. ReadOne complaint c (Inr (msg_value m, off)) = Inr n))"
  using kafka_writer.Publish_cases [OF assms(1), of quote tz p now n k]
proof (elim disjE exE conjE)
  fix route data m j
  assume "marshal_notification tz n = Some data" "msg_value m = data" "j \<le> 10"
    and "topic_log (snd (Publish quote tz put p now n k)) = topic_log k @ replicate j m"
  then show ?thesis
    using unmarshal_marshal [OF _ assms(2,3)] by (intro exI [of _ j] exI [of _ m]) (auto simp: ReadOne_def)
qed (auto intro: exI [of _ 0])

subsection \<open>Properties\<close>

text \<open>
  C9 (safety).  Nothing is queued or answered 202 that is not fit for delivery: with a cache that agrees
  with the database, whenever a request is
  answered 202 or puts a message on the topic, the database knows the user and its preferences
  enable the channel, a new notification with status pending and the user's contact data is in the
  database, and what is on the topic, as many copies as the writer's attempts left there, reads back as
  exactly that notification; a 202 names its id.  Whatever the answer and the faults, the database
  keeps its integrity and the cache its coherence.
\<close>

theorem SendNotification_stores_first:
  assumes "user_cache_server R entry clock advance ttl" "kafka_writer put topic_log"
    and "lib_redis L = R" "lib_put L = put" "\<bar>lib_tz L\<bar> < 1440"
    and "store_ok (srv_db s)" "coherent (srv_db s) (entry (srv_redis s))"
    and "\<not> no_rows_fault (db_fault (ae_prefs e))" "rsp_sent rsp = None"
    and "SendNotification L (server_handler R ttl p l lg) e req rsp s = (rsp', s')"
  shows "store_ok (srv_db s') \<and> coherent (srv_db s') (entry (srv_redis s')) \<and>
    (status_of rsp' = 202 \<or> topic_log (srv_broker s') \<noteq> topic_log (srv_broker s) \<longrightarrow>
      (\<exists>r u prefs i. decode_send_request (rq_body req) = Some r \<and>
         FindUserByID NoFault (sr_user_id r) (srv_db s) = Inr u \<and>
         FindPreferences NoFault (sr_user_id r) (srv_db s) = Inr prefs \<and>
         isChannelEnabled (sr_channel r) prefs \<and> uuid_in (ae_id e) = Some i \<and>
         notifs (srv_db s') =
           notifs (srv_db s) @ [stored_notif i (user_id u) (new_notification e r u)] \<and>
         (status_of rsp' = 202 \<longrightarrow>
            rsp_body rsp' = rsp_body rsp @ queued_body (notif_id (new_notification e r u))) \<and>
         (\<exists>j m. j \<le> 10 \<and> topic_log (srv_broker s') = topic_log (srv_broker s) @ replicate j m \<and>
            (0 < j \<longrightarrow> (\<forall>complaint c off.
               ReadOne complaint c (Inr (msg_value m, off)) = Inr (new_notification e r u))))))"
proof -
  let ?h = "server_handler R ttl p l lg"
  note W = api_wired [OF assms(1-4), of p l lg]
  have U: "store_ok (srv_db s) \<and> coherent (srv_db s) (entry (srv_redis s))" using assms(6,7) by simp
  note args = assms(6) U assms(8,9,10)
  have "store_ok (srv_db s') \<and> coherent (srv_db s') (entry (srv_redis s'))"
    using api_contract.send_good [OF W args] by simp
  moreover have "(\<exists>r u prefs i. decode_send_request (rq_body req) = Some r \<and>
       FindUserByID NoFault (sr_user_id r) (srv_db s) = Inr u \<and>
       FindPreferences NoFault (sr_user_id r) (srv_db s) = Inr prefs \<and>
       isChannelEnabled (sr_channel r) prefs \<and> uuid_in (ae_id e) = Some i \<and>
       notifs (srv_db s') =
         notifs (srv_db s) @ [stored_notif i (user_id u) (new_notification e r u)] \<and>
       (status_of rsp' = 202 \<longrightarrow>
          rsp_body rsp' = rsp_body rsp @ queued_body (notif_id (new_notification e r u))) \<and>
       (\<exists>j m. j \<le> 10 \<and> topic_log (srv_broker s') = topic_log (srv_broker s) @ replicate j m \<and>
          (0 < j \<longrightarrow> (\<forall>complaint c off.
             ReadOne complaint c (Inr (msg_value m, off)) = Inr (new_notification e r u)))))"
    if "status_of rsp' = 202 \<or> topic_log (srv_broker s') \<noteq> topic_log (srv_broker s)"
  proof -
    from that have cause: "status_of rsp' = 202 \<or> topic_log (srv_broker s') \<noteq> topic_log (srv_broker s) \<or>
        notifs (srv_db s') \<noteq> notifs (srv_db s)" by blast
    show ?thesis
    proof (rule api_contract.send_accepted [OF W args cause])
      fix r u prefs err i uid
      assume r: "decode_send_request (rq_body req) = Some r"
        and dir: "FindUserByID NoFault (sr_user_id r) (srv_db s) = Inr u"
        and prefs: "FindPreferences NoFault (sr_user_id r) (srv_db s) = Inr prefs"
          "isChannelEnabled (sr_channel r) prefs"
        and ids: "uuid_in (ae_id e) = Some i" "uuid_in (sr_user_id r) = Some uid"
        and kept: "notifs (srv_db s') = notifs (srv_db s) @ [stored_notif i uid (new_notification e r u)]"
        and topic: "topic_log (srv_broker s') = topic_log (srv_broker s) \<or>
          nrepo_save store_notif_repo (ae_save e) (new_notification e r u) (srv_db s) = (None, srv_db s') \<and>
          (\<exists>err. Publish (lib_quote L) (lib_tz L) put (h_producer ?h) (ae_sent_at e)
             (new_notification e r u) (srv_broker s) = (err, srv_broker s'))"
        and answer: "status_of rsp' = 202 \<Longrightarrow>
          nrepo_save store_notif_repo (ae_save e) (new_notification e r u) (srv_db s) = (None, srv_db s') \<and>
          rsp_body rsp' = rsp_body rsp @ queued_body (ae_id e)"
      from FindUserByID_user [OF assms(6) dir] ids(2) have u: "user_utf8 u" "user_id u = uid" by auto
      have "\<exists>j m. j \<le> 10 \<and> topic_log (srv_broker s') = topic_log (srv_broker s) @ replicate j m \<and>
          (0 < j \<longrightarrow> (\<forall>complaint c off.
             ReadOne complaint c (Inr (msg_value m, off)) = Inr (new_notification e r u)))"
        using topic
      proof (elim disjE conjE exE)
        fix err
        assume "Publish (lib_quote L) (lib_tz L) put (h_producer ?h) (ae_sent_at e)
          (new_notification e r u) (srv_broker s) = (err, srv_broker s')"
        with published_message [OF assms(2) new_notification_utf8 [OF r u(1) ids(1)] assms(5),
            of "lib_quote L" "h_producer ?h" "ae_sent_at e" "srv_broker s"]
        show ?thesis by (metis snd_conv)
      qed (auto intro: exI [of _ 0])
      moreover have "status_of rsp' = 202 \<longrightarrow>
          rsp_body rsp' = rsp_body rsp @ queued_body (notif_id (new_notification e r u))"
        using answer by (simp add: new_notification_def)
      ultimately show ?thesis using r dir prefs ids(1) kept u(2) by blast
    qed
  qed
  ultimately show ?thesis by blast
qed

lemma server_example_setup:
  "user_cache_server ks_ops ks_map ks_now ks_advance (5 * Minute)" "kafka_writer broker_put broker_log"
  by (rule cache_on_keyspace, rule scripted_writer)

text \<open>A server in front of \<open>db_alice\<close>, and a request for her.\<close>

definition ex_libs :: "(string keyspace, broker) libs" where
  "ex_libs = \<lparr>lib_redis = ks_ops, lib_put = broker_put, lib_quote = id, lib_tz = 0\<rparr>"

definition ex_handler :: "(cache_faults, database, string keyspace) handler" where
  "ex_handler = server_handler ks_ops (5 * Minute) default_producer (NewLimiter 100 Hour) NewLogger"

definition ex_server :: "database \<Rightarrow> (database, string keyspace, broker) server" where
  "ex_server db =
     \<lparr>srv_db = db, srv_redis = ks_empty show_int, srv_broker = \<lparr>broker_log = [], broker_script = []\<rparr>,
      srv_out = [], srv_metrics = (\<lambda>_. 0)\<rparr>"

definition ex_env :: "string \<Rightarrow> cache_faults api_env" where
  "ex_env i =
     \<lparr>ae_incr = NoFault, ae_expire = NoFault, ae_user = no_cache_fault, ae_prefs = no_cache_fault,
      ae_save = NoFault, ae_find = NoFault, ae_id = i, ae_now = 1700000000123456789,
      ae_sent_at = 1700000000123456789\<rparr>"

definition ex_request :: "channel \<Rightarrow> request" where
  "ex_request ch =
     \<lparr>rq_method = ''POST'', rq_path = ''/api/v1/notify'', rq_raw_path = [], rq_query = [],
      rq_header = Map.empty,
      rq_body = json_text (JObj [(''user_id'', JStr alice), (''channel'', JStr ch),
                                 (''template_id'', JStr ''welcome'')]),
      rq_ctx = []\<rparr>"

lemma ex_simps [simp]:
  "lib_redis ex_libs = ks_ops" "lib_put ex_libs = broker_put" "lib_tz ex_libs = 0"
  "srv_db (ex_server db) = db" "srv_redis (ex_server db) = ks_empty show_int"
  "broker_log (srv_broker (ex_server db)) = []"
  "rsp_sent fresh_response = None" "rsp_body fresh_response = []"
  "db_fault no_cache_fault = NoFault" "ae_prefs (ex_env i) = no_cache_fault"
  "ae_user (ex_env i) = no_cache_fault" "ae_incr (ex_env i) = NoFault"
  "ae_expire (ex_env i) = NoFault" "ae_save (ex_env i) = NoFault" "ae_find (ex_env i) = NoFault"
  "ae_id (ex_env i) = i" "ae_sent_at (ex_env i) = 1700000000123456789"
  "h_user_cache ex_handler = NewUserCache ks_ops (5 * Minute)"
  "h_limiter ex_handler = NewLimiter 100 Hour" "h_notif_repo ex_handler = store_notif_repo"
  "h_producer ex_handler = default_producer" "lib_quote ex_libs = id"
  "srv_broker (ex_server db) = \<lparr>broker_log = [], broker_script = []\<rparr>"
  by (simp_all add: ex_libs_def ex_server_def ex_env_def ex_handler_def fresh_response_def
      no_cache_fault_def)

lemma ex_coherent: "coherent db (ks_map (ks_empty show_int))"
  by (simp add: coherent_def ks_empty_def)

lemma ex_decodes: "decode_send_request (rq_body (ex_request ChannelEmail)) =
    Some \<lparr>sr_user_id = alice, sr_channel = ChannelEmail, sr_template_id = ''welcome'',
          sr_payload = None\<rparr>"
  by code_simp

definition ex_note :: notification where
  "ex_note = new_notification (ex_env note1)
     \<lparr>sr_user_id = alice, sr_channel = ChannelEmail, sr_template_id = ''welcome'', sr_payload = None\<rparr>
     (projr (FindUserByID NoFault alice db_alice))"

lemma ex_saved: "Save NoFault ex_note db_alice = (None, snd (Save NoFault ex_note db_alice))"
proof -
  have "fst (Save NoFault ex_note db_alice) = None" by code_simp
  then show ?thesis by (simp add: prod_eq_iff)
qed

lemma ex_prefs: "FindPreferences NoFault alice db_alice = Inr (default_preferences alice)"
  by code_simp

lemma ex_published:
  "\<exists>m. Publish id 0 broker_put default_producer t (new_notification (ex_env i)
      \<lparr>sr_user_id = x, sr_channel = ChannelEmail, sr_template_id = y, sr_payload = z\<rparr> u)
      \<lparr>broker_log = [], broker_script = []\<rparr> = (None, \<lparr>broker_log = [m], broker_script = []\<rparr>) \<and>
    msg_topic m = ''notifications'' \<and>
    marshal_notification 0 (new_notification (ex_env i)
      \<lparr>sr_user_id = x, sr_channel = ChannelEmail, sr_template_id = y, sr_payload = z\<rparr> u) = Some (msg_value m)"
  by (simp add: Publish_def default_producer_def NewProducer_def new_notification_def ex_env_def
      marshal_notification_def notification_json_def time_text_def year_in_range_def topic_route_def
      local_seconds_def ns_per_sec_def epoch_offset_def days_before_def broker_put_def)

lemma ex_allowed:
  assumes "whole_seconds (window l)" "0 < limit l"
  shows "\<exists>r1. Allow ks_ops l NoFault NoFault u c (ks_empty show_int) = ((True, None), r1)"
proof -
  obtain ans r1 where run: "Allow ks_ops l NoFault NoFault u c (ks_empty show_int) = (ans, r1)"
    by fastforce
  have "ks_map (ks_empty show_int) (rate_key u c) = None" by (simp add: ks_empty_def)
  with redis_server.Allow_spends [OF keyspace_server _ assms(1) _ _ run, of 0 0] assms
  have "ans = (True, None)" by (simp add: spends_def whole_seconds_def)
  with run show ?thesis by blast
qed

lemma alice_nonempty: "alice \<noteq> []"
  by (simp add: alice_def)

text \<open>Her request by email, on any database that knows her with email enabled.\<close>

abbreviation ex_asked :: send_request where
  "ex_asked \<equiv> \<lparr>sr_user_id = alice, sr_channel = ChannelEmail, sr_template_id = ''welcome'',
      sr_payload = None\<rparr>"

lemma ex_accepts:
  assumes ok: "store_ok db" and u: "FindUserByID NoFault alice db = Inr u"
    and prefs: "FindPreferences NoFault alice db = Inr prefs" "isChannelEnabled ChannelEmail prefs"
    and saved: "Save NoFault (new_notification (ex_env note1) ex_asked u) db = (None, db')"
  shows "\<exists>rsp' s' m. SendNotification ex_libs ex_handler (ex_env note1) (ex_request ChannelEmail)
      fresh_response (ex_server db) = (rsp', s') \<and> status_of rsp' = 202 \<and> srv_db s' = db' \<and>
    broker_log (srv_broker s') = [m] \<and> msg_topic m = ''notifications'' \<and>
    unmarshal_notification (msg_value m) = Some (new_notification (ex_env note1) ex_asked u)"
proof -
  let ?n = "new_notification (ex_env note1) ex_asked u"
  have "whole_seconds Hour" by (simp add: whole_seconds_def Hour_def)
  then obtain r1 where r1: "Allow ks_ops (NewLimiter 100 Hour) NoFault NoFault alice ChannelEmail
      (ks_empty show_int) = ((True, None), r1)"
    using ex_allowed [of "NewLimiter 100 Hour"] by (auto simp: NewLimiter_def)
  have good: "store_ok db \<and> coherent db (ks_map r1)"
    using keyspace_cache.coherent_Allow [OF ex_coherent] r1 ok by (metis snd_conv)
  obtain r2 where r2: "urepo_find (NewUserCache ks_ops (5 * Minute)) no_cache_fault alice db r1
      = (Inr u, r2)"
    using keyspace_cache.cached.find_calm [OF good, of alice] u by (metis prod.collapse)
  have good2: "store_ok db \<and> coherent db (ks_map r2)"
    using keyspace_cache.cached.good_find [OF good, of no_cache_fault alice] r2 by simp
  obtain r3 where r3: "urepo_prefs (NewUserCache ks_ops (5 * Minute)) no_cache_fault alice db r2
      = (Inr prefs, r3)"
    using keyspace_cache.cached.prefs_calm [OF good2, of alice] prefs(1) by (metis prod.collapse)
  obtain m where m: "Publish id 0 broker_put default_producer 1700000000123456789 ?n
      \<lparr>broker_log = [], broker_script = []\<rparr> = (None, \<lparr>broker_log = [m], broker_script = []\<rparr>)"
      "msg_topic m = ''notifications''" "marshal_notification 0 ?n = Some (msg_value m)"
    using ex_published by blast
  have "user_utf8 u" using FindUserByID_user [OF ok u] by simp
  moreover have "uuid_in (ae_id (ex_env note1)) = Some note1" by code_simp
  ultimately have "notif_utf8 ?n"
    using new_notification_utf8 [OF ex_decodes] by blast
  with m(3) have decoded: "unmarshal_notification (msg_value m) = Some ?n"
    by (rule unmarshal_marshal) simp
  from send_succeeds [where rsp = fresh_response and req = "ex_request ChannelEmail" and r = ex_asked
      and L = ex_libs and h = ex_handler and e = "ex_env note1" and s = "ex_server db"
      and ?r1.0 = r1 and u = u and ?r2.0 = r2 and prefs = prefs and ?r3.0 = r3
      and d' = db' and k' = "\<lparr>broker_log = [m], broker_script = []\<rparr>" and err = None]
  have "\<exists>rsp' s'. SendNotification ex_libs ex_handler (ex_env note1) (ex_request ChannelEmail)
      fresh_response (ex_server db) = (rsp', s') \<and> status_of rsp' = 202 \<and> srv_db s' = db' \<and>
      srv_broker s' = \<lparr>broker_log = [m], broker_script = []\<rparr>"
    using ex_decodes r1 r2 r3 m(1) prefs(2) saved alice_nonempty by (auto simp: validChannels_def store_notif_repo_def)
  with m(2) decoded show ?thesis by fastforce
qed

lemma ex_accepted:
  "\<exists>rsp' s'. SendNotification ex_libs ex_handler (ex_env note1) (ex_request ChannelEmail)
      fresh_response (ex_server db_alice) = (rsp', s') \<and> status_of rsp' = 202 \<and>
    srv_db s' = snd (Save NoFault ex_note db_alice)"
proof -
  obtain u where u: "FindUserByID NoFault alice db_alice = Inr u" using alice_found by blast
  have "isChannelEnabled ChannelEmail (default_preferences alice)"
    by (simp add: isChannelEnabled_def default_preferences_def)
  moreover have "Save NoFault (new_notification (ex_env note1) ex_asked u) db_alice =
      (None, snd (Save NoFault ex_note db_alice))"
    using ex_saved by (simp add: ex_note_def u)
  ultimately show ?thesis using ex_accepts [OF store_ok_alice u ex_prefs] by blast
qed

theorem SendNotification_stores_first_witness:
  "\<exists>rsp' s' r u i. SendNotification ex_libs ex_handler (ex_env note1) (ex_request ChannelEmail)
      fresh_response (ex_server db_alice) = (rsp', s') \<and> status_of rsp' = 202 \<and>
    notifs (srv_db s') = notifs db_alice @ [stored_notif i (user_id u) (new_notification (ex_env note1) r u)]"
proof -
  obtain rsp' s' where run: "SendNotification ex_libs ex_handler (ex_env note1)
      (ex_request ChannelEmail) fresh_response (ex_server db_alice) = (rsp', s')"
      "status_of rsp' = 202" using ex_accepted by blast
  then show ?thesis
    using SendNotification_stores_first [OF server_example_setup, of ex_libs "ex_server db_alice"
        "ex_env note1" fresh_response default_producer "NewLimiter 100 Hour" NewLogger
        "ex_request ChannelEmail" rsp' s'] store_ok_alice ex_coherent
    by (auto simp: ex_handler_def no_rows_fault_def)
qed

text \<open>
  C10 (safety).  A user who has switched a channel off is left alone once the cache agrees with the
  database: when the flag of the requested channel (one flag for email, one for SMS, one for both
  push channels) is off in the database's preferences and no cached entry differs from the database,
  no request, under any faults but a failed query taken for a missing row, stores a notification, puts
  a message on the topic or is answered 202.  (Entries older than the change last until the time to
  live is over.)
\<close>

theorem SendNotification_respects_opt_out:
  assumes "user_cache_server R entry clock advance ttl" "kafka_writer put topic_log"
    and "lib_redis L = R" "lib_put L = put"
    and "store_ok (srv_db s)" "coherent (srv_db s) (entry (srv_redis s))"
    and "\<not> no_rows_fault (db_fault (ae_prefs e))" "rsp_sent rsp = None"
    and "SendNotification L (server_handler R ttl p l lg) e req rsp s = (rsp', s')"
    and "decode_send_request (rq_body req) = Some r"
    and "\<And>prefs. FindPreferences NoFault (sr_user_id r) (srv_db s) = Inr prefs \<Longrightarrow>
           sr_channel r = ChannelEmail \<and> \<not> prefs_email_enabled prefs \<or>
           sr_channel r = ChannelSMS \<and> \<not> prefs_sms_enabled prefs \<or>
           sr_channel r \<in> {ChannelIOS, ChannelAndroid} \<and> \<not> prefs_push_enabled prefs"
  shows "notifs (srv_db s') = notifs (srv_db s) \<and>
         topic_log (srv_broker s') = topic_log (srv_broker s) \<and> status_of rsp' \<noteq> 202"
proof (rule ccontr)
  note W = api_wired [OF assms(1-4), of p l lg]
  have U: "store_ok (srv_db s) \<and> coherent (srv_db s) (entry (srv_redis s))" using assms(5,6) by simp
  assume "\<not> ?thesis"
  then have "status_of rsp' = 202 \<or> topic_log (srv_broker s') \<noteq> topic_log (srv_broker s) \<or>
      notifs (srv_db s') \<noteq> notifs (srv_db s)" by blast
  then obtain prefs where "FindPreferences NoFault (sr_user_id r) (srv_db s) = Inr prefs"
      "isChannelEnabled (sr_channel r) prefs"
    using api_contract.send_accepted [OF W assms(5) U assms(7-9)] assms(10) by (metis option.inject)
  then show False using assms(11) by (auto simp: isChannelEnabled_def channel_defs split: if_splits)
qed

definition db_quiet :: database where
  "db_quiet = snd (exec_stmt [SText alice, SBool False, SBool True, SBool True]
     (InsertInto ''user_preferences'' [''user_id'', ''email_enabled'', ''sms_enabled'', ''push_enabled'']
        [Param 1, Param 2, Param 3, Param 4]) db_alice)"

lemma store_ok_quiet: "store_ok db_quiet"
  unfolding db_quiet_def by (rule store_ok_exec [OF store_ok_alice]) simp_all

lemma quiet_prefs: "FindPreferences NoFault alice db_quiet =
    Inr \<lparr>prefs_user_id = alice, prefs_email_enabled = False, prefs_sms_enabled = True,
         prefs_push_enabled = True\<rparr>"
  by code_simp

theorem SendNotification_respects_opt_out_witness:
  "\<exists>rsp' s'. SendNotification ex_libs ex_handler (ex_env note1) (ex_request ChannelEmail)
      fresh_response (ex_server db_quiet) = (rsp', s') \<and>
    notifs (srv_db s') = notifs db_quiet \<and> broker_log (srv_broker s') = [] \<and> status_of rsp' \<noteq> 202"
proof -
  obtain rsp' s' where run: "SendNotification ex_libs ex_handler (ex_env note1)
      (ex_request ChannelEmail) fresh_response (ex_server db_quiet) = (rsp', s')" by fastforce
  have "\<not> prefs_email_enabled prefs" if "FindPreferences NoFault alice db_quiet = Inr prefs"
    for prefs using that quiet_prefs by auto
  with SendNotification_respects_opt_out [OF server_example_setup, of ex_libs "ex_server db_quiet"
      "ex_env note1" fresh_response default_producer "NewLimiter 100 Hour" NewLogger
      "ex_request ChannelEmail" rsp' s'] run store_ok_quiet ex_coherent ex_decodes
  show ?thesis by (auto simp: ex_handler_def no_rows_fault_def)
qed

text \<open>
  C11 (liveness).  A Redis outage does not stop the API: with every Redis call refused, a valid request
  for a stored user whose preferences enable the channel is still stored, published and answered
  202, as long as the database and the broker do their part; the limiter lets it through uncounted.
\<close>

theorem SendNotification_survives_redis:
  assumes "redis_server (lib_redis L) entry clock advance"
    and "rsp_sent rsp = None" "decode_send_request (rq_body req) = Some r"
    and "sr_user_id r \<noteq> []" "sr_template_id r \<noteq> []" "sr_channel r \<in> set validChannels"
    and "ae_incr e = Refused x1"
    and "get_fault (ae_user e) = Refused x2" "db_fault (ae_user e) = NoFault" "set_fault (ae_user e) = Refused x3"
    and "get_fault (ae_prefs e) = Refused x4" "db_fault (ae_prefs e) = NoFault" "set_fault (ae_prefs e) = Refused x5"
    and "FindUserByID NoFault (sr_user_id r) (srv_db s) = Inr u"
    and "FindPreferences NoFault (sr_user_id r) (srv_db s) = Inr prefs"
    and "isChannelEnabled (sr_channel r) prefs"
    and "Save (ae_save e) (new_notification e r u) (srv_db s) = (None, d')"
    and "Publish (lib_quote L) (lib_tz L) (lib_put L) p (ae_sent_at e) (new_notification e r u)
           (srv_broker s) = (None, k')"
  shows "\<exists>rsp' s'. SendNotification L (server_handler (lib_redis L) ttl p l lg) e req rsp s = (rsp', s') \<and>
    status_of rsp' = 202 \<and> srv_db s' = d' \<and> srv_broker s' = k' \<and> srv_redis s' = srv_redis s"
proof -
  let ?R = "lib_redis L"
  note refused = redis_server.get_fault(1) [OF assms(1)] redis_server.set_refused [OF assms(1)]
  have "Allow ?R l (ae_incr e) (ae_expire e) (sr_user_id r) (sr_channel r) (srv_redis s) =
      ((True, Some (Wrapf ''rate limit check: redis incr: '' x1 [])), srv_redis s)"
    using redis_server.incr_refused [OF assms(1)] assms(7) by (simp add: Allow_def Let_def)
  moreover have "urepo_find (NewUserCache ?R ttl) (ae_user e) (sr_user_id r) (srv_db s) (srv_redis s) =
      (Inr u, srv_redis s)"
    using refused assms(8-10,14)
    by (simp add: NewUserCache_def UserCache_FindByID_def Let_def)
  moreover have "urepo_prefs (NewUserCache ?R ttl) (ae_prefs e) (sr_user_id r) (srv_db s) (srv_redis s) =
      (Inr prefs, srv_redis s)"
    using refused assms(11-13,15)
    by (simp add: NewUserCache_def UserCache_FindPreferences_def Let_def)
  ultimately show ?thesis
    using send_succeeds [where L = L and h = "server_handler ?R ttl p l lg", OF assms(2-6)]
      assms(16-18) by (fastforce simp: store_notif_repo_def)
qed

theorem SendNotification_survives_redis_witness:
  "\<exists>e rsp' s'. ae_incr e = Refused (Opaque ''connection refused'') \<and>
    SendNotification ex_libs ex_handler e (ex_request ChannelEmail) fresh_response
      (ex_server db_alice) = (rsp', s') \<and>
    status_of rsp' = 202 \<and> srv_db s' = snd (Save NoFault ex_note db_alice)"
proof -
  let ?t = "Opaque ''connection refused''"
  let ?x = "Refused ?t"
  let ?f = "\<lparr>get_fault = ?x, db_fault = NoFault, set_fault = ?x\<rparr>"
  let ?e = "(ex_env note1)\<lparr>ae_incr := ?x, ae_user := ?f, ae_prefs := ?f\<rparr>"
  let ?r = "\<lparr>sr_user_id = alice, sr_channel = ChannelEmail, sr_template_id = ''welcome'',
      sr_payload = None\<rparr>"
  obtain u where u: "FindUserByID NoFault alice db_alice = Inr u" using alice_found by blast
  have same: "new_notification ?e ?r u = new_notification (ex_env note1) ?r u"
    by (simp add: new_notification_def)
  have built: "new_notification (ex_env note1) ?r u = ex_note" by (simp add: ex_note_def u)
  obtain k' where k': "Publish id 0 broker_put default_producer 1700000000123456789 ex_note
      \<lparr>broker_log = [], broker_script = []\<rparr> = (None, k')"
    using ex_published [of 1700000000123456789 note1 alice "''welcome''" None u] built by auto
  have "redis_server (lib_redis ex_libs) ks_map ks_now ks_advance" using keyspace_server by simp
  from SendNotification_survives_redis [OF this, where rsp = fresh_response and
      req = "ex_request ChannelEmail" and r = ?r and e = ?e and s = "ex_server db_alice" and u = u
      and prefs = "default_preferences alice" and d' = "snd (Save NoFault ex_note db_alice)"
      and k' = k' and p = default_producer and ttl = "5 * Minute" and l = "NewLimiter 100 Hour"
      and lg = NewLogger and ?x1.0 = ?t and ?x2.0 = ?t and ?x3.0 = ?t and ?x4.0 = ?t and ?x5.0 = ?t]
    ex_decodes u ex_prefs ex_saved k' alice_nonempty
  have "\<exists>rsp' s'. SendNotification ex_libs ex_handler ?e (ex_request ChannelEmail) fresh_response
      (ex_server db_alice) = (rsp', s') \<and> status_of rsp' = 202 \<and>
      srv_db s' = snd (Save NoFault ex_note db_alice)"
    by (auto simp: same built validChannels_def isChannelEnabled_def default_preferences_def
        ex_handler_def)
  moreover have "ae_incr ?e = ?x" by simp
  ultimately show ?thesis by blast
qed

subsection \<open>Replies\<close>

definition well_formed_reply :: "int set \<Rightarrow> response \<Rightarrow> bool" where
  "well_formed_reply codes rsp \<longleftrightarrow>
     (\<exists>code hs kvs. rsp_sent rsp = Some (code, hs) \<and> code \<in> codes \<and>
        hs ''Content-Type'' = Some ''application/json'' \<and>
        rsp_body rsp = json_text (JObj (map (\<lambda>(k, v). (k, JStr v)) kvs)) @ [CHR 0x0A] \<and>
        decode_first (rsp_body rsp) = Some (fix_json (JObj (map (\<lambda>(k, v). (k, JStr v)) kvs))))"

lemma string_object:
  "plain_json (JObj (map (\<lambda>(k, v). (k, JStr v)) kvs))"
  "nesting (JObj (map (\<lambda>(k, v). (k, JStr v)) kvs)) \<le> max_nesting"
proof -
  show "plain_json (JObj (map (\<lambda>(k, v). (k, JStr v)) kvs))" by (auto simp: list_all_iff)
  have "(\<lambda>x. case x of (k, v) \<Rightarrow> nesting v) ` set (map (\<lambda>(k, v). (k, JStr v)) kvs) \<subseteq> {0}" by auto
  then have "Max (insert 0 ((\<lambda>x. case x of (k, v) \<Rightarrow> nesting v) ` set (map (\<lambda>(k, v). (k, JStr v)) kvs))) \<le> 0"
    by (subst Max_le_iff) auto
  then show "nesting (JObj (map (\<lambda>(k, v). (k, JStr v)) kvs)) \<le> max_nesting"
    by (simp add: max_nesting_def)
qed

lemma reply_writeJSON:
  assumes "rsp_sent rsp = None" "rsp_body rsp = []" "code \<in> codes"
    and "j = JObj (map (\<lambda>(k, v). (k, JStr v)) kvs)"
  shows "well_formed_reply codes (writeJSON code j rsp)"
proof -
  have "decode_first (json_text j @ [CHR 0x0A]) = Some (fix_json j)"
    unfolding assms(4) by (rule decode_first_text [OF string_object])
  with assms show ?thesis by (auto simp: well_formed_reply_def)
qed

lemma json_objects:
  "send_response_json x = JObj (map (\<lambda>(k, v). (k, JStr v))
     [(''notification_id'', sresp_notification_id x), (''status'', sresp_status x),
      (''message'', sresp_message x)])"
  "status_response_json y = JObj (map (\<lambda>(k, v). (k, JStr v))
     [(''notification_id'', stat_notification_id y), (''channel'', stat_channel y),
      (''status'', stat_status y), (''created_at'', stat_created_at y)])"
  "error_response_json z = JObj (map (\<lambda>(k, v). (k, JStr v))
     [(''error'', err_error z), (''code'', err_code z)])"
  "JObj [(''status'', JStr ''ok'')] = JObj (map (\<lambda>(k, v). (k, JStr v)) [(''status'', ''ok'')])"
  by (simp_all add: send_response_json_def status_response_json_def error_response_json_def)

lemma replies:
  assumes "rsp_sent rsp = None" "rsp_body rsp = []" "code \<in> codes"
  shows "well_formed_reply codes (writeJSON code (send_response_json x) rsp)"
    "well_formed_reply codes (writeJSON code (status_response_json y) rsp)"
    "well_formed_reply codes (writeJSON code (JObj [(''status'', JStr ''ok'')]) rsp)"
    "well_formed_reply codes (writeError msg c code rsp)"
  using reply_writeJSON [OF assms json_objects(1)] reply_writeJSON [OF assms json_objects(2)]
    reply_writeJSON [OF assms json_objects(4)] reply_writeJSON [OF assms json_objects(3)]
  by (simp_all add: writeError_def)

text \<open>
  C15 (type).  Every handler answers every request, whatever its bytes and whatever fails: it sends
  exactly one status, one of the documented codes, the JSON content type, and one JSON object of
  strings that a client can decode.
\<close>

theorem handlers_reply:
  assumes "rsp_sent rsp = None" "rsp_body rsp = []"
  shows "well_formed_reply {200, 202, 400, 404, 429, 500} (fst (SendNotification L h e req rsp s)) \<and>
         well_formed_reply {200, 400, 404} (fst (GetNotificationStatus L h e req rsp s)) \<and>
         well_formed_reply {200} (fst (HealthCheck req rsp s))"
  using replies [OF assms]
  by (auto simp: SendNotification_def resolve_def enqueue_def GetNotificationStatus_def
      HealthCheck_def Let_def split: option.split sum.split prod.split)

theorem handlers_reply_witness:
  "well_formed_reply {200} (fst (HealthCheck (ex_request ChannelEmail) fresh_response (ex_server db_alice)))"
  using handlers_reply [of fresh_response ex_libs ex_handler "ex_env note1" "ex_request ChannelEmail"
      "ex_server db_alice"] by simp

end
