(* ===== verification/Middleware.thy ===== *)
theory Middleware
  imports Intake
begin

section \<open>Middleware and router\<close>

text \<open>
  \<^verbatim>\<open>internal/api/middleware.go\<close> and \<^verbatim>\<open>internal/api/router.go\<close>.  A handler may panic; what it wrote and
  did before stays.  The chi router and the page of the Prometheus library are parameters, and so is
  the metrics library's decision whether it accepts a string as a label value (\<open>WithLabelValues\<close>
  panics when it does not).
\<close>

type_synonym 's http_handler = "request \<Rightarrow> response \<Rightarrow> 's \<Rightarrow> unit go \<times> response \<times> 's"

subsection \<open>Request ids\<close>

definition contextWithRequestID :: "ctx \<Rightarrow> string \<Rightarrow> ctx" where
  "contextWithRequestID c i = WithValue c RequestIDKey (StringVal i)"

definition requestIDFromContext :: "ctx \<Rightarrow> string" where
  "requestIDFromContext c = (case Value c RequestIDKey of Some (StringVal i) \<Rightarrow> i | _ \<Rightarrow> [])"

definition RequestID :: "string \<Rightarrow> 's http_handler \<Rightarrow> 's http_handler" where
  "RequestID uuid next req rsp s =
     (let h = Header_Get (rq_header req) ''X-Request-ID'';
          i = (if h = [] then uuid else h)
      in next (req\<lparr>rq_ctx := contextWithRequestID (rq_ctx req) i\<rparr>)
              (Header_Set ''X-Request-ID'' i rsp) s)"

subsection \<open>Logging and metrics\<close>

definition srv_dec :: "series \<Rightarrow> ('d, 'r, 'k) server \<Rightarrow> ('d, 'r, 'k) server" where
  "srv_dec x s = s\<lparr>srv_metrics := Dec x (srv_metrics s)\<rparr>"

definition srv_observe :: "series \<Rightarrow> ('d, 'r, 'k) server \<Rightarrow> ('d, 'r, 'k) server" where
  "srv_observe x s = s\<lparr>srv_metrics := Observe x (srv_metrics s)\<rparr>"

text \<open>
  The wrapper starts at status 200; the decrement of the gauge is deferred, so it happens on every
  way out, panics included.
\<close>

definition Logger ::
    "(string \<Rightarrow> bool) \<Rightarrow> int \<Rightarrow> logger \<Rightarrow> ('d, 'r, 'k) server http_handler \<Rightarrow> ('d, 'r, 'k) server http_handler" where
  "Logger accepts duration_ms lg next req rsp s =
     (let (outcome, rw, s1) = next req (rsp\<lparr>rsp_status := Some 200\<rparr>) (srv_inc HTTPRequestsInFlight s);
          unwrapped = rw\<lparr>rsp_status := rsp_status rsp\<rparr>;
          status = show_int (case rsp_status rw of Some c \<Rightarrow> c | None \<Rightarrow> 200)
      in case outcome of
           Panicked p \<Rightarrow> (Panicked p, unwrapped, srv_dec HTTPRequestsInFlight s1)
         | Ret _ \<Rightarrow>
             if \<not> list_all accepts [rq_method req, rq_path req, status] then
               (Panicked ''invalid label value'', unwrapped, srv_dec HTTPRequestsInFlight s1)
             else
               (Ret (), unwrapped,
                srv_dec HTTPRequestsInFlight
                  (srv_log lg LevelInfo ''request''
                     [(''method'', rq_method req), (''path'', rq_path req), (''status'', status),
                      (''duration_ms'', show_int duration_ms),
                      (''request_id'', requestIDFromContext (rq_ctx req))]
                     (srv_observe (HTTPRequestDuration (rq_method req) (rq_path req))
                        (srv_inc (HTTPRequestsTotal (rq_method req) (rq_path req) status) s1)))))"

definition Recoverer ::
    "logger \<Rightarrow> ('d, 'r, 'k) server http_handler \<Rightarrow> ('d, 'r, 'k) server http_handler" where
  "Recoverer lg next req rsp s =
     (case next req rsp s of
        (Ret x, rsp1, s1) \<Rightarrow> (Ret x, rsp1, s1)
      | (Panicked p, rsp1, s1) \<Rightarrow>
          (Ret (), writeError ''internal server error'' ''INTERNAL_ERROR'' 500 rsp1,
           srv_log lg LevelError ''panic recovered''
             [(''panic'', p), (''path'', rq_path req),
              (''request_id'', requestIDFromContext (rq_ctx req))] s1))"

subsection \<open>The router\<close>

datatype endpoint = Health | MetricsPage | Notify | Notifications

text \<open>The table that \<open>NewRouter\<close> registers; \<open>Handle\<close> registers every method.\<close>

definition routes :: "(string option \<times> string \<times> endpoint) list" where
  "routes =
     [(Some ''GET'', ''/health'', Health), (None, ''/metrics'', MetricsPage),
      (Some ''POST'', ''/api/v1'' @ ''/notify'', Notify),
      (Some ''GET'', ''/api/v1'' @ ''/notifications'', Notifications)]"

text \<open>
  What is documented of chi for patterns without parameters: a request is routed to the entry whose
  path is the request's and whose method is the request's, or that is registered for every method;
  otherwise to the fallback that answers 404 or 405.
\<close>

locale chi_router =
  fixes route :: "(string option \<times> string \<times> 'e) list \<Rightarrow> string \<Rightarrow> string \<Rightarrow> 'e option"
  assumes static_hit: "distinct (map (\<lambda>(m, p, e). p) tbl) \<Longrightarrow> (m, p, e) \<in> set tbl \<Longrightarrow>
      m = None \<or> m = Some meth \<Longrightarrow> route tbl meth p = Some e"
    and static_miss: "(\<And>m e. (m, path, e) \<in> set tbl \<Longrightarrow> m \<noteq> None \<and> m \<noteq> Some meth) \<Longrightarrow>
      route tbl meth path = None"
begin

lemma route_unique:
  assumes "distinct (map (\<lambda>(m, p, e). p) tbl)"
  shows "route tbl meth path = Some e \<longleftrightarrow> (\<exists>m. (m, path, e) \<in> set tbl \<and> (m = None \<or> m = Some meth))"
proof
  assume hit: "route tbl meth path = Some e"
  have "\<exists>m e'. (m, path, e') \<in> set tbl \<and> (m = None \<or> m = Some meth)"
  proof (rule ccontr)
    assume "\<not> ?thesis"
    then have "route tbl meth path = None" by (intro static_miss) auto
    with hit show False by simp
  qed
  then obtain m e' where e': "(m, path, e') \<in> set tbl" "m = None \<or> m = Some meth" by blast
  with static_hit [OF assms e'] hit show "\<exists>m. (m, path, e) \<in> set tbl \<and> (m = None \<or> m = Some meth)"
    by auto
qed (use static_hit [OF assms] in blast)

end

definition first_match :: "(string option \<times> string \<times> 'e) list \<Rightarrow> string \<Rightarrow> string \<Rightarrow> 'e option" where
  "first_match tbl meth path =
     map_option (\<lambda>(m, p, e). e) (find (\<lambda>(m, p, e). p = path \<and> (m = None \<or> m = Some meth)) tbl)"

interpretation first: chi_router first_match
proof
  fix tbl :: "(string option \<times> string \<times> 'e) list" and m meth path p e
  show "first_match tbl meth p = Some e"
    if "distinct (map (\<lambda>(m, p, e). p) tbl)" "(m, p, e) \<in> set tbl" "m = None \<or> m = Some meth"
    using that by (induction tbl) (force simp: first_match_def image_iff)+
  show "first_match tbl meth path = None"
    if "\<And>m e. (m, path, e) \<in> set tbl \<Longrightarrow> m \<noteq> None \<and> m \<noteq> Some meth"
    using that by (force simp: first_match_def find_None_iff)
qed

record 's chi =
  chi_route :: "(string option \<times> string \<times> endpoint) list \<Rightarrow> string \<Rightarrow> string \<Rightarrow> endpoint option"
  chi_fallback :: "'s http_handler"
  chi_metrics_page :: "'s http_handler"

text \<open>chi matches the raw path where the URL has one.\<close>

definition dispatch ::
    "('d, 'r, 'k) server chi \<Rightarrow> ('r, 'k) libs \<Rightarrow> ('f, 'd, 'r) handler \<Rightarrow> 'f api_env
       \<Rightarrow> ('d, 'r, 'k) server http_handler" where
  "dispatch X L h e req rsp s =
     (case chi_route X routes (rq_method req)
             (if rq_raw_path req = [] then rq_path req else rq_raw_path req) of
        Some Health \<Rightarrow> (case HealthCheck req rsp s of (rsp1, s1) \<Rightarrow> (Ret (), rsp1, s1))
      | Some MetricsPage \<Rightarrow> chi_metrics_page X req rsp s
      | Some Notify \<Rightarrow> (case SendNotification L h e req rsp s of (rsp1, s1) \<Rightarrow> (Ret (), rsp1, s1))
      | Some Notifications \<Rightarrow>
          (case GetNotificationStatus L h e req rsp s of (rsp1, s1) \<Rightarrow> (Ret (), rsp1, s1))
      | None \<Rightarrow> chi_fallback X req rsp s)"

definition requestIDMiddleware :: "string \<Rightarrow> 's http_handler \<Rightarrow> 's http_handler" where
  "requestIDMiddleware uuid next = RequestID uuid next"

definition NewRouter ::
    "('d, 'r, 'k) server chi \<Rightarrow> (string \<Rightarrow> bool) \<Rightarrow> ('r, 'k) libs \<Rightarrow> ('f, 'd, 'r) handler \<Rightarrow> logger
       \<Rightarrow> string \<Rightarrow> int \<Rightarrow> 'f api_env \<Rightarrow> ('d, 'r, 'k) server http_handler" where
  "NewRouter X accepts L h lg uuid duration_ms e =
     requestIDMiddleware uuid (Logger accepts duration_ms lg (Recoverer lg (dispatch X L h e)))"

lemma request_id_simps [simp]:
  "requestIDFromContext (contextWithRequestID c i) = i"
  "requestIDFromContext [] = []"
  by (simp_all add: requestIDFromContext_def contextWithRequestID_def) (simp add: Value_def)

lemma srv_more_simps [simp]:
  "srv_db (srv_dec x s) = srv_db s" "srv_redis (srv_dec x s) = srv_redis s"
  "srv_broker (srv_dec x s) = srv_broker s" "srv_out (srv_dec x s) = srv_out s"
  "srv_metrics (srv_dec x s) = Dec x (srv_metrics s)"
  "srv_db (srv_observe x s) = srv_db s" "srv_redis (srv_observe x s) = srv_redis s"
  "srv_broker (srv_observe x s) = srv_broker s" "srv_out (srv_observe x s) = srv_out s"
  "srv_metrics (srv_observe x s) = Observe x (srv_metrics s)"
  "srv_out (srv_log lg lv msg as s) = emit lg lv msg as (srv_out s)"
  by (simp_all add: srv_dec_def srv_observe_def srv_log_def)

subsection \<open>What the chain guarantees\<close>

text \<open>Whatever happens inside, the recoverer returns.\<close>

lemma Recoverer_returns: "fst (Recoverer lg next req rsp s) = Ret ()"
  by (auto simp: Recoverer_def split: go.split prod.split)

text \<open>A handler that leaves the HTTP series alone and one that sends what it records.\<close>

definition http_series :: "series \<Rightarrow> bool" where
  "http_series x \<longleftrightarrow> x = HTTPRequestsInFlight \<or> (\<exists>m p c. x = HTTPRequestsTotal m p c) \<or>
     (\<exists>m p. x = HTTPRequestDuration m p)"

definition keeps_http :: "('d, 'r, 'k) server http_handler \<Rightarrow> bool" where
  "keeps_http f \<longleftrightarrow> (\<forall>req rsp s x. http_series x \<longrightarrow>
     srv_metrics (snd (snd (f req rsp s))) x = srv_metrics s x)"

lemma handlers_keep_http:
  assumes "http_series x"
  shows "srv_metrics (snd (SendNotification L h e req rsp s)) x = srv_metrics s x"
    "srv_metrics (snd (GetNotificationStatus L h e req rsp s)) x = srv_metrics s x"
    "srv_metrics (snd (HealthCheck req rsp s)) x = srv_metrics s x"
proof -
  have ne: "x \<noteq> NotificationsSkippedTotal a b" "x \<noteq> KafkaPublishTotal a b" for a b
    using assms by (auto simp: http_series_def)
  have enq: "srv_metrics (snd (enqueue L h e lg r v rsp s)) x = srv_metrics s x" for lg r v rsp s
    using ne by (auto simp: enqueue_def Let_def split: option.split prod.split)
  have res: "srv_metrics (snd (resolve L h e lg r rsp s)) x = srv_metrics s x" for lg r rsp s
    using ne enq by (auto simp: resolve_def split: sum.split prod.split)
  show "srv_metrics (snd (SendNotification L h e req rsp s)) x = srv_metrics s x"
    using ne res by (auto simp: SendNotification_def Let_def split: option.split prod.split)
  show "srv_metrics (snd (GetNotificationStatus L h e req rsp s)) x = srv_metrics s x"
    "srv_metrics (snd (HealthCheck req rsp s)) x = srv_metrics s x"
    by (auto simp: GetNotificationStatus_def HealthCheck_def Let_def split: sum.split)
qed

lemma keeps_http_dispatch:
  assumes "keeps_http (chi_fallback X)" "keeps_http (chi_metrics_page X)"
  shows "keeps_http (dispatch X L h e)"
  unfolding keeps_http_def
proof (intro allI impI)
  fix req rsp s x assume x: "http_series x"
  show "srv_metrics (snd (snd (dispatch X L h e req rsp s))) x = srv_metrics s x"
    using handlers_keep_http [OF x] assms x
    by (auto simp: dispatch_def keeps_http_def split: option.split endpoint.split prod.split)
qed

lemma keeps_http_Recoverer: "keeps_http f \<Longrightarrow> keeps_http (Recoverer lg f)"
  by (auto simp: keeps_http_def Recoverer_def split: go.split prod.split) (metis snd_conv)+

text \<open>What the wrapper recorded is what was sent, for a handler that sends its status explicitly.\<close>

definition records_status :: "response \<Rightarrow> bool" where
  "records_status rsp \<longleftrightarrow> rsp_status rsp = Some (status_of rsp) \<and> rsp_sent rsp \<noteq> None"

lemma writeJSON_recorded [simp]:
  "rsp_sent rsp = None \<Longrightarrow> rsp_status rsp = Some c0 \<Longrightarrow> records_status (writeJSON c j rsp)"
  "rsp_sent rsp = None \<Longrightarrow> rsp_status rsp = Some c0 \<Longrightarrow> records_status (writeError m c1 c rsp)"
  by (simp_all add: records_status_def status_of_def writeError_def writeJSON_def)

lemma handlers_record:
  assumes "rsp_sent rsp = None" "rsp_status rsp = Some c0"
  shows "records_status (fst (SendNotification L h e req rsp s))"
    "records_status (fst (GetNotificationStatus L h e req rsp s))"
    "records_status (fst (HealthCheck req rsp s))"
  using assms
  by (auto simp: SendNotification_def resolve_def enqueue_def GetNotificationStatus_def HealthCheck_def
      Let_def split: option.split sum.split prod.split)

lemma handler_headers:
  assumes "rsp_sent rsp = None" "rsp_sent (fst (SendNotification L h e req rsp s)) = Some (c, hs)"
  shows "hs = (rsp_header rsp)(''Content-Type'' \<mapsto> ''application/json'')"
  using assms
  by (auto simp: SendNotification_def resolve_def enqueue_def Let_def
      split: option.splits sum.splits prod.splits if_splits)

text \<open>The request, the writer and the state that the routed handler gets from the chain.\<close>

definition chosen_id :: "string \<Rightarrow> request \<Rightarrow> string" where
  "chosen_id uuid req =
     (if Header_Get (rq_header req) ''X-Request-ID'' = [] then uuid
      else Header_Get (rq_header req) ''X-Request-ID'')"

definition inner_request :: "string \<Rightarrow> request \<Rightarrow> request" where
  "inner_request uuid req =
     req\<lparr>rq_ctx := contextWithRequestID (rq_ctx req) (chosen_id uuid req)\<rparr>"

definition inner_writer :: "string \<Rightarrow> request \<Rightarrow> response \<Rightarrow> response" where
  "inner_writer uuid req rsp =
     (Header_Set ''X-Request-ID'' (chosen_id uuid req) rsp)\<lparr>rsp_status := Some 200\<rparr>"

lemma canonical_request_id [simp]: "canonical True ''X-Request-ID'' = ''X-Request-Id''"
  by code_simp

lemma inner_simps [simp]:
  "rq_method (inner_request uuid req) = rq_method req" "rq_path (inner_request uuid req) = rq_path req"
  "rq_raw_path (inner_request uuid req) = rq_raw_path req"
  "rq_body (inner_request uuid req) = rq_body req" "rq_query (inner_request uuid req) = rq_query req"
  "requestIDFromContext (rq_ctx (inner_request uuid req)) = chosen_id uuid req"
  "rsp_sent (inner_writer uuid req rsp) = rsp_sent rsp"
  "rsp_body (inner_writer uuid req rsp) = rsp_body rsp"
  "rsp_status (inner_writer uuid req rsp) = Some 200"
  "rsp_header (inner_writer uuid req rsp) = (rsp_header rsp)(''X-Request-Id'' \<mapsto> chosen_id uuid req)"
  by (simp_all add: inner_request_def inner_writer_def del: canonical.simps)

definition recorded :: "response \<Rightarrow> string" where
  "recorded rw = show_int (case rsp_status rw of Some c \<Rightarrow> c | None \<Rightarrow> 200)"

text \<open>One request through the chain, in terms of the routed handler.\<close>

lemma NewRouter_run:
  assumes "Recoverer lg (dispatch X L h e) (inner_request uuid req) (inner_writer uuid req rsp)
             (srv_inc HTTPRequestsInFlight s) = (x, rw, s1)"
  shows "NewRouter X accepts L h lg uuid ms e req rsp s =
    (if list_all accepts [rq_method req, rq_path req, recorded rw] then
       (Ret (), rw\<lparr>rsp_status := rsp_status rsp\<rparr>,
        srv_dec HTTPRequestsInFlight
          (srv_log lg LevelInfo ''request''
             [(''method'', rq_method req), (''path'', rq_path req), (''status'', recorded rw),
              (''duration_ms'', show_int ms), (''request_id'', chosen_id uuid req)]
             (srv_observe (HTTPRequestDuration (rq_method req) (rq_path req))
                (srv_inc (HTTPRequestsTotal (rq_method req) (rq_path req) (recorded rw)) s1))))
     else (Panicked ''invalid label value'', rw\<lparr>rsp_status := rsp_status rsp\<rparr>,
           srv_dec HTTPRequestsInFlight s1))"
proof -
  have "x = Ret ()" by (metis assms Recoverer_returns fst_conv)
  with assms have "Recoverer lg (dispatch X L h e)
      (req\<lparr>rq_ctx := contextWithRequestID (rq_ctx req) (chosen_id uuid req)\<rparr>)
      ((Header_Set ''X-Request-ID'' (chosen_id uuid req) rsp)\<lparr>rsp_status := Some 200\<rparr>)
      (srv_inc HTTPRequestsInFlight s) = (Ret (), rw, s1)"
    by (simp add: inner_request_def inner_writer_def)
  then show ?thesis
    by (simp add: NewRouter_def requestIDMiddleware_def RequestID_def Let_def Logger_def recorded_def
        chosen_id_def [symmetric])
qed

subsection \<open>Properties\<close>

text \<open>
  C12 (safety).  A request cannot unbalance the in-flight gauge or, as long as the metrics library takes
  its labels, end in a panic: whatever it is routed to, and even if that handler panics, the chain
  returns and counts the request once, and a panic before anything was sent is answered 500.
\<close>

theorem router_contains_panics:
  assumes "keeps_http (chi_fallback X)" "keeps_http (chi_metrics_page X)"
    and "dispatch X L h e (inner_request uuid req) (inner_writer uuid req rsp)
           (srv_inc HTTPRequestsInFlight s) = (inner, rw, s1)"
    and "NewRouter X accepts L h lg uuid ms e req rsp s = (out, rsp', s')"
  shows "srv_metrics s' HTTPRequestsInFlight = srv_metrics s HTTPRequestsInFlight \<and>
    (accepts (rq_method req) \<and> accepts (rq_path req) \<and> (\<forall>c. accepts (show_int c)) \<longrightarrow>
       out = Ret () \<and>
       (\<exists>status. \<forall>m p c. srv_metrics s' (HTTPRequestsTotal m p c) = srv_metrics s (HTTPRequestsTotal m p c) +
          (if m = rq_method req \<and> p = rq_path req \<and> c = show_int status then 1 else 0))) \<and>
    ((\<exists>p. inner = Panicked p) \<and> rsp_sent rw = None \<longrightarrow> status_of rsp' = 500)"
proof -
  obtain x rw2 s2 where rec: "Recoverer lg (dispatch X L h e) (inner_request uuid req)
      (inner_writer uuid req rsp) (srv_inc HTTPRequestsInFlight s) = (x, rw2, s2)" by (metis prod.exhaust)
  have kept: "srv_metrics s2 y = srv_metrics (srv_inc HTTPRequestsInFlight s) y" if "http_series y" for y
    using keeps_http_Recoverer [OF keeps_http_dispatch [OF assms(1,2)], of lg L h e] that rec
    unfolding keeps_http_def by (metis snd_conv)
  note run = assms(4) [unfolded NewRouter_run [OF rec]]
  have series: "http_series HTTPRequestsInFlight" "\<And>m p c. http_series (HTTPRequestsTotal m p c)"
    by (simp_all add: http_series_def)
  have "srv_metrics s' HTTPRequestsInFlight = srv_metrics s HTTPRequestsInFlight"
    using run kept [OF series(1)] by (auto split: if_splits)
  moreover have "out = Ret () \<and>
       (\<exists>status. \<forall>m p c. srv_metrics s' (HTTPRequestsTotal m p c) = srv_metrics s (HTTPRequestsTotal m p c) +
          (if m = rq_method req \<and> p = rq_path req \<and> c = show_int status then 1 else 0))"
    if ok: "accepts (rq_method req) \<and> accepts (rq_path req) \<and> (\<forall>c. accepts (show_int c))"
  proof -
    have "list_all accepts [rq_method req, rq_path req, recorded rw2]"
      using ok by (simp add: recorded_def)
    with run kept [OF series(2)] show ?thesis by (auto simp: recorded_def)
  qed
  moreover have "status_of rsp' = 500" if crash: "(\<exists>p. inner = Panicked p) \<and> rsp_sent rw = None"
  proof -
    from crash rec assms(3) have "rsp_sent rw2 = Some (500, (rsp_header rw)(''Content-Type'' \<mapsto> ''application/json''))"
      by (auto simp: Recoverer_def)
    then show ?thesis using run by (auto simp: status_of_def split: if_splits)
  qed
  ultimately show ?thesis by blast
qed

definition example_chi :: "('d, 'r, 'k) server chi" where
  "example_chi =
     \<lparr>chi_route = first_match,
      chi_fallback = (\<lambda>req rsp s. (Ret (), writeError ''not found'' ''NOT_FOUND'' 404 rsp, s)),
      chi_metrics_page = (\<lambda>req rsp s. (Panicked ''registry'', rsp, s))\<rparr>"

definition scrape :: request where
  "scrape = (ex_request ChannelEmail)\<lparr>rq_method := ''GET'', rq_path := ''/metrics'', rq_body := []\<rparr>"

lemma example_chi_keeps [simp]:
  "keeps_http (chi_fallback example_chi)" "keeps_http (chi_metrics_page example_chi)"
  "chi_route example_chi = first_match"
  by (simp_all add: example_chi_def keeps_http_def)

theorem router_contains_panics_witness:
  "\<exists>rsp' s'. NewRouter example_chi (\<lambda>_. True) ex_libs ex_handler NewLogger note1 3 (ex_env note1) scrape
      fresh_response (ex_server db_alice) = (Ret (), rsp', s') \<and> status_of rsp' = 500 \<and>
    srv_metrics s' HTTPRequestsInFlight = srv_metrics (ex_server db_alice) HTTPRequestsInFlight"
proof -
  obtain out rsp' s' where run: "NewRouter example_chi (\<lambda>_. True) ex_libs ex_handler NewLogger note1 3
      (ex_env note1) scrape fresh_response (ex_server db_alice) = (out, rsp', s')"
    by (metis prod.exhaust)
  have inner: "dispatch example_chi ex_libs ex_handler (ex_env note1) (inner_request note1 scrape)
      (inner_writer note1 scrape fresh_response) (srv_inc HTTPRequestsInFlight (ex_server db_alice)) =
      (Panicked ''registry'', inner_writer note1 scrape fresh_response,
       srv_inc HTTPRequestsInFlight (ex_server db_alice))"
    by (simp add: dispatch_def scrape_def ex_request_def first_match_def routes_def)
      (simp add: example_chi_def)
  from router_contains_panics [OF _ _ inner run] have "out = Ret () \<and> status_of rsp' = 500 \<and>
      srv_metrics s' HTTPRequestsInFlight = srv_metrics (ex_server db_alice) HTTPRequestsInFlight"
    by (simp add: fresh_response_def)
  with run show ?thesis by blast
qed

text \<open>
  C13 (functional).  A notification request reaches \<open>SendNotification\<close> through the whole chain: the
  response is the handler's, with the request id of the caller (or a new one) in its header, and the
  same id in the request's log line; the status counted and logged is the one that was sent.
\<close>

theorem router_serves_notify:
  assumes "chi_router (chi_route X)" "rq_method req = ''POST''" "rq_path req = ''/api/v1/notify''"
    and "rq_raw_path req = []" "list_all accepts [''POST'', ''/api/v1/notify'']" "\<forall>c. accepts (show_int c)"
    and "rsp_sent rsp = None" "rsp_body rsp = []"
    and "SendNotification L h e (inner_request uuid req) (inner_writer uuid req rsp)
           (srv_inc HTTPRequestsInFlight s) = (rw, s1)"
  shows "\<exists>rsp' s'. NewRouter X accepts L h NewLogger uuid ms e req rsp s = (Ret (), rsp', s') \<and>
    status_of rsp' = status_of rw \<and> rsp_body rsp' = rsp_body rw \<and>
    headers_of rsp' ''X-Request-Id'' = Some (chosen_id uuid req) \<and>
    srv_db s' = srv_db s1 \<and> srv_broker s' = srv_broker s1 \<and>
    (\<exists>l. srv_out s' = srv_out s1 @ [l] \<and>
       map_of (line_attrs l) ''request_id'' = Some (chosen_id uuid req) \<and>
       map_of (line_attrs l) ''status'' = Some (show_int (status_of rsp'))) \<and>
    srv_metrics s' (HTTPRequestsTotal ''POST'' ''/api/v1/notify'' (show_int (status_of rsp'))) =
      srv_metrics s (HTTPRequestsTotal ''POST'' ''/api/v1/notify'' (show_int (status_of rsp'))) + 1"
proof -
  have "chi_route X routes ''POST'' ''/api/v1/notify'' = Some Notify"
    by (rule chi_router.static_hit [OF assms(1), where m = "Some ''POST''"]) (simp_all add: routes_def)
  then have disp: "dispatch X L h e (inner_request uuid req) (inner_writer uuid req rsp)
      (srv_inc HTTPRequestsInFlight s) = (Ret (), rw, s1)"
    using assms(2-4,9) by (simp add: dispatch_def)
  have rec: "Recoverer NewLogger (dispatch X L h e) (inner_request uuid req) (inner_writer uuid req rsp)
      (srv_inc HTTPRequestsInFlight s) = (Ret (), rw, s1)"
    by (simp add: Recoverer_def disp)
  have sent: "records_status rw"
    using handlers_record(1) [of "inner_writer uuid req rsp" 200 L h e "inner_request uuid req"
        "srv_inc HTTPRequestsInFlight s"] assms(7,9) by simp
  then obtain hs where hs: "rsp_sent rw = Some (status_of rw, hs)"
    by (auto simp: records_status_def status_of_def split: option.splits)
  have rec': "recorded rw = show_int (status_of rw)"
    using sent by (simp add: recorded_def records_status_def)
  have unsent: "rsp_sent (inner_writer uuid req rsp) = None" using assms(7) by simp
  have "rsp_sent (fst (SendNotification L h e (inner_request uuid req) (inner_writer uuid req rsp)
      (srv_inc HTTPRequestsInFlight s))) = Some (status_of rw, hs)" unfolding assms(9) fst_conv by (rule hs)
  note headers = handler_headers [OF unsent this]
  have id: "hs ''X-Request-Id'' = Some (chosen_id uuid req)"
    unfolding headers inner_simps by simp
  have total: "srv_metrics s1 (HTTPRequestsTotal a b c) = srv_metrics s (HTTPRequestsTotal a b c)" for a b c
    using handlers_keep_http(1) [of "HTTPRequestsTotal a b c" L h e "inner_request uuid req"
        "inner_writer uuid req rsp" "srv_inc HTTPRequestsInFlight s"] assms(9)
    by (simp add: http_series_def)
  have ok: "list_all accepts [rq_method req, rq_path req, recorded rw]"
    using assms(2,3,5,6) rec' by simp
  let ?l = "[(''method'', rq_method req), (''path'', rq_path req), (''status'', recorded rw),
      (''duration_ms'', show_int ms), (''request_id'', chosen_id uuid req)]"
  let ?s2 = "srv_observe (HTTPRequestDuration (rq_method req) (rq_path req))
      (srv_inc (HTTPRequestsTotal (rq_method req) (rq_path req) (recorded rw)) s1)"
  let ?s' = "srv_dec HTTPRequestsInFlight (srv_log NewLogger LevelInfo ''request'' ?l ?s2)"
  let ?rsp' = "rw\<lparr>rsp_status := rsp_status rsp\<rparr>"
  have run: "NewRouter X accepts L h NewLogger uuid ms e req rsp s = (Ret (), ?rsp', ?s')"
    using NewRouter_run [OF rec, of accepts ms] ok by (simp only: if_True)
  have rsp: "status_of ?rsp' = status_of rw" "rsp_body ?rsp' = rsp_body rw"
    by (simp_all add: status_of_def)
  have "headers_of ?rsp' = hs" by (rule status_sent(2)) (simp, rule hs)
  with id have hdr: "headers_of ?rsp' ''X-Request-Id'' = Some (chosen_id uuid req)" by (simp only:)
  have out: "srv_out ?s' = srv_out s1 @ [\<lparr>line_level = LevelInfo, line_msg = ''request'', line_attrs = ?l\<rparr>]"
    by (simp add: emit_def NewLogger_def)
  have attrs: "map_of ?l ''request_id'' = Some (chosen_id uuid req)"
      "map_of ?l ''status'' = Some (show_int (status_of rw))"
    by (simp_all add: rec')
  have "srv_metrics ?s' (HTTPRequestsTotal ''POST'' ''/api/v1/notify'' (show_int (status_of rw))) =
      srv_metrics s (HTTPRequestsTotal ''POST'' ''/api/v1/notify'' (show_int (status_of rw))) + 1"
    by (simp add: assms(2,3) rec' total)
  with run rsp hdr out attrs show ?thesis
    by (intro exI [of _ ?rsp'] exI [of _ ?s'] conjI exI) auto
qed

definition posted :: request where
  "posted = (ex_request ChannelEmail)\<lparr>rq_method := ''POST'', rq_path := ''/api/v1/notify'', rq_raw_path := []\<rparr>"

lemma posted_simps [simp]:
  "rq_method posted = ''POST''" "rq_path posted = ''/api/v1/notify''" "rq_raw_path posted = []"
  by (simp_all add: posted_def)

theorem router_serves_notify_witness:
  "\<exists>rsp' s'. NewRouter example_chi (\<lambda>_. True) ex_libs ex_handler NewLogger note1 3 (ex_env note1) posted
      fresh_response (ex_server db_alice) = (Ret (), rsp', s') \<and>
    headers_of rsp' ''X-Request-Id'' = Some (chosen_id note1 posted)"
proof -
  obtain rw s1 where inner: "SendNotification ex_libs ex_handler (ex_env note1) (inner_request note1 posted)
      (inner_writer note1 posted fresh_response) (srv_inc HTTPRequestsInFlight (ex_server db_alice)) = (rw, s1)"
    by fastforce
  have "chi_router (chi_route example_chi)" by (simp add: first.chi_router_axioms)
  from router_serves_notify [OF this posted_simps _ _ _ _ inner, of "\<lambda>_. True" 3] show ?thesis
    by (simp only: list.pred_inject simp_thms ex_simps) blast
qed

text \<open>
  C14 (error).  A path that the metrics library refuses as a label value (one that is not UTF-8) makes
  the logging middleware panic outside the recoverer: the routed handler has already run, and its
  effects and its response stay, but the request is neither counted nor logged; the gauge is balanced.
\<close>

theorem router_rejects_bad_label:
  assumes "\<not> accepts (rq_path req)" "keeps_http (chi_fallback X)" "keeps_http (chi_metrics_page X)"
    and "dispatch X L h e (inner_request uuid req) (inner_writer uuid req rsp)
           (srv_inc HTTPRequestsInFlight s) = (Ret (), rw, s1)"
  shows "\<exists>s'. NewRouter X accepts L h lg uuid ms e req rsp s =
      (Panicked ''invalid label value'', rw\<lparr>rsp_status := rsp_status rsp\<rparr>, s') \<and>
    srv_db s' = srv_db s1 \<and> srv_broker s' = srv_broker s1 \<and> srv_out s' = srv_out s1 \<and>
    (\<forall>m p c. srv_metrics s' (HTTPRequestsTotal m p c) = srv_metrics s (HTTPRequestsTotal m p c)) \<and>
    srv_metrics s' HTTPRequestsInFlight = srv_metrics s HTTPRequestsInFlight"
proof -
  have rec: "Recoverer lg (dispatch X L h e) (inner_request uuid req) (inner_writer uuid req rsp)
      (srv_inc HTTPRequestsInFlight s) = (Ret (), rw, s1)"
    by (simp add: Recoverer_def assms(4))
  have kept: "srv_metrics s1 y = srv_metrics (srv_inc HTTPRequestsInFlight s) y" if "http_series y" for y
    using keeps_http_dispatch [OF assms(2,3), of L h e] that assms(4)
    unfolding keeps_http_def by (metis snd_conv)
  have "srv_metrics s1 (HTTPRequestsTotal m p c) = srv_metrics s (HTTPRequestsTotal m p c)"
      "srv_metrics s1 HTTPRequestsInFlight = srv_metrics s HTTPRequestsInFlight + 1" for m p c
    using kept [of "HTTPRequestsTotal m p c"] kept [of HTTPRequestsInFlight]
    by (simp_all add: http_series_def)
  then show ?thesis
    using NewRouter_run [OF rec, of accepts ms] assms(1) by simp
qed

theorem router_rejects_bad_label_witness:
  "\<exists>s'. NewRouter example_chi (\<lambda>s. list_all (in_range 0 127) s) ex_libs ex_handler NewLogger note1 3
      (ex_env note1) (scrape\<lparr>rq_path := [CHR 0xFF]\<rparr>) fresh_response (ex_server db_alice) =
      (Panicked ''invalid label value'',
       writeError ''not found'' ''NOT_FOUND'' 404 (inner_writer note1 scrape fresh_response)
         \<lparr>rsp_status := None\<rparr>, s') \<and>
    srv_metrics s' HTTPRequestsInFlight = srv_metrics (ex_server db_alice) HTTPRequestsInFlight"
proof -
  let ?req = "scrape\<lparr>rq_path := [CHR 0xFF]\<rparr>"
  have same: "inner_writer note1 ?req fresh_response = inner_writer note1 scrape fresh_response"
    by (simp add: inner_writer_def chosen_id_def del: canonical.simps)
  have inner: "dispatch example_chi ex_libs ex_handler (ex_env note1) (inner_request note1 ?req)
      (inner_writer note1 ?req fresh_response) (srv_inc HTTPRequestsInFlight (ex_server db_alice)) =
      (Ret (), writeError ''not found'' ''NOT_FOUND'' 404 (inner_writer note1 scrape fresh_response),
       srv_inc HTTPRequestsInFlight (ex_server db_alice))"
    unfolding same
    by (simp add: dispatch_def scrape_def ex_request_def first_match_def routes_def)
      (simp add: example_chi_def)
  have "\<not> list_all (in_range 0 127) (rq_path ?req)" by (simp add: in_range_def byte_def)
  from router_rejects_bad_label [where accepts = "list_all (in_range 0 127)", OF this example_chi_keeps(1,2) inner,
      of NewLogger 3] have "\<exists>s'. NewRouter example_chi (list_all (in_range 0 127)) ex_libs ex_handler NewLogger
      note1 3 (ex_env note1) ?req fresh_response (ex_server db_alice) =
      (Panicked ''invalid label value'',
       writeError ''not found'' ''NOT_FOUND'' 404 (inner_writer note1 scrape fresh_response)
         \<lparr>rsp_status := rsp_status fresh_response\<rparr>, s') \<and>
      srv_metrics s' HTTPRequestsInFlight = srv_metrics (ex_server db_alice) HTTPRequestsInFlight" by blast
  then show ?thesis by (simp only: fresh_response_def response.simps)
qed

end
