(* ===== verification/Commands.thy ===== *)
theory Commands
  imports Cache
begin

section \<open>Limiter and cache, one command at a time\<close>

text \<open>
  \<^verbatim>\<open>limiter.go\<close> and \<^verbatim>\<open>cache.go\<close> again, at the grain of the commands they send: concurrent requests
  interleave between \<open>INCR\<close> and \<open>EXPIRE\<close>, and between \<open>GET\<close>, the query and \<open>SET\<close>.  The definitions of
  \<open>Allow\<close>, \<open>UserCache_FindByID\<close> and \<open>UserCache_FindPreferences\<close> are the runs of these steps without
  interruption.
\<close>

datatype allow_pc = Counting | Expiring int | Decided "bool \<times> error"

definition allow_step ::
    "('r, 'b) redis_ops \<Rightarrow> limiter \<Rightarrow> fault \<Rightarrow> fault \<Rightarrow> string \<Rightarrow> channel
       \<Rightarrow> allow_pc \<times> 'r \<Rightarrow> allow_pc \<times> 'r" where
  "allow_step R l f1 f2 userID ch = (\<lambda>(pc, r).
     let key = rate_key userID ch in
     case pc of
       Counting \<Rightarrow>
         (case r_incr R f1 key r of
            (Inl err, r1) \<Rightarrow> (Decided (True, Some (Wrapf ''rate limit check: redis incr: '' err [])), r1)
          | (Inr count, r1) \<Rightarrow>
              if count = 1 then (Expiring count, r1) else (Decided (count \<le> limit l, None), r1))
     | Expiring count \<Rightarrow>
         (case r_expire R f2 key (window l) r of
            (Some err, r2) \<Rightarrow>
              (Decided (True, Some (Wrapf ''rate limit check: redis expire: '' err [])), r2)
          | (None, r2) \<Rightarrow> (Decided (count \<le> limit l, None), r2))
     | Decided ans \<Rightarrow> (Decided ans, r))"

datatype 'v look_pc = Getting | Querying | Filling 'v | Answered "go_error + 'v"

definition find_step ::
    "('r, string) redis_ops \<Rightarrow> duration \<Rightarrow> cache_faults \<Rightarrow> string \<Rightarrow> database
       \<Rightarrow> user look_pc \<times> 'r \<Rightarrow> user look_pc \<times> 'r" where
  "find_step R ttl f i db = (\<lambda>(pc, r).
     let key = user_key i in
     case pc of
       Getting \<Rightarrow>
         (case (case r_get R (get_fault f) key r of
                  Inr data \<Rightarrow> unmarshal_user data
                | Inl err \<Rightarrow> None) of
            Some u \<Rightarrow> (Answered (Inr u), r)
          | None \<Rightarrow> (Querying, r))
     | Querying \<Rightarrow>
         (case FindUserByID (db_fault f) i db of
            Inl err \<Rightarrow> (Answered (Inl err), r)
          | Inr u \<Rightarrow> (Filling u, r))
     | Filling u \<Rightarrow> (Answered (Inr u), snd (r_set R (set_fault f) key (marshal_user u) ttl r))
     | Answered x \<Rightarrow> (Answered x, r))"

definition prefs_step ::
    "('r, string) redis_ops \<Rightarrow> duration \<Rightarrow> cache_faults \<Rightarrow> string \<Rightarrow> database
       \<Rightarrow> user_preferences look_pc \<times> 'r \<Rightarrow> user_preferences look_pc \<times> 'r" where
  "prefs_step R ttl f i db = (\<lambda>(pc, r).
     let key = prefs_key i in
     case pc of
       Getting \<Rightarrow>
         (case (case r_get R (get_fault f) key r of
                  Inr data \<Rightarrow> unmarshal_prefs data
                | Inl err \<Rightarrow> None) of
            Some p \<Rightarrow> (Answered (Inr p), r)
          | None \<Rightarrow> (Querying, r))
     | Querying \<Rightarrow>
         (case FindPreferences (db_fault f) i db of
            Inl err \<Rightarrow> (Answered (Inl err), r)
          | Inr p \<Rightarrow> (Filling p, r))
     | Filling p \<Rightarrow> (Answered (Inr p), snd (r_set R (set_fault f) key (marshal_prefs p) ttl r))
     | Answered x \<Rightarrow> (Answered x, r))"

subsection \<open>The run of the commands is the call\<close>

lemmas allow_at = fun_cong [OF allow_step_def]
lemmas allow_steps [simp] =
  allow_at [of _ _ _ _ _ _ "(Counting, r)" for r, simplified prod.case allow_pc.case Let_def]
  allow_at [of _ _ _ _ _ _ "(Expiring n, r)" for n r, simplified prod.case allow_pc.case Let_def]
  allow_at [of _ _ _ _ _ _ "(Decided a, r)" for a r, simplified prod.case allow_pc.case Let_def]

lemmas find_at = fun_cong [OF find_step_def]
lemmas find_steps [simp] =
  find_at [of _ _ _ _ _ "(Getting, r)" for r, simplified prod.case look_pc.case Let_def]
  find_at [of _ _ _ _ _ "(Querying, r)" for r, simplified prod.case look_pc.case Let_def]
  find_at [of _ _ _ _ _ "(Filling u, r)" for u r, simplified prod.case look_pc.case Let_def]
  find_at [of _ _ _ _ _ "(Answered x, r)" for x r, simplified prod.case look_pc.case Let_def]

lemmas prefs_at = fun_cong [OF prefs_step_def]
lemmas prefs_steps [simp] =
  prefs_at [of _ _ _ _ _ "(Getting, r)" for r, simplified prod.case look_pc.case Let_def]
  prefs_at [of _ _ _ _ _ "(Querying, r)" for r, simplified prod.case look_pc.case Let_def]
  prefs_at [of _ _ _ _ _ "(Filling p, r)" for p r, simplified prod.case look_pc.case Let_def]
  prefs_at [of _ _ _ _ _ "(Answered x, r)" for x r, simplified prod.case look_pc.case Let_def]

lemma Allow_run:
  "(allow_step R l f1 f2 u c ^^ 2) (Counting, r) =
     (case Allow R l f1 f2 u c r of (ans, r') \<Rightarrow> (Decided ans, r'))"
  by (auto simp: numeral_2_eq_2 Allow_def Let_def split: prod.split sum.split option.split)

lemma FindByID_run:
  "(find_step R ttl f i db ^^ 3) (Getting, r) =
     (case UserCache_FindByID R ttl f i db r of (x, r') \<Rightarrow> (Answered x, r'))"
  by (auto simp: numeral_3_eq_3 UserCache_FindByID_def Let_def split: sum.split option.split)

lemma FindPreferences_run:
  "(prefs_step R ttl f i db ^^ 3) (Getting, r) =
     (case UserCache_FindPreferences R ttl f i db r of (x, r') \<Rightarrow> (Answered x, r'))"
  by (auto simp: numeral_3_eq_3 UserCache_FindPreferences_def Let_def split: sum.split option.split)

subsection \<open>What a command leaves alone\<close>

text \<open>A lookup under way is sure of \<open>x\<close> when what it holds is the value of \<open>x\<close>.\<close>

fun sure :: "go_error + 'v \<Rightarrow> 'v look_pc \<Rightarrow> bool" where
  "sure x (Filling v) = (x = Inr v)"
| "sure x (Answered y) = (\<forall>v. y = Inr v \<longrightarrow> x = Inr v)"
| "sure x pc = True"

context redis_server
begin

lemma allow_step_frame:
  assumes "allow_step R l f1 f2 u c (a, r) = (a', r')"
  shows "k \<noteq> rate_key u c \<Longrightarrow> entry r' k = entry r k" "clock r' = clock r"
  using assms incr_frame [of k "rate_key u c" f1 r] expire_frame [of k "rate_key u c" f2 "window l" r]
    incr_clock [of f1 "rate_key u c" r] expire_clock [of f2 "rate_key u c" "window l" r]
  by (cases a; auto split: prod.splits sum.splits option.splits if_splits)+

end

context user_cache_server
begin

lemma find_step_sound:
  assumes "store_ok db" "coherent db (entry r)" "sure (FindUserByID NoFault i db) p"
    and "find_step R ttl f i db (p, r) = (p', r')"
  shows "sure (FindUserByID NoFault i db) p'" "coherent db (entry r')"
    "entry r' (rate_key u c) = entry r (rate_key u c)" "clock r' = clock r"
proof -
  have other: "rate_key u c \<noteq> user_key i" for u c using rate_key_other(1) by metis
  note set = set_entry [of "set_fault f" "user_key i" _ r]
  have "sure (FindUserByID NoFault i db) p' \<and> coherent db (entry r') \<and>
      entry r' (rate_key u c) = entry r (rate_key u c) \<and> clock r' = clock r"
  proof (cases p)
    case Getting
    with assms cached_user [OF assms(1,2), of "get_fault f" i] show ?thesis
      by (auto split: option.splits)
  next
    case Querying
    with assms FindUserByID_fault [of "db_fault f" i db] show ?thesis
      by (auto split: sum.splits)
  next
    case (Filling v)
    with assms set [of "marshal_user v"] set_frame [OF other] show ?thesis
      by (auto simp: coherent_put_user set_clock other)
  next
    case (Answered x)
    with assms show ?thesis by auto
  qed
  then show "sure (FindUserByID NoFault i db) p'" "coherent db (entry r')"
    "entry r' (rate_key u c) = entry r (rate_key u c)" "clock r' = clock r" by simp_all
qed

lemma prefs_step_sound:
  assumes "store_ok db" "coherent db (entry r)" "sure (FindPreferences NoFault i db) p"
    and "\<not> no_rows_fault (db_fault f)"
    and "prefs_step R ttl f i db (p, r) = (p', r')"
  shows "sure (FindPreferences NoFault i db) p'" "coherent db (entry r')"
    "entry r' (rate_key u c) = entry r (rate_key u c)" "clock r' = clock r"
proof -
  have other: "rate_key u c \<noteq> prefs_key i" for u c using rate_key_other(2) by metis
  note set = set_entry [of "set_fault f" "prefs_key i" _ r]
  have "sure (FindPreferences NoFault i db) p' \<and> coherent db (entry r') \<and>
      entry r' (rate_key u c) = entry r (rate_key u c) \<and> clock r' = clock r"
  proof (cases p)
    case Getting
    with assms cached_prefs [OF assms(1,2), of "get_fault f" i] show ?thesis
      by (auto split: option.splits)
  next
    case Querying
    with assms FindPreferences_fault [of "db_fault f" i db] show ?thesis
      by (auto split: sum.splits)
  next
    case (Filling v)
    with assms set [of "marshal_prefs v"] set_frame [OF other] show ?thesis
      by (auto simp: coherent_put_prefs set_clock other)
  next
    case (Answered x)
    with assms show ?thesis by auto
  qed
  then show "sure (FindPreferences NoFault i db) p'" "coherent db (entry r')"
    "entry r' (rate_key u c) = entry r (rate_key u c)" "clock r' = clock r" by simp_all
qed

end

end
