(* ===== verification/Requests.thy ===== *)
theory Requests
  imports Intake Commands
begin

section \<open>A request, one call at a time\<close>

text \<open>
  \<^verbatim>\<open>handler.go\<close> again, at two finer grains.  \<open>request_step\<close> makes one call of a component (the limiter, the
  two lookups of the cache, the insert, the write to Kafka), \<open>remote_step\<close> one call of Redis, Postgres or
  Kafka, the grain at which the goroutines of \<^verbatim>\<open>net/http\<close> interleave.  The definition of \<open>SendNotification\<close>
  in \<open>Api\<close> is the run of these steps without interruption.
\<close>

datatype rpc =
  Arrived
| Finding send_request
| Choosing send_request user
| Saving send_request user
| Publishing send_request user
| Replied response

text \<open>What the handler does on its own: with the body, and with the answer of each component.\<close>

definition check_request :: "request \<Rightarrow> response \<Rightarrow> response + send_request" where
  "check_request req rsp =
     (case decode_send_request (rq_body req) of
        None \<Rightarrow> Inl (writeError ''invalid request body'' ''BAD_REQUEST'' 400 rsp)
      | Some r \<Rightarrow>
          if sr_user_id r = [] \<or> sr_channel r = [] \<or> sr_template_id r = [] then
            Inl (writeError ''user_id, channel, and template_id are required'' ''VALIDATION_ERROR'' 400
                   rsp)
          else if sr_channel r \<notin> set validChannels then
            Inl (writeError ''invalid channel: must be ios, android, sms, or email''
                   ''VALIDATION_ERROR'' 400 rsp)
          else Inr r)"

definition after_allow ::
    "logger \<Rightarrow> response \<Rightarrow> send_request \<Rightarrow> bool \<times> error \<Rightarrow> ('d, 'r, 'k) server
       \<Rightarrow> rpc \<times> ('d, 'r, 'k) server" where
  "after_allow log rsp r = (\<lambda>(allowed, err) s.
     let s1 = (case err of
                 None \<Rightarrow> s
               | Some x \<Rightarrow> srv_log log LevelError ''rate limiter error, failing open''
                            [(''error'', error_text x)] s)
     in if \<not> allowed then
          (Replied (writeError ''rate limit exceeded for this channel'' ''RATE_LIMITED'' 429 rsp),
           srv_inc (NotificationsSkippedTotal (sr_channel r) ''rate_limited'') s1)
        else (Finding r, s1))"

definition after_find ::
    "logger \<Rightarrow> response \<Rightarrow> send_request \<Rightarrow> go_error + user \<Rightarrow> ('d, 'r, 'k) server
       \<Rightarrow> rpc \<times> ('d, 'r, 'k) server" where
  "after_find log rsp r x s =
     (case x of
        Inl err \<Rightarrow>
          (Replied (writeError ''user not found'' ''USER_NOT_FOUND'' 404 rsp),
           srv_log log LevelError ''failed to resolve user''
             [(''user_id'', sr_user_id r), (''error'', error_text err)] s)
      | Inr u \<Rightarrow> (Choosing r u, s))"

definition after_prefs ::
    "logger \<Rightarrow> response \<Rightarrow> send_request \<Rightarrow> user \<Rightarrow> go_error + user_preferences \<Rightarrow> ('d, 'r, 'k) server
       \<Rightarrow> rpc \<times> ('d, 'r, 'k) server" where
  "after_prefs log rsp r u x s =
     (case x of
        Inl err \<Rightarrow>
          (Replied (writeError ''internal server error'' ''INTERNAL_ERROR'' 500 rsp),
           srv_log log LevelError ''failed to load preferences''
             [(''user_id'', sr_user_id r), (''error'', error_text err)] s)
      | Inr prefs \<Rightarrow>
          if \<not> isChannelEnabled (sr_channel r) prefs then
            (Replied (writeJSON 200 (send_response_json
               \<lparr>sresp_notification_id = [], sresp_status = ''skipped'',
                sresp_message = ''user has disabled this notification channel''\<rparr>) rsp),
             srv_inc (NotificationsSkippedTotal (sr_channel r) ''user_opted_out'') s)
          else (Saving r u, s))"

abbreviation request_log :: "('f, 'd, 'r) handler \<Rightarrow> logger" where
  "request_log h \<equiv> With (h_logger h) [(''handler'', ''SendNotification'')]"

text \<open>One call of a component, with what follows it.\<close>

definition request_step ::
    "('r, 'k) libs \<Rightarrow> ('f, 'd, 'r) handler \<Rightarrow> 'f api_env \<Rightarrow> request \<Rightarrow> response
       \<Rightarrow> rpc \<times> ('d, 'r, 'k) server \<Rightarrow> rpc \<times> ('d, 'r, 'k) server" where
  "request_step L h e req rsp = (\<lambda>(pc, s).
     let log = request_log h in
     case pc of
       Arrived \<Rightarrow>
         (case check_request req rsp of
            Inl x \<Rightarrow> (Replied x, s)
          | Inr r \<Rightarrow>
              (case Allow (lib_redis L) (h_limiter h) (ae_incr e) (ae_expire e) (sr_user_id r)
                      (sr_channel r) (srv_redis s) of
                 (ans, r1) \<Rightarrow> after_allow log rsp r ans (s\<lparr>srv_redis := r1\<rparr>)))
     | Finding r \<Rightarrow>
         (case urepo_find (h_user_cache h) (ae_user e) (sr_user_id r) (srv_db s) (srv_redis s) of
            (x, r1) \<Rightarrow> after_find log rsp r x (s\<lparr>srv_redis := r1\<rparr>))
     | Choosing r u \<Rightarrow>
         (case urepo_prefs (h_user_cache h) (ae_prefs e) (sr_user_id r) (srv_db s) (srv_redis s) of
            (x, r2) \<Rightarrow> after_prefs log rsp r u x (s\<lparr>srv_redis := r2\<rparr>))
     | Saving r u \<Rightarrow>
         (case nrepo_save (h_notif_repo h) (ae_save e) (new_notification e r u) (srv_db s) of
            (Some err, d1) \<Rightarrow>
              (Replied (writeError ''internal server error'' ''INTERNAL_ERROR'' 500 rsp),
               srv_log log LevelError ''failed to save notification'' [(''error'', error_text err)]
                 (s\<lparr>srv_db := d1\<rparr>))
          | (None, d1) \<Rightarrow> (Publishing r u, s\<lparr>srv_db := d1\<rparr>))
     | Publishing r u \<Rightarrow>
         (let notif = new_notification e r u in
          case Publish (lib_quote L) (lib_tz L) (lib_put L) (h_producer h) (ae_sent_at e) notif
                  (srv_broker s) of
            (Some err, k1) \<Rightarrow>
              (Replied (writeError ''failed to queue notification'' ''INTERNAL_ERROR'' 500 rsp),
               srv_inc (KafkaPublishTotal (sr_channel r) ''failure'')
                 (srv_log log LevelError ''failed to publish to kafka''
                   [(''notification_id'', notif_id notif), (''channel'', notif_channel notif),
                    (''error'', error_text err)] (s\<lparr>srv_broker := k1\<rparr>)))
          | (None, k1) \<Rightarrow>
              (Replied (writeJSON 202 (send_response_json
                 \<lparr>sresp_notification_id = notif_id notif, sresp_status = ''queued'',
                  sresp_message = ''notification accepted for delivery''\<rparr>) rsp),
               srv_log log LevelInfo ''notification queued''
                 [(''notification_id'', notif_id notif), (''user_id'', sr_user_id r),
                  (''channel'', notif_channel notif)]
                 (srv_inc (KafkaPublishTotal (sr_channel r) ''success'') (s\<lparr>srv_broker := k1\<rparr>))))
     | Replied rsp1 \<Rightarrow> (Replied rsp1, s))"

lemmas after_defs = check_request_def after_allow_def after_find_def after_prefs_def

subsection \<open>The run of the steps is the handler\<close>

lemmas request_at = fun_cong [OF request_step_def]
lemmas request_steps =
  request_at [of _ _ _ _ _ "(Arrived, s)" for s, simplified prod.case rpc.case]
  request_at [of _ _ _ _ _ "(Finding r, s)" for r s, simplified prod.case rpc.case]
  request_at [of _ _ _ _ _ "(Choosing r u, s)" for r u s, simplified prod.case rpc.case]
  request_at [of _ _ _ _ _ "(Saving r u, s)" for r u s, simplified prod.case rpc.case]
  request_at [of _ _ _ _ _ "(Publishing r u, s)" for r u s, simplified prod.case rpc.case]

lemma request_step_Replied [simp]: "request_step L h e req rsp (Replied x, s) = (Replied x, s)"
  by (simp add: request_step_def)

lemma Replied_stays [simp]: "(request_step L h e req rsp ^^ k) (Replied x, s) = (Replied x, s)"
  by (induction k) simp_all

definition replied :: "response \<times> ('d, 'r, 'k) server \<Rightarrow> rpc \<times> ('d, 'r, 'k) server" where
  "replied = (\<lambda>(rsp, s). (Replied rsp, s))"

lemma replied_pair [simp]: "replied (x, s) = (Replied x, s)"
  by (simp add: replied_def)

lemma enqueue_run:
  "(request_step L h e req rsp ^^ Suc (Suc k)) (Saving r u, s) =
     replied (enqueue L h e (request_log h) r u rsp s)"
  unfolding funpow_Suc_right comp_apply
  by (simp add: request_steps after_defs enqueue_def Let_def split: option.split prod.split)

lemma resolve_run:
  "(request_step L h e req rsp ^^ Suc (Suc (Suc (Suc k)))) (Finding r, s) =
     replied (resolve L h e (request_log h) r rsp s)"
proof -
  have choose: "(request_step L h e req rsp ^^ Suc (Suc (Suc k))) (Choosing r u, s) =
      replied (case urepo_prefs (h_user_cache h) (ae_prefs e) (sr_user_id r) (srv_db s) (srv_redis s) of
         (Inl err, r2) \<Rightarrow>
           (writeError ''internal server error'' ''INTERNAL_ERROR'' 500 rsp,
            srv_log (request_log h) LevelError ''failed to load preferences''
              [(''user_id'', sr_user_id r), (''error'', error_text err)] (s\<lparr>srv_redis := r2\<rparr>))
       | (Inr prefs, r2) \<Rightarrow>
           if \<not> isChannelEnabled (sr_channel r) prefs then
             (writeJSON 200 (send_response_json
                \<lparr>sresp_notification_id = [], sresp_status = ''skipped'',
                 sresp_message = ''user has disabled this notification channel''\<rparr>) rsp,
              srv_inc (NotificationsSkippedTotal (sr_channel r) ''user_opted_out'')
                (s\<lparr>srv_redis := r2\<rparr>))
           else enqueue L h e (request_log h) r u rsp (s\<lparr>srv_redis := r2\<rparr>))" for u s
    unfolding funpow_Suc_right [of "Suc (Suc k)"] comp_apply
    using enqueue_run [of k L h e req rsp r u]
    by (simp add: request_steps after_defs Let_def del: funpow.simps split: prod.split sum.split)
  show ?thesis
    unfolding funpow_Suc_right [of "Suc (Suc (Suc k))"] comp_apply
    using choose
    by (simp add: request_steps after_defs resolve_def Let_def del: funpow.simps split: prod.split sum.split)
qed

lemma request_run_end:
  "(request_step L h e req rsp ^^ (5 + k)) (Arrived, s) =
     (case SendNotification L h e req rsp s of (rsp', s') \<Rightarrow> (Replied rsp', s'))"
proof -
  have "(request_step L h e req rsp ^^ Suc (Suc (Suc (Suc (Suc k))))) (Arrived, s) =
      replied (SendNotification L h e req rsp s)"
    unfolding funpow_Suc_right [of "Suc (Suc (Suc (Suc k)))"] comp_apply
    using resolve_run [of k L h e req rsp]
    by (simp add: request_steps after_defs SendNotification_def Let_def del: funpow.simps
        split: prod.split option.split)
  then show ?thesis by (simp add: replied_def eval_nat_numeral del: funpow.simps)
qed

subsection \<open>What one call does\<close>

text \<open>The request that is past its insert and before its write, if it is.\<close>

fun publishing :: "rpc \<Rightarrow> bool" where
  "publishing (Publishing r u) = True"
| "publishing pc = False"

context api_contract
begin

lemma request_step_cases:
  assumes "request_step L h e req rsp (pc, s) = (pc', s')"
  obtains (early) "srv_db s' = srv_db s" "srv_broker s' = srv_broker s" "\<not> publishing pc" "\<not> publishing pc'"
  | (save) r u x where "pc = Saving r u" "srv_redis s' = srv_redis s" "srv_broker s' = srv_broker s"
      "nrepo_save N (ae_save e) (new_notification e r u) (srv_db s) = (x, srv_db s')"
      "publishing pc' \<longleftrightarrow> x = None" "publishing pc' \<Longrightarrow> pc' = Publishing r u"
  | (publish) r u x where "pc = Publishing r u" "srv_db s' = srv_db s" "srv_redis s' = srv_redis s"
      "Publish (lib_quote L) (lib_tz L) put (h_producer h) (ae_sent_at e) (new_notification e r u)
         (srv_broker s) = (x, srv_broker s')" "\<not> publishing pc'"
proof (cases pc)
  case Arrived
  with assms show thesis
    by (intro early) (auto simp: request_steps after_defs Let_def split: option.splits if_splits prod.splits)
next
  case (Finding r)
  with assms show thesis
    by (intro early) (auto simp: request_steps after_defs Let_def split: sum.splits prod.splits)
next
  case (Choosing r u)
  with assms show thesis
    by (intro early) (auto simp: request_steps after_defs Let_def split: sum.splits if_splits prod.splits)
next
  case (Saving r u)
  obtain x d where "nrepo_save N (ae_save e) (new_notification e r u) (srv_db s) = (x, d)" by fastforce
  with Saving assms show thesis
    by (intro save [of r u x]) (auto simp: request_steps after_defs Let_def parts split: option.splits)
next
  case (Publishing r u)
  obtain x k where "Publish (lib_quote L) (lib_tz L) put (h_producer h) (ae_sent_at e)
      (new_notification e r u) (srv_broker s) = (x, k)" by fastforce
  with Publishing assms show thesis
    by (intro publish [of r u x]) (auto simp: request_steps after_defs Let_def parts split: option.splits)
next
  case (Replied x)
  with assms show thesis by (intro early) auto
qed

lemma request_step_good:
  assumes "goodN (srv_db s)" "goodU (srv_db s) (srv_redis s)" "sane (ae_prefs e)"
    and run: "request_step L h e req rsp (pc, s) = (pc', s')"
  shows "goodN (srv_db s') \<and> goodU (srv_db s') (srv_redis s')"
  using run
proof (cases rule: request_step_cases)
  case early
  have "goodU (srv_db s) (srv_redis s')"
  proof (cases pc)
    case Arrived
    with run assms(2) allow_goodU [OF assms(2)] show ?thesis
      by (auto simp: request_steps after_defs Let_def split: option.splits if_splits prod.splits)
        (metis snd_conv)+
  next
    case (Finding r)
    with run people.good_find [OF assms(2), of "ae_user e" "sr_user_id r"] show ?thesis
      by (auto simp: request_steps after_defs Let_def parts split: sum.splits prod.splits)
  next
    case (Choosing r u)
    with run people.good_prefs [OF assms(2,3), of "sr_user_id r"] show ?thesis
      by (auto simp: request_steps after_defs Let_def parts split: sum.splits if_splits prod.splits)
  next
    case (Saving r u)
    with run have "srv_redis s' = srv_redis s"
      by (auto simp: request_steps after_defs split: option.splits prod.splits)
    with assms(2) show ?thesis by simp
  next
    case (Replied x)
    with run assms(2) show ?thesis by simp
  qed (use early in simp)
  with assms(1) early show ?thesis by simp
next
  case (save r u x)
  with stored.good_save [OF assms(1)] save_goodU [OF assms(1,2)] show ?thesis by (metis snd_conv)
qed (use assms in simp)

text \<open>What a request carries along was decoded from its body and answered by the directory.\<close>

definition found_user :: "send_request \<Rightarrow> user \<Rightarrow> bool" where
  "found_user r u \<longleftrightarrow> (\<exists>d k. goodN d \<and> goodU d k \<and> directory d (sr_user_id r) = Inr u)"

definition vetted :: "request \<Rightarrow> rpc \<Rightarrow> bool" where
  "vetted req pc \<longleftrightarrow>
     (case pc of
        Finding r \<Rightarrow> decode_send_request (rq_body req) = Some r
      | Choosing r u \<Rightarrow> decode_send_request (rq_body req) = Some r \<and> found_user r u
      | Saving r u \<Rightarrow> decode_send_request (rq_body req) = Some r \<and> found_user r u
      | Publishing r u \<Rightarrow> decode_send_request (rq_body req) = Some r \<and> found_user r u
      | _ \<Rightarrow> True)"

lemma request_step_vetted:
  assumes "goodN (srv_db s)" "goodU (srv_db s) (srv_redis s)" "vetted req pc"
    and run: "request_step L h e req rsp (pc, s) = (pc', s')"
  shows "vetted req pc'"
proof (cases pc)
  case Arrived
  with run show ?thesis
    by (auto simp: vetted_def request_steps after_defs Let_def split: option.splits if_splits prod.splits)
next
  case (Finding r)
  obtain x k where find: "urepo_find U (ae_user e) (sr_user_id r) (srv_db s) (srv_redis s) = (x, k)"
    by fastforce
  have "directory (srv_db s) (sr_user_id r) = Inr u" if "x = Inr u" for u
    using people.find_ok [OF assms(2), of "ae_user e"] find that by simp
  with Finding run find assms(1-3) show ?thesis
    by (auto simp: vetted_def found_user_def request_steps after_defs parts split: sum.splits) blast
next
  case (Choosing r u)
  with run assms(3) show ?thesis
    by (auto simp: vetted_def request_steps after_defs Let_def split: sum.splits if_splits prod.splits)
next
  case (Saving r u)
  with run assms(3) show ?thesis
    by (auto simp: vetted_def request_steps after_defs Let_def split: option.splits prod.splits)
next
  case (Publishing r u)
  with run show ?thesis
    by (auto simp: vetted_def request_steps after_defs Let_def split: option.splits prod.splits)
next
  case (Replied x)
  with run show ?thesis by (auto simp: vetted_def)
qed

end

subsection \<open>One remote call at a time\<close>

text \<open>
  The grain at which requests interleave in the running system: inside the limiter and the cache one
  Redis command or query per step, with \<open>ttl\<close> the cache's time to live.
\<close>

datatype remote_pc =
  At rpc
| Limiting send_request allow_pc
| Looking send_request "user look_pc"
| Preferring send_request user "user_preferences look_pc"

definition at :: "rpc \<times> 's \<Rightarrow> remote_pc \<times> 's" where
  "at = (\<lambda>(pc, s). (At pc, s))"

definition limit_step ::
    "('r, 'k) libs \<Rightarrow> ('f, 'd, 'r) handler \<Rightarrow> 'f api_env \<Rightarrow> response \<Rightarrow> send_request \<Rightarrow> allow_pc
       \<Rightarrow> ('d, 'r, 'k) server \<Rightarrow> remote_pc \<times> ('d, 'r, 'k) server" where
  "limit_step L h e rsp r a s =
     (case allow_step (lib_redis L) (h_limiter h) (ae_incr e) (ae_expire e) (sr_user_id r)
             (sr_channel r) (a, srv_redis s) of
        (Decided ans, r1) \<Rightarrow> at (after_allow (request_log h) rsp r ans (s\<lparr>srv_redis := r1\<rparr>))
      | (a', r1) \<Rightarrow> (Limiting r a', s\<lparr>srv_redis := r1\<rparr>))"

definition lookup_step ::
    "('r, 'k) libs \<Rightarrow> duration \<Rightarrow> ('f, database, 'r) handler \<Rightarrow> cache_faults api_env \<Rightarrow> response
       \<Rightarrow> send_request \<Rightarrow> user look_pc \<Rightarrow> (database, 'r, 'k) server \<Rightarrow> remote_pc \<times> (database, 'r, 'k) server"
  where
  "lookup_step L ttl h e rsp r p s =
     (case find_step (lib_redis L) ttl (ae_user e) (sr_user_id r) (srv_db s) (p, srv_redis s) of
        (Answered x, r1) \<Rightarrow> at (after_find (request_log h) rsp r x (s\<lparr>srv_redis := r1\<rparr>))
      | (p', r1) \<Rightarrow> (Looking r p', s\<lparr>srv_redis := r1\<rparr>))"

definition prefer_step ::
    "('r, 'k) libs \<Rightarrow> duration \<Rightarrow> ('f, database, 'r) handler \<Rightarrow> cache_faults api_env \<Rightarrow> response
       \<Rightarrow> send_request \<Rightarrow> user \<Rightarrow> user_preferences look_pc \<Rightarrow> (database, 'r, 'k) server
       \<Rightarrow> remote_pc \<times> (database, 'r, 'k) server" where
  "prefer_step L ttl h e rsp r u p s =
     (case prefs_step (lib_redis L) ttl (ae_prefs e) (sr_user_id r) (srv_db s) (p, srv_redis s) of
        (Answered x, r1) \<Rightarrow> at (after_prefs (request_log h) rsp r u x (s\<lparr>srv_redis := r1\<rparr>))
      | (p', r1) \<Rightarrow> (Preferring r u p', s\<lparr>srv_redis := r1\<rparr>))"

definition remote_step ::
    "('r, 'k) libs \<Rightarrow> duration \<Rightarrow> (cache_faults, database, 'r) handler \<Rightarrow> cache_faults api_env \<Rightarrow> request
       \<Rightarrow> response \<Rightarrow> remote_pc \<times> (database, 'r, 'k) server \<Rightarrow> remote_pc \<times> (database, 'r, 'k) server" where
  "remote_step L ttl h e req rsp = (\<lambda>(pc, s).
     case pc of
       Limiting r a \<Rightarrow> limit_step L h e rsp r a s
     | Looking r p \<Rightarrow> lookup_step L ttl h e rsp r p s
     | Preferring r u p \<Rightarrow> prefer_step L ttl h e rsp r u p s
     | At pc1 \<Rightarrow>
         (case pc1 of
            Arrived \<Rightarrow>
              (case check_request req rsp of
                 Inl x \<Rightarrow> (At (Replied x), s)
               | Inr r \<Rightarrow> limit_step L h e rsp r Counting s)
          | Finding r \<Rightarrow> lookup_step L ttl h e rsp r Getting s
          | Choosing r u \<Rightarrow> prefer_step L ttl h e rsp r u Getting s
          | _ \<Rightarrow> at (request_step L h e req rsp (pc1, s))))"

lemma at_pair [simp]: "at (pc, s) = (At pc, s)"
  by (simp add: at_def)

lemma remote_simps:
  "remote_step L ttl h e req rsp (Limiting r a, s) = limit_step L h e rsp r a s"
  "remote_step L ttl h e req rsp (Looking r p, s) = lookup_step L ttl h e rsp r p s"
  "remote_step L ttl h e req rsp (Preferring r u q, s) = prefer_step L ttl h e rsp r u q s"
  "remote_step L ttl h e req rsp (At Arrived, s) =
     (case check_request req rsp of
        Inl x \<Rightarrow> (At (Replied x), s)
      | Inr r \<Rightarrow> limit_step L h e rsp r Counting s)"
  "remote_step L ttl h e req rsp (At (Finding r), s) = lookup_step L ttl h e rsp r Getting s"
  "remote_step L ttl h e req rsp (At (Choosing r u), s) = prefer_step L ttl h e rsp r u Getting s"
  "remote_step L ttl h e req rsp (At (Saving r u), s) = at (request_step L h e req rsp (Saving r u, s))"
  "remote_step L ttl h e req rsp (At (Publishing r u), s) =
     at (request_step L h e req rsp (Publishing r u, s))"
  "remote_step L ttl h e req rsp (At (Replied x), s) = (At (Replied x), s)"
  by (simp_all add: remote_step_def)

text \<open>How many remote calls a component takes, and how many a request has left.\<close>

fun calls :: "rpc \<Rightarrow> nat" where
  "calls Arrived = 2"
| "calls (Finding r) = 3"
| "calls (Choosing r u) = 3"
| "calls (Saving r u) = 1"
| "calls (Publishing r u) = 1"
| "calls (Replied x) = 0"

fun calls_left :: "rpc \<Rightarrow> nat" where
  "calls_left Arrived = 10"
| "calls_left (Finding r) = 8"
| "calls_left (Choosing r u) = 5"
| "calls_left (Saving r u) = 2"
| "calls_left (Publishing r u) = 1"
| "calls_left (Replied x) = 0"

lemma calls_left_step:
  assumes "request_step L h e req rsp (pc, s) = (pc', s')"
  shows "calls pc + calls_left pc' \<le> calls_left pc"
  using assms
  by (cases pc) (auto simp: request_steps after_defs Let_def split: prod.splits sum.splits option.splits if_splits)

text \<open>The commands of a component, one after the other, are the component's call.\<close>

lemmas call_defs = remote_simps limit_step_def lookup_step_def prefer_step_def request_steps Let_def
  NewUserCache_def

lemma limiter_run:
  "\<exists>j \<le> 2. (remote_step L ttl h e req rsp ^^ j) (At Arrived, s) = at (request_step L h e req rsp (Arrived, s))"
proof (cases "check_request req rsp")
  case (Inl x)
  then show ?thesis by (intro exI [of _ 1]) (simp add: call_defs)
next
  case (Inr r)
  obtain c r1 where incr: "r_incr (lib_redis L) (ae_incr e) (rate_key (sr_user_id r) (sr_channel r))
      (srv_redis s) = (c, r1)" by fastforce
  show ?thesis
  proof (cases "c = Inr 1")
    case True
    with Inr incr show ?thesis
      by (intro exI [of _ 2]) (auto simp: numeral_2_eq_2 call_defs Allow_def split: prod.split option.split)
  next
    case False
    with Inr incr show ?thesis
      by (intro exI [of _ 1]) (auto simp: call_defs Allow_def split: sum.split)
  qed
qed

lemma finding_run:
  assumes "h_user_cache h = NewUserCache (lib_redis L) ttl"
  shows "\<exists>j \<le> 3. (remote_step L ttl h e req rsp ^^ j) (At (Finding r), s) =
    at (request_step L h e req rsp (Finding r, s))"
proof (cases "case r_get (lib_redis L) (get_fault (ae_user e)) (user_key (sr_user_id r)) (srv_redis s) of
    Inr data \<Rightarrow> unmarshal_user data | Inl err \<Rightarrow> None")
  case None
  show ?thesis
  proof (cases "FindUserByID (db_fault (ae_user e)) (sr_user_id r) (srv_db s)")
    case (Inl err)
    with None show ?thesis
      by (intro exI [of _ 2]) (simp add: numeral_2_eq_2 call_defs assms UserCache_FindByID_def)
  next
    case (Inr u)
    with None show ?thesis
      by (intro exI [of _ 3]) (simp add: numeral_3_eq_3 call_defs assms UserCache_FindByID_def)
  qed
next
  case (Some u)
  then show ?thesis by (intro exI [of _ 1]) (simp add: call_defs assms UserCache_FindByID_def)
qed

lemma choosing_run:
  assumes "h_user_cache h = NewUserCache (lib_redis L) ttl"
  shows "\<exists>j \<le> 3. (remote_step L ttl h e req rsp ^^ j) (At (Choosing r u), s) =
    at (request_step L h e req rsp (Choosing r u, s))"
proof (cases "case r_get (lib_redis L) (get_fault (ae_prefs e)) (prefs_key (sr_user_id r)) (srv_redis s) of
    Inr data \<Rightarrow> unmarshal_prefs data | Inl err \<Rightarrow> None")
  case None
  show ?thesis
  proof (cases "FindPreferences (db_fault (ae_prefs e)) (sr_user_id r) (srv_db s)")
    case (Inl err)
    with None show ?thesis
      by (intro exI [of _ 2]) (simp add: numeral_2_eq_2 call_defs assms UserCache_FindPreferences_def)
  next
    case (Inr q)
    with None show ?thesis
      by (intro exI [of _ 3]) (simp add: numeral_3_eq_3 call_defs assms UserCache_FindPreferences_def)
  qed
next
  case (Some q)
  then show ?thesis by (intro exI [of _ 1]) (simp add: call_defs assms UserCache_FindPreferences_def)
qed

lemma component_run:
  assumes "h_user_cache h = NewUserCache (lib_redis L) ttl"
  shows "\<exists>j \<le> calls pc. (remote_step L ttl h e req rsp ^^ j) (At pc, s) =
    at (request_step L h e req rsp (pc, s))"
proof (cases pc)
  case (Saving r u)
  then show ?thesis by (intro exI [of _ 1]) (simp add: remote_simps)
next
  case (Publishing r u)
  then show ?thesis by (intro exI [of _ 1]) (simp add: remote_simps)
next
  case (Replied x)
  then show ?thesis by (intro exI [of _ 0]) simp
qed (use limiter_run finding_run [OF assms] choosing_run [OF assms] in simp_all)

lemma remote_run:
  assumes "h_user_cache h = NewUserCache (lib_redis L) ttl"
    and "(request_step L h e req rsp ^^ n) (pc, s) = (Replied x, s')"
  shows "\<exists>j \<le> calls_left pc. (remote_step L ttl h e req rsp ^^ j) (At pc, s) = (At (Replied x), s')"
  using assms(2)
proof (induction n arbitrary: pc s)
  case 0
  then show ?case by (intro exI [of _ 0]) simp
next
  case (Suc n)
  let ?f = "remote_step L ttl h e req rsp"
  obtain pc1 s1 where one: "request_step L h e req rsp (pc, s) = (pc1, s1)" by fastforce
  have "(request_step L h e req rsp ^^ n) (pc1, s1) = (Replied x, s')"
    using Suc.prems one by (simp add: funpow_swap1)
  then obtain j where j: "j \<le> calls_left pc1" "(?f ^^ j) (At pc1, s1) = (At (Replied x), s')"
    using Suc.IH by blast
  obtain i where i: "i \<le> calls pc" "(?f ^^ i) (At pc, s) = (At pc1, s1)"
    using component_run [OF assms(1), of pc e req rsp s] one by auto
  have "(?f ^^ (j + i)) (At pc, s) = (At (Replied x), s')" using i(2) j(2) by (simp add: funpow_add)
  moreover have "j + i \<le> calls_left pc" using i(1) j(1) calls_left_step [OF one] by simp
  ultimately show ?case by blast
qed

lemma remote_run_end:
  assumes "h_user_cache h = NewUserCache (lib_redis L) ttl"
  shows "(remote_step L ttl h e req rsp ^^ (10 + k)) (At Arrived, s) =
    (case SendNotification L h e req rsp s of (rsp', s') \<Rightarrow> (At (Replied rsp'), s'))"
proof -
  let ?f = "remote_step L ttl h e req rsp"
  obtain rsp' s' where run: "SendNotification L h e req rsp s = (rsp', s')" by fastforce
  then have "(request_step L h e req rsp ^^ 5) (Arrived, s) = (Replied rsp', s')"
    using request_run_end [of 0 L h e req rsp s] by simp
  then obtain j where j: "j \<le> 10" "(?f ^^ j) (At Arrived, s) = (At (Replied rsp'), s')"
    using remote_run [OF assms] by fastforce
  have stay: "(?f ^^ m) (At (Replied rsp'), s') = (At (Replied rsp'), s')" for m
    by (induction m) (simp_all add: remote_simps)
  have "(?f ^^ (10 + k)) (At Arrived, s) = (?f ^^ (10 + k - j)) (At (Replied rsp'), s')"
    using j(1) by (intro run_prefix [OF j(2)]) simp
  then show ?thesis by (simp add: run stay)
qed

text \<open>The request that owns an id it has stored and not yet published.\<close>

fun owning :: "remote_pc \<Rightarrow> bool" where
  "owning (At pc) = publishing pc"
| "owning pc = False"

text \<open>
  C18 (refinement).  A request served alone by the server's own handler, one remote call at a time, ends
  after at most ten calls in exactly the response and the state of \<open>SendNotification\<close>.
\<close>

theorem remote_refined:
  "(remote_step L ttl (server_handler (lib_redis L) ttl p l lg) e req rsp ^^ (10 + k)) (At Arrived, s) =
     (case SendNotification L (server_handler (lib_redis L) ttl p l lg) e req rsp s of
        (rsp', s') \<Rightarrow> (At (Replied rsp'), s'))"
  by (rule remote_run_end) simp

subsection \<open>A request among others\<close>

text \<open>
  The other requests, the workers and the passing of time change the shared state between two calls of a
  request; \<open>env i\<close> is the state they leave for its call \<open>i\<close>.
\<close>

fun interleaved ::
    "('r, 'k) libs \<Rightarrow> duration \<Rightarrow> (cache_faults, database, 'r) handler \<Rightarrow> cache_faults api_env \<Rightarrow> request
       \<Rightarrow> response \<Rightarrow> (nat \<Rightarrow> (database, 'r, 'k) server) \<Rightarrow> nat \<Rightarrow> remote_pc" where
  "interleaved L ttl h e req rsp env 0 = At Arrived"
| "interleaved L ttl h e req rsp env (Suc i) =
     fst (remote_step L ttl h e req rsp (interleaved L ttl h e req rsp env i, env i))"

fun rank :: "remote_pc \<Rightarrow> nat" where
  "rank (Limiting r Counting) = 10"
| "rank (Limiting r a) = 9"
| "rank (Looking r Getting) = 8"
| "rank (Looking r Querying) = 7"
| "rank (Looking r p) = 6"
| "rank (Preferring r u Getting) = 5"
| "rank (Preferring r u Querying) = 4"
| "rank (Preferring r u p) = 3"
| "rank (At pc) = calls_left pc"

lemma rank_replied: "rank pc = 0 \<longleftrightarrow> (\<exists>x. pc = At (Replied x))"
  by (cases pc rule: rank.cases; simp; cases "case pc of At q \<Rightarrow> q"; simp)

lemma rank_at: "rank (fst (at x)) = calls_left (fst x)"
  by (cases x) simp

text \<open>The answers a handler may give.\<close>

definition answer :: "remote_pc \<Rightarrow> bool" where
  "answer pc \<longleftrightarrow> (\<forall>x. pc = At (Replied x) \<longrightarrow> status_of x \<in> {200, 202, 400, 404, 429, 500})"

lemma limit_rank:
  assumes "limit_step L h e fresh_response r a s = (pc', s')"
  shows "rank pc' < rank (Limiting r a) \<and> answer pc'"
proof -
  obtain a' r1 where step: "allow_step (lib_redis L) (h_limiter h) (ae_incr e) (ae_expire e) (sr_user_id r)
      (sr_channel r) (a, srv_redis s) = (a', r1)" by fastforce
  have ans: "rank (fst (at (after_allow lg fresh_response r ans s1))) \<le> 8 \<and>
      answer (fst (at (after_allow lg fresh_response r ans s1)))" for lg ans s1
    by (auto simp: after_allow_def Let_def answer_def at_def split: prod.split)
  show ?thesis
  proof (cases a')
    case (Decided b)
    with step assms ans [of "request_log h" b "s\<lparr>srv_redis := r1\<rparr>"] show ?thesis
      by (cases a) (auto simp: limit_step_def)
  qed (use step assms in \<open>cases a; auto simp: limit_step_def answer_def split: prod.splits sum.splits
      option.splits if_splits\<close>)+
qed

lemma lookup_rank:
  assumes "lookup_step L ttl h e fresh_response r p s = (pc', s')"
  shows "rank pc' < rank (Looking r p) \<and> answer pc'"
proof -
  obtain p' r1 where step: "find_step (lib_redis L) ttl (ae_user e) (sr_user_id r) (srv_db s) (p, srv_redis s)
      = (p', r1)" by fastforce
  have ans: "rank (fst (at (after_find lg fresh_response r x s1))) \<le> 5 \<and>
      answer (fst (at (after_find lg fresh_response r x s1)))" for lg x s1
    by (auto simp: after_find_def answer_def at_def split: sum.split)
  show ?thesis
  proof (cases p')
    case (Answered x)
    with step assms ans [of "request_log h" x "s\<lparr>srv_redis := r1\<rparr>"] show ?thesis
      by (cases p) (auto simp: lookup_step_def)
  qed (use step assms in \<open>cases p; auto simp: lookup_step_def answer_def split: sum.splits option.splits\<close>)+
qed

lemma prefer_rank:
  assumes "prefer_step L ttl h e fresh_response r u p s = (pc', s')"
  shows "rank pc' < rank (Preferring r u p) \<and> answer pc'"
proof -
  obtain p' r1 where step: "prefs_step (lib_redis L) ttl (ae_prefs e) (sr_user_id r) (srv_db s) (p, srv_redis s)
      = (p', r1)" by fastforce
  have ans: "rank (fst (at (after_prefs lg fresh_response r u x s1))) \<le> 2 \<and>
      answer (fst (at (after_prefs lg fresh_response r u x s1)))" for lg x s1
    by (auto simp: after_prefs_def answer_def at_def status_of_def split: sum.split)
  show ?thesis
  proof (cases p')
    case (Answered x)
    with step assms ans [of "request_log h" x "s\<lparr>srv_redis := r1\<rparr>"] show ?thesis
      by (cases p) (auto simp: prefer_step_def)
  qed (use step assms in \<open>cases p; auto simp: prefer_step_def answer_def split: sum.splits option.splits\<close>)+
qed

lemma remote_rank:
  assumes "remote_step L ttl h e req fresh_response (pc, s) = (pc', s')"
    and "answer pc"
  shows "rank pc' \<le> rank pc - 1 \<and> answer pc'"
proof (cases pc)
  case (At q)
  show ?thesis
  proof (cases q)
    case Arrived
    show ?thesis
    proof (cases "check_request req fresh_response")
      case (Inl x)
      then have "status_of x = 400" by (auto simp: check_request_def split: option.splits if_splits)
      with Inl At Arrived assms(1) show ?thesis by (auto simp: remote_simps answer_def)
    next
      case (Inr r)
      with At Arrived assms(1) limit_rank [of L h e r Counting s pc' s'] show ?thesis
        by (simp add: remote_simps)
    qed
  next
    case (Finding r)
    with At assms(1) lookup_rank [of L ttl h e r Getting s pc' s'] show ?thesis by (simp add: remote_simps)
  next
    case (Choosing r u)
    with At assms(1) prefer_rank [of L ttl h e r u Getting s pc' s'] show ?thesis by (simp add: remote_simps)
  next
    case (Saving r u)
    with At assms(1) show ?thesis
      by (auto simp: remote_simps request_steps at_def answer_def Let_def split: prod.splits option.splits)
  next
    case (Publishing r u)
    with At assms(1) show ?thesis
      by (auto simp: remote_simps request_steps at_def answer_def Let_def status_of_def
          split: prod.splits option.splits)
  next
    case (Replied x)
    with At assms show ?thesis by (auto simp: remote_simps)
  qed
next
  case (Limiting r a)
  with assms(1) limit_rank [of L h e r a s pc' s'] have "rank pc' < rank pc" "answer pc'"
    by (simp_all add: remote_simps)
  then show ?thesis by simp
next
  case (Looking r p)
  with assms(1) lookup_rank [of L ttl h e r p s pc' s'] have "rank pc' < rank pc" "answer pc'"
    by (simp_all add: remote_simps)
  then show ?thesis by simp
next
  case (Preferring r u p)
  with assms(1) prefer_rank [of L ttl h e r u p s pc' s'] have "rank pc' < rank pc" "answer pc'"
    by (simp_all add: remote_simps)
  then show ?thesis by simp
qed

text \<open>
  C19 (termination).  A request is wait-free: whatever the other requests, the workers and time do to the
  shared state between its calls, it is answered after at most ten calls of its own, with one of the
  six statuses of the handler.
\<close>

theorem request_wait_free:
  "\<exists>x. interleaved L ttl h e req fresh_response env (10 + k) = At (Replied x) \<and>
     status_of x \<in> {200, 202, 400, 404, 429, 500}"
proof -
  let ?run = "interleaved L ttl h e req fresh_response env"
  have "rank (?run i) \<le> 10 - i \<and> answer (?run i)" for i
  proof (induction i)
    case (Suc i)
    obtain pc' s' where step: "remote_step L ttl h e req fresh_response (?run i, env i) = (pc', s')" by fastforce
    from remote_rank [OF step] Suc.IH have "rank pc' \<le> 10 - i - 1" "answer pc'" by auto
    with step show ?case by simp
  qed (simp add: answer_def)
  from this [of "10 + k"] show ?thesis using rank_replied [of "?run (10 + k)"] by (auto simp: answer_def)
qed

subsection \<open>What the calls of limiter and cache do\<close>

lemma after_simps [simp]:
  "srv_db (snd (after_allow lg rsp r ans s)) = srv_db s"
  "srv_broker (snd (after_allow lg rsp r ans s)) = srv_broker s"
  "srv_redis (snd (after_allow lg rsp r ans s)) = srv_redis s"
  "srv_db (snd (after_find lg rsp r x s)) = srv_db s"
  "srv_broker (snd (after_find lg rsp r x s)) = srv_broker s"
  "srv_redis (snd (after_find lg rsp r x s)) = srv_redis s"
  "srv_db (snd (after_prefs lg rsp r u y s)) = srv_db s"
  "srv_broker (snd (after_prefs lg rsp r u y s)) = srv_broker s"
  "srv_redis (snd (after_prefs lg rsp r u y s)) = srv_redis s"
  by (auto simp: after_allow_def after_find_def after_prefs_def Let_def split: prod.split option.split sum.split)

lemma check_request_decodes:
  "check_request req rsp = Inr r \<Longrightarrow> decode_send_request (rq_body req) = Some r"
  by (auto simp: check_request_def split: option.splits if_splits)

lemma after_allow_pc:
  "fst (after_allow lg rsp r ans s) \<in> {Finding r, Replied (writeError ''rate limit exceeded for this channel''
     ''RATE_LIMITED'' 429 rsp)}"
  "fst (after_allow lg rsp r ans s) = Finding r \<longleftrightarrow> fst ans"
  by (auto simp: after_allow_def Let_def split: prod.split)

lemma error_status [simp]:
  "status_of (writeError msg code st fresh_response) = st"
  by (simp add: status_of_def)

lemma limit_step_cases:
  assumes "limit_step L h e rsp r a s = (pc', s')" "a = Counting \<or> a = Expiring 1"
  obtains (first) r1 where "a = Counting" "pc' = Limiting r (Expiring 1)" "s' = s\<lparr>srv_redis := r1\<rparr>"
      "r_incr (lib_redis L) (ae_incr e) (rate_key (sr_user_id r) (sr_channel r)) (srv_redis s) = (Inr 1, r1)"
  | (decided) ans where "pc' = At (fst (after_allow (request_log h) rsp r ans (s\<lparr>srv_redis := srv_redis s'\<rparr>)))"
      "srv_db s' = srv_db s" "srv_broker s' = srv_broker s"
      "allow_step (lib_redis L) (h_limiter h) (ae_incr e) (ae_expire e) (sr_user_id r) (sr_channel r)
         (a, srv_redis s) = (Decided ans, srv_redis s')"
proof -
  let ?log = "request_log h"
  obtain a' r1 where step: "allow_step (lib_redis L) (h_limiter h) (ae_incr e) (ae_expire e) (sr_user_id r)
      (sr_channel r) (a, srv_redis s) = (a', r1)" by fastforce
  show thesis
  proof (cases a')
    case Counting
    with step assms(2) show thesis by (auto split: prod.splits sum.splits if_splits option.splits)
  next
    case (Expiring n)
    with step assms(1,2) show thesis
      by (intro first [of r1])
         (auto simp: limit_step_def split: prod.splits sum.splits if_splits option.splits)
  next
    case (Decided ans)
    with step assms(1) have run: "at (after_allow ?log rsp r ans (s\<lparr>srv_redis := r1\<rparr>)) = (pc', s')"
      by (simp add: limit_step_def)
    then have "pc' = At (fst (after_allow ?log rsp r ans (s\<lparr>srv_redis := r1\<rparr>)))"
        "s' = snd (after_allow ?log rsp r ans (s\<lparr>srv_redis := r1\<rparr>))"
      by (auto simp: at_def split: prod.splits)
    then show thesis using step Decided by (intro decided [of ans]) simp_all
  qed
qed

context user_cache_server
begin

lemma lookup_step_cases:
  assumes "lib_redis L = R" "store_ok (srv_db s)" "coherent (srv_db s) (entry (srv_redis s))"
    and "sure (FindUserByID NoFault (sr_user_id r) (srv_db s)) p"
    and run: "lookup_step L ttl h e rsp r p s = (pc', s')"
  obtains (effect) "srv_db s' = srv_db s" "srv_broker s' = srv_broker s" "clock (srv_redis s') = clock (srv_redis s)"
    "coherent (srv_db s') (entry (srv_redis s'))"
    "\<And>u c. entry (srv_redis s') (rate_key u c) = entry (srv_redis s) (rate_key u c)"
    "(\<exists>p'. pc' = Looking r p' \<and> sure (FindUserByID NoFault (sr_user_id r) (srv_db s)) p') \<or>
     (\<exists>u. pc' = At (Choosing r u) \<and> FindUserByID NoFault (sr_user_id r) (srv_db s) = Inr u) \<or>
     pc' = At (Replied (writeError ''user not found'' ''USER_NOT_FOUND'' 404 rsp))"
proof -
  obtain p' r1 where step: "find_step R ttl (ae_user e) (sr_user_id r) (srv_db s) (p, srv_redis s) = (p', r1)"
    by fastforce
  note sound = find_step_sound [OF assms(2-4) step]
  have under: thesis if "pc' = Looking r p'" "s' = s\<lparr>srv_redis := r1\<rparr>"
    using that(1,2) sound by (intro effect) simp_all
  show thesis
  proof (cases p')
    case (Answered x)
    with step run assms(1) have "at (after_find (request_log h) rsp r x (s\<lparr>srv_redis := r1\<rparr>)) = (pc', s')"
      by (simp add: lookup_step_def)
    then have pc': "pc' = At (fst (after_find (request_log h) rsp r x (s\<lparr>srv_redis := r1\<rparr>)))"
        and s': "s' = snd (after_find (request_log h) rsp r x (s\<lparr>srv_redis := r1\<rparr>))"
      by (auto simp: at_def split: prod.splits)
    show thesis
    proof (cases x)
      case (Inl err)
      with pc' s' sound show thesis by (intro effect) (simp_all add: after_find_def)
    next
      case (Inr u)
      with pc' s' sound Answered show thesis by (intro effect) (simp_all add: after_find_def)
    qed
  qed (use step run assms(1) in \<open>auto simp: lookup_step_def intro: under\<close>)
qed

lemma prefer_step_cases:
  assumes "lib_redis L = R" "store_ok (srv_db s)" "coherent (srv_db s) (entry (srv_redis s))"
    and "sure (FindPreferences NoFault (sr_user_id r) (srv_db s)) p" "\<not> no_rows_fault (db_fault (ae_prefs e))"
    and fresh: "rsp_sent rsp = None"
    and run: "prefer_step L ttl h e rsp r u p s = (pc', s')"
  obtains (effect) "srv_db s' = srv_db s" "srv_broker s' = srv_broker s" "clock (srv_redis s') = clock (srv_redis s)"
    "coherent (srv_db s') (entry (srv_redis s'))"
    "\<And>u c. entry (srv_redis s') (rate_key u c) = entry (srv_redis s) (rate_key u c)"
    "(\<exists>p'. pc' = Preferring r u p' \<and> sure (FindPreferences NoFault (sr_user_id r) (srv_db s)) p') \<or>
     pc' = At (Saving r u) \<and> (\<exists>q. FindPreferences NoFault (sr_user_id r) (srv_db s) = Inr q \<and>
       isChannelEnabled (sr_channel r) q) \<or>
     (\<exists>x. pc' = At (Replied x) \<and> status_of x \<noteq> 202)"
proof -
  obtain p' r1 where step: "prefs_step R ttl (ae_prefs e) (sr_user_id r) (srv_db s) (p, srv_redis s) = (p', r1)"
    by fastforce
  note sound = prefs_step_sound [OF assms(2-5) step]
  have under: thesis if "pc' = Preferring r u p'" "s' = s\<lparr>srv_redis := r1\<rparr>"
    using that(1,2) sound by (intro effect) simp_all
  show thesis
  proof (cases p')
    case (Answered x)
    with step run assms(1) have "at (after_prefs (request_log h) rsp r u x (s\<lparr>srv_redis := r1\<rparr>)) = (pc', s')"
      by (simp add: prefer_step_def)
    then have pc': "pc' = At (fst (after_prefs (request_log h) rsp r u x (s\<lparr>srv_redis := r1\<rparr>)))"
        and s': "s' = snd (after_prefs (request_log h) rsp r u x (s\<lparr>srv_redis := r1\<rparr>))"
      by (auto simp: at_def split: prod.splits)
    have "fst (after_prefs (request_log h) rsp r u x (s\<lparr>srv_redis := r1\<rparr>)) = Saving r u \<and>
          (\<exists>q. x = Inr q \<and> isChannelEnabled (sr_channel r) q) \<or>
        (\<exists>y. fst (after_prefs (request_log h) rsp r u x (s\<lparr>srv_redis := r1\<rparr>)) = Replied y \<and> status_of y \<noteq> 202)"
      using fresh by (auto simp: after_prefs_def status_of_def split: sum.split)
    with pc' s' sound Answered show thesis by (intro effect) auto
  qed (use step run assms(1) in \<open>auto simp: prefer_step_def intro: under\<close>)
qed

end

end
