(* ===== verification/Retry.thy ===== *)
theory Retry
  imports Prelude
begin

section \<open>Retry with exponential backoff\<close>

text \<open>
  \<^verbatim>\<open>internal/retry/retry.go\<close>.  The closure \<open>fn\<close> acts on a state \<open>'s\<close> and may panic.  The
  \<open>select\<close> between \<open>ctx.Done()\<close> and \<open>time.After(delay)\<close> is the environment's choice:
  \<open>wait k = Some e\<close> means that the wait after attempt \<open>k\<close> ended with the context done and
  \<open>ctx.Err() = e\<close>.  The loop also returns the list of delays it waited for.
\<close>

record retry_config =
  max_attempts :: int
  base_delay :: duration
  max_delay :: duration

definition DefaultConfig :: retry_config where
  "DefaultConfig =
     \<lparr>max_attempts = 3, base_delay = 100 * Millisecond, max_delay = 5 * Second\<rparr>"

text \<open>
  \<open>time.Duration(math.Pow(2, float64(k)))\<close>.  The power is exact in a float64 and fits an int64 up
  to \<open>2^62\<close>; beyond that the conversion's result is implementation-defined in Go, so it is the
  parameter \<open>oor\<close>.
\<close>

definition pow2_duration :: "(int \<Rightarrow> duration) \<Rightarrow> int \<Rightarrow> duration" where
  "pow2_duration oor k = (if 0 \<le> k \<and> k \<le> 62 then 2 ^ nat k else oor k)"

definition backoff :: "(int \<Rightarrow> duration) \<Rightarrow> retry_config \<Rightarrow> int \<Rightarrow> duration" where
  "backoff oor cfg attempt =
     (let delay = pow2_duration oor (attempt - 1) * base_delay cfg
      in if sint (max_delay cfg) < sint delay then max_delay cfg else delay)"

definition exhausted :: "retry_config \<Rightarrow> error \<Rightarrow> go_error" where
  "exhausted cfg lastErr =
     Wrapf [] (Sentinel ErrMaxRetriesExceeded)
       ('' after '' @ show_int (max_attempts cfg) @ '' attempts: '' @ print_v lastErr)"

definition cancelled_after :: "int \<Rightarrow> go_error \<Rightarrow> go_error" where
  "cancelled_after attempt e =
     Wrapf (''retry cancelled after attempt '' @ show_int attempt @ '': '') e []"

function do_loop ::
    "(int \<Rightarrow> duration) \<Rightarrow> retry_config \<Rightarrow> (int \<Rightarrow> 's \<Rightarrow> error go \<times> 's) \<Rightarrow> (int \<Rightarrow> error) \<Rightarrow>
     int \<Rightarrow> error \<Rightarrow> 's \<Rightarrow> duration list \<Rightarrow> error go \<times> 's \<times> duration list" where
  "do_loop oor cfg fn wait attempt lastErr s ds =
     (if attempt \<le> max_attempts cfg then
        (case fn attempt s of
           (Panicked p, s') \<Rightarrow> (Panicked p, s', ds)
         | (Ret None, s') \<Rightarrow> (Ret None, s', ds)
         | (Ret (Some e), s') \<Rightarrow>
             if attempt = max_attempts cfg then (Ret (Some (exhausted cfg (Some e))), s', ds)
             else
               let delay = backoff oor cfg attempt in
               (case wait attempt of
                  Some ce \<Rightarrow> (Ret (Some (cancelled_after attempt ce)), s', ds @ [delay])
                | None \<Rightarrow> do_loop oor cfg fn wait (attempt + 1) (Some e) s' (ds @ [delay])))
      else (Ret (Some (exhausted cfg lastErr)), s, ds))"
  by pat_completeness auto
termination
  by (relation "measure (\<lambda>(oor, cfg, fn, wait, attempt, _). nat (max_attempts cfg + 1 - attempt))")
    auto

declare do_loop.simps [simp del]

definition Do ::
    "(int \<Rightarrow> duration) \<Rightarrow> retry_config \<Rightarrow> (int \<Rightarrow> 's \<Rightarrow> error go \<times> 's) \<Rightarrow> (int \<Rightarrow> error) \<Rightarrow>
     's \<Rightarrow> error go \<times> 's \<times> duration list" where
  "Do oor cfg fn wait s = do_loop oor cfg fn wait 1 None s []"

subsection \<open>What the loop has done after k attempts\<close>

text \<open>
  The state after the first \<open>k\<close> calls of \<open>fn\<close>, the result of the call that follows, and the
  condition under which the loop gets there: every call before it failed and every wait elapsed.
\<close>

fun state_after :: "(int \<Rightarrow> 's \<Rightarrow> error go \<times> 's) \<Rightarrow> 's \<Rightarrow> nat \<Rightarrow> 's" where
  "state_after fn s 0 = s"
| "state_after fn s (Suc k) = snd (fn (int (Suc k)) (state_after fn s k))"

definition result_at :: "(int \<Rightarrow> 's \<Rightarrow> error go \<times> 's) \<Rightarrow> 's \<Rightarrow> nat \<Rightarrow> error go" where
  "result_at fn s k = fst (fn (int (Suc k)) (state_after fn s k))"

definition failed_through ::
    "(int \<Rightarrow> 's \<Rightarrow> error go \<times> 's) \<Rightarrow> (int \<Rightarrow> error) \<Rightarrow> 's \<Rightarrow> nat \<Rightarrow> bool" where
  "failed_through fn wait s k \<longleftrightarrow>
     (\<forall>j < k. (\<exists>e. result_at fn s j = Ret (Some e)) \<and> wait (int (Suc j)) = None)"

definition delays :: "(int \<Rightarrow> duration) \<Rightarrow> retry_config \<Rightarrow> nat \<Rightarrow> duration list" where
  "delays oor cfg k = map (\<lambda>j. backoff oor cfg (int (Suc j))) [0..<k]"

definition last_error :: "(int \<Rightarrow> 's \<Rightarrow> error go \<times> 's) \<Rightarrow> 's \<Rightarrow> nat \<Rightarrow> error" where
  "last_error fn s k =
     (case k of 0 \<Rightarrow> None | Suc j \<Rightarrow> (case result_at fn s j of Ret e \<Rightarrow> e | Panicked p \<Rightarrow> None))"

text \<open>What \<open>Do\<close> returns when its loop ends in attempt \<open>k + 1\<close>.\<close>

definition stop_at ::
    "(int \<Rightarrow> duration) \<Rightarrow> retry_config \<Rightarrow> (int \<Rightarrow> 's \<Rightarrow> error go \<times> 's) \<Rightarrow> (int \<Rightarrow> error) \<Rightarrow> 's \<Rightarrow>
     nat \<Rightarrow> error go \<times> 's \<times> duration list" where
  "stop_at oor cfg fn wait s k =
     (case result_at fn s k of
        Panicked p \<Rightarrow> (Panicked p, state_after fn s (Suc k), delays oor cfg k)
      | Ret None \<Rightarrow> (Ret None, state_after fn s (Suc k), delays oor cfg k)
      | Ret (Some e) \<Rightarrow>
          (case wait (int (Suc k)) of
             Some ce \<Rightarrow>
               if int (Suc k) < max_attempts cfg
               then (Ret (Some (cancelled_after (int (Suc k)) ce)), state_after fn s (Suc k),
                     delays oor cfg (Suc k))
               else (Ret (Some (exhausted cfg (Some e))), state_after fn s (Suc k),
                     delays oor cfg k)
           | None \<Rightarrow>
               (Ret (Some (exhausted cfg (Some e))), state_after fn s (Suc k),
                delays oor cfg k)))"

definition stops ::
    "retry_config \<Rightarrow> (int \<Rightarrow> 's \<Rightarrow> error go \<times> 's) \<Rightarrow> (int \<Rightarrow> error) \<Rightarrow> 's \<Rightarrow> nat \<Rightarrow> bool" where
  "stops cfg fn wait s k \<longleftrightarrow>
     int (Suc k) = max_attempts cfg \<or>
     int k < max_attempts cfg \<and>
       ((\<forall>e. result_at fn s k \<noteq> Ret (Some e)) \<or> wait (int (Suc k)) \<noteq> None)"

lemma failed_through_Suc:
  "failed_through fn wait s (Suc k) \<longleftrightarrow>
     failed_through fn wait s k \<and> (\<exists>e. result_at fn s k = Ret (Some e)) \<and>
     wait (int (Suc k)) = None"
  by (auto simp: failed_through_def less_Suc_eq)

lemma delays_Suc: "delays oor cfg (Suc k) = delays oor cfg k @ [backoff oor cfg (int (Suc k))]"
  by (simp add: delays_def)

lemma fn_at: "fn (int (Suc k)) (state_after fn s k) = (result_at fn s k, state_after fn s (Suc k))"
  by (simp add: result_at_def)

text \<open>One more failed attempt: the loop unrolled at attempt \<open>k + 1\<close>.\<close>

lemma do_loop_advance:
  assumes "int (Suc k) < max_attempts cfg" and "result_at fn s k = Ret (Some e)"
    and "wait (int (Suc k)) = None"
  shows "do_loop oor cfg fn wait (int (Suc k)) l (state_after fn s k) (delays oor cfg k) =
         do_loop oor cfg fn wait (int (Suc (Suc k))) (Some e) (state_after fn s (Suc k))
           (delays oor cfg (Suc k))"
  using assms fn_at [of fn k s]
  by (subst do_loop.simps) (simp add: delays_Suc add.commute del: of_nat_Suc state_after.simps,
      simp add: add.commute)

lemma do_loop_prefix:
  assumes "failed_through fn wait s k" and "int k < max_attempts cfg"
  shows "do_loop oor cfg fn wait 1 None s [] =
         do_loop oor cfg fn wait (int (Suc k)) (last_error fn s k) (state_after fn s k)
           (delays oor cfg k)"
  using assms
proof (induction k)
  case 0
  then show ?case by (simp add: delays_def last_error_def)
next
  case (Suc k)
  then obtain e where e: "result_at fn s k = Ret (Some e)" and w: "wait (int (Suc k)) = None"
    and IH: "failed_through fn wait s k" by (auto simp: failed_through_Suc)
  from Suc.prems(2) have "int (Suc k) < max_attempts cfg" by simp
  from Suc.IH [OF IH] this show ?case
    using do_loop_advance [of k cfg fn s e wait oor "last_error fn s k", OF _ e w] e
    by (simp add: last_error_def del: of_nat_Suc state_after.simps)
qed

text \<open>The loop ends in the attempt where it stops.\<close>

lemma do_loop_last:
  assumes "stops cfg fn wait s k"
  shows "do_loop oor cfg fn wait (int (Suc k)) l (state_after fn s k) (delays oor cfg k) =
         stop_at oor cfg fn wait s k"
  using assms fn_at [of fn k s]
  by (subst do_loop.simps)
     (auto simp: stops_def stop_at_def delays_Suc simp del: of_nat_Suc state_after.simps
        split: go.splits option.splits)

lemma Do_stop_at:
  assumes "failed_through fn wait s k" and "stops cfg fn wait s k"
  shows "Do oor cfg fn wait s = stop_at oor cfg fn wait s k"
proof -
  from assms(2) have "int k < max_attempts cfg" by (auto simp: stops_def)
  from do_loop_prefix [OF assms(1) this] do_loop_last [OF assms(2)]
  show ?thesis by (simp add: Do_def)
qed

lemma ex_stop:
  assumes "1 \<le> max_attempts cfg"
  shows "\<exists>k. failed_through fn wait s k \<and> stops cfg fn wait s k"
proof -
  let ?P = "\<lambda>k. stops cfg fn wait s k"
  have "?P (nat (max_attempts cfg) - 1)" using assms by (simp add: stops_def)
  then have L: "?P (LEAST k. ?P k)" by (rule LeastI)
  then have bound: "int (LEAST k. ?P k) < max_attempts cfg" by (auto simp: stops_def)
  have "failed_through fn wait s (LEAST k. ?P k)"
    unfolding failed_through_def
  proof (intro allI impI)
    fix j assume j: "j < (LEAST k. ?P k)"
    then have "\<not> ?P j" by (rule not_less_Least)
    moreover have "int j < max_attempts cfg" using j bound by simp
    ultimately show "(\<exists>e. result_at fn s j = Ret (Some e)) \<and> wait (int (Suc j)) = None"
      by (auto simp: stops_def)
  qed
  with L show ?thesis by blast
qed

text \<open>A first call that does not fail ends the loop; calls that always fail end it with an error.\<close>

lemma Do_first:
  assumes "1 \<le> max_attempts cfg" "fn 1 s = (r, s')" "\<forall>e. r \<noteq> Ret (Some e)"
  shows "Do oor cfg fn wait s = (r, s', [])"
  using assms
  by (cases r) (auto simp: Do_def do_loop.simps [of _ _ _ _ 1] split: option.splits)

lemma do_loop_fails:
  assumes "\<And>k s. \<exists>e s'. fn k s = (Ret (Some e), s')"
  shows "\<exists>err. fst (do_loop oor cfg fn wait attempt l s ds) = Ret (Some err)"
  using assms
proof (induction oor cfg fn wait attempt l s ds rule: do_loop.induct)
  case (1 oor cfg fn wait attempt l s ds)
  obtain e s' where call: "fn attempt s = (Ret (Some e), s')" using "1.prems" by blast
  show ?case
  proof (cases "attempt < max_attempts cfg \<and> wait attempt = None")
    case True
    have "\<exists>err. fst (do_loop oor cfg fn wait (attempt + 1) (Some e) s'
        (ds @ [backoff oor cfg attempt])) = Ret (Some err)"
      using "1.IH" True call "1.prems" by simp
    with True call show ?thesis by (subst do_loop.simps) simp
  next
    case False
    with call show ?thesis by (subst do_loop.simps) (auto split: option.splits)
  qed
qed

text \<open>An invariant of the closure is an invariant of the loop.\<close>

lemma do_loop_invariant:
  assumes inv: "\<And>k s r s'. fn k s = (r, s') \<Longrightarrow> I s \<Longrightarrow> I s'"
    and start: "I s"
  shows "I (fst (snd (do_loop oor cfg fn wait attempt l s ds)))"
  using inv start
proof (induction oor cfg fn wait attempt l s ds rule: do_loop.induct)
  case (1 oor cfg fn wait attempt l s ds)
  obtain r s' where call: "fn attempt s = (r, s')" by fastforce
  with "1.prems" have I': "I s'" by blast
  show ?case
  proof (cases "attempt < max_attempts cfg \<and> wait attempt = None \<and> (\<exists>e. r = Ret (Some e))")
    case True
    then obtain e where e: "r = Ret (Some e)" by blast
    have "I (fst (snd (do_loop oor cfg fn wait (attempt + 1) (Some e) s'
            (ds @ [backoff oor cfg attempt]))))"
      using "1.IH" True call e I' "1.prems"(1) by simp
    with True call e show ?thesis by (subst do_loop.simps) simp
  next
    case False
    with call I' "1.prems"(2) show ?thesis
      by (subst do_loop.simps) (auto split: go.splits option.splits)
  qed
qed

subsection \<open>The backoff, with the 64-bit product written out\<close>

lemma sint_of_int_range:
  "- (2 ^ 63) \<le> x \<Longrightarrow> x < 2 ^ 63 \<Longrightarrow> sint (word_of_int x :: 64 word) = x"
  by (simp add: signed_of_int signed_take_bit_int_eq_self)

lemma pow2_times:
  "0 \<le> k \<Longrightarrow> k \<le> 62 \<Longrightarrow> pow2_duration oor k * b = word_of_int (2 ^ nat k * sint b)"
  by (simp add: pow2_duration_def)

text \<open>No overflow: the delay is the product, cut at the maximum.\<close>

lemma backoff_exact:
  assumes "1 \<le> n" "n \<le> 63" "0 \<le> sint (base_delay cfg)"
    and "2 ^ nat (n - 1) * sint (base_delay cfg) < 2 ^ 63"
  shows "sint (backoff oor cfg n) = min (2 ^ nat (n - 1) * sint (base_delay cfg)) (sint (max_delay cfg))"
proof -
  let ?x = "2 ^ nat (n - 1) * sint (base_delay cfg)"
  have "0 \<le> ?x" using assms(3) by simp
  then have "sint (word_of_int ?x :: 64 word) = ?x"
    using assms(4) by (intro sint_of_int_range) simp_all
  moreover have "pow2_duration oor (n - 1) * base_delay cfg = word_of_int ?x"
    using assms(1,2) by (intro pow2_times) simp_all
  ultimately show ?thesis by (simp add: backoff_def Let_def min_def)
qed

lemma sint_100ms: "sint (base_delay DefaultConfig) = 100000000"
  by (simp add: DefaultConfig_def Millisecond_def)

lemma sint_5s: "sint (max_delay DefaultConfig) = 5000000000"
  by (simp add: DefaultConfig_def Second_def)

lemma default_backoff:
  assumes "1 \<le> n" "n \<le> 37"
  shows "sint (backoff oor DefaultConfig n) = min (2 ^ nat (n - 1) * 100000000) 5000000000"
proof -
  have "(2::int) ^ nat (n - 1) \<le> 2 ^ 36" using assms by (intro power_increasing) simp_all
  then have "2 ^ nat (n - 1) * (100000000::int) < 2 ^ 63" by simp
  then show ?thesis
    using backoff_exact [of n DefaultConfig oor] assms by (simp add: sint_100ms sint_5s)
qed

lemma default_backoff_wraps: "sint (backoff oor DefaultConfig 38) = - 4702848726509551616"
proof -
  have "pow2_duration oor 37 * base_delay DefaultConfig = (2 ^ 37 * 100000000 :: 64 word)"
    by (simp add: pow2_duration_def DefaultConfig_def Millisecond_def)
  then show ?thesis by (simp add: backoff_def Let_def sint_5s) 
qed

subsection \<open>Properties of Do\<close>

text \<open>
  A closure for the witnesses: it fails in its first two attempts, succeeds from the third on and
  records its calls.
\<close>

definition flaky :: "nat \<Rightarrow> int \<Rightarrow> int list \<Rightarrow> error go \<times> int list" where
  "flaky m k s = (Ret (if k \<le> int m then Some (Opaque ''503'') else None), s @ [k])"

lemma flaky_result: "result_at (flaky m) s k = Ret (if k < m then Some (Opaque ''503'') else None)"
  by (simp add: result_at_def flaky_def)

lemma flaky_failed_through: "k \<le> m \<Longrightarrow> failed_through (flaky m) (\<lambda>_. None) s k"
  by (auto simp: failed_through_def flaky_result)

text \<open>
  C25 (termination).  With at least one attempt configured \<open>Do\<close> ends in the first attempt that
  succeeds, panics, is the last one or is followed by a wait the context cuts short: it makes
  between one and \<open>MaxAttempts\<close> calls, every call before the last one failed, and its result is
  that of the attempt it stopped in.
\<close>

theorem Do_stops:
  assumes "1 \<le> max_attempts cfg"
  shows "\<exists>k. int k < max_attempts cfg \<and> failed_through fn wait s k \<and> stops cfg fn wait s k \<and>
             Do oor cfg fn wait s = stop_at oor cfg fn wait s k"
proof -
  from ex_stop [OF assms, of fn wait s] obtain k where k: "failed_through fn wait s k" "stops cfg fn wait s k"
    by blast
  then have "int k < max_attempts cfg" by (auto simp: stops_def)
  with k Do_stop_at [OF k] show ?thesis by blast
qed

theorem Do_stops_witness:
  "\<exists>k. int k < max_attempts DefaultConfig \<and> failed_through (flaky 2) (\<lambda>_. None) [] k \<and>
       stops DefaultConfig (flaky 2) (\<lambda>_. None) [] k \<and>
       Do (\<lambda>_. 0) DefaultConfig (flaky 2) (\<lambda>_. None) [] =
         stop_at (\<lambda>_. 0) DefaultConfig (flaky 2) (\<lambda>_. None) [] k"
  by (rule Do_stops) (simp add: DefaultConfig_def)

text \<open>
  When the first \<open>k\<close> attempts fail, no wait is cut short and attempt \<open>k + 1\<close> is
  allowed and succeeds, \<open>Do\<close> returns nil in the state after exactly \<open>k + 1\<close> calls, having waited
  the \<open>k\<close> backoff delays in order.
\<close>

lemma Do_success:
  assumes "failed_through fn wait s k" and "int k < max_attempts cfg"
    and "result_at fn s k = Ret None"
  shows "Do oor cfg fn wait s = (Ret None, state_after fn s (Suc k), delays oor cfg k)"
  using Do_stop_at [OF assms(1), of cfg oor] assms(2,3) by (simp add: stops_def stop_at_def)

text \<open>
  When every one of the \<open>MaxAttempts\<close> calls fails and no wait is cut short, \<open>Do\<close>
  returns an error that wraps \<open>ErrMaxRetriesExceeded\<close> and carries the number of attempts and the
  text of the last error; there is no wait after the last attempt.
\<close>

lemma Do_exhausted:
  assumes "max_attempts cfg = int (Suc k)" and "failed_through fn wait s k"
    and "result_at fn s k = Ret (Some e)"
  shows "\<exists>err. Do oor cfg fn wait s = (Ret (Some err), state_after fn s (Suc k), delays oor cfg k) \<and>
               errors_is err ErrMaxRetriesExceeded \<and>
               error_text err = ''max retries exceeded after '' @ show_int (int (Suc k)) @
                                '' attempts: '' @ error_text e"
proof -
  have "stops cfg fn wait s k" using assms(1) by (simp add: stops_def)
  from Do_stop_at [OF assms(2) this, of oor] assms(1,3) show ?thesis
    by (cases "wait (int (Suc k))") (simp_all add: stop_at_def exhausted_def)
qed

text \<open>
  When the wait after a failed attempt that is not the last one ends with the context
  done, \<open>Do\<close> returns at once, after that attempt's delay had been chosen, with an error that wraps
  \<open>ctx.Err()\<close>; no further call is made.
\<close>

lemma Do_cancelled:
  assumes "failed_through fn wait s k" and "result_at fn s k = Ret (Some e)"
    and "int (Suc k) < max_attempts cfg" and "wait (int (Suc k)) = Some ce"
  shows "\<exists>err. Do oor cfg fn wait s =
                 (Ret (Some err), state_after fn s (Suc k), delays oor cfg (Suc k)) \<and>
               (\<forall>t. errors_is err t = errors_is ce t)"
  using Do_stop_at [OF assms(1), of cfg oor] assms(2-4)
  by (simp add: stops_def stop_at_def cancelled_after_def)

end
