(* ===== verification/Sender.thy ===== *)
theory Sender
  imports Domain Logger
begin

section \<open>Senders\<close>

text \<open>
  The interface of \<^verbatim>\<open>internal/domain/sender.go\<close> and its implementations in
  \<^verbatim>\<open>internal/sender/sender.go\<close>.  The calls to the providers' SDKs are still comments in the
  source: what \<open>Send\<close> does is check the recipient field and write a log line, so its state is the
  process's standard output.
\<close>

record sender =
  Send :: "notification \<Rightarrow> stdout \<Rightarrow> error go \<times> stdout"
  Channel :: channel

text \<open>The slice expression \<open>s[:n]\<close>, which panics when \<open>n\<close> exceeds the length.\<close>

definition slice_to :: "nat \<Rightarrow> string \<Rightarrow> string go" where
  "slice_to n s =
     (if n \<le> length s then Ret (take n s)
      else Panicked (''runtime error: slice bounds out of range [:'' @ show_nat n @
                     ''] with length '' @ show_nat (length s)))"

definition mask :: "string \<Rightarrow> string" where
  "mask s =
     (if length s \<le> 4 then ''****''
      else take 2 s @ ''****'' @ drop (length s - 2) s)"

subsection \<open>The implementations\<close>

definition MockSender_Send ::
    "channel \<Rightarrow> logger \<Rightarrow> notification \<Rightarrow> stdout \<Rightarrow> error go \<times> stdout" where
  "MockSender_Send ch lg n out =
     (Ret None,
      emit lg LevelInfo ''mock sender: would send notification''
        [(''channel'', ch), (''notification_id'', notif_id n), (''user_id'', notif_user_id n),
         (''template_id'', notif_template_id n)] out)"

definition NewMockSender :: "channel \<Rightarrow> logger \<Rightarrow> sender" where
  "NewMockSender ch lg = \<lparr>Send = MockSender_Send ch lg, Channel = ch\<rparr>"

definition APNSSender_Send :: "logger \<Rightarrow> notification \<Rightarrow> stdout \<Rightarrow> error go \<times> stdout" where
  "APNSSender_Send lg n out =
     (if notif_recipient_token n = [] then
        (Ret (Some (Opaque (''apns: notification '' @ notif_id n @ '' has no device token''))), out)
      else
        (case slice_to 8 (notif_recipient_token n) of
           Panicked p \<Rightarrow> (Panicked p, out)
         | Ret prefix \<Rightarrow>
             (Ret None,
              emit lg LevelInfo ''apns: sent push notification''
                [(''notification_id'', notif_id n), (''device_token'', prefix @ ''...'')] out)))"

definition NewAPNSSender :: "logger \<Rightarrow> sender" where
  "NewAPNSSender lg = \<lparr>Send = APNSSender_Send lg, Channel = ChannelIOS\<rparr>"

definition FCMSender_Send :: "logger \<Rightarrow> notification \<Rightarrow> stdout \<Rightarrow> error go \<times> stdout" where
  "FCMSender_Send lg n out =
     (if notif_recipient_token n = [] then
        (Ret (Some (Opaque (''fcm: notification '' @ notif_id n @ '' has no device token''))), out)
      else
        (Ret None,
         emit lg LevelInfo ''fcm: sent push notification'' [(''notification_id'', notif_id n)] out))"

definition NewFCMSender :: "logger \<Rightarrow> sender" where
  "NewFCMSender lg = \<lparr>Send = FCMSender_Send lg, Channel = ChannelAndroid\<rparr>"

definition SMSSender_Send :: "logger \<Rightarrow> notification \<Rightarrow> stdout \<Rightarrow> error go \<times> stdout" where
  "SMSSender_Send lg n out =
     (if notif_recipient_phone n = [] then
        (Ret (Some (Opaque (''sms: notification '' @ notif_id n @ '' has no phone number''))), out)
      else
        (Ret None,
         emit lg LevelInfo ''sms: sent SMS''
           [(''notification_id'', notif_id n), (''phone'', mask (notif_recipient_phone n))] out))"

definition NewSMSSender :: "logger \<Rightarrow> sender" where
  "NewSMSSender lg = \<lparr>Send = SMSSender_Send lg, Channel = ChannelSMS\<rparr>"

definition EmailSender_Send :: "logger \<Rightarrow> notification \<Rightarrow> stdout \<Rightarrow> error go \<times> stdout" where
  "EmailSender_Send lg n out =
     (if notif_recipient_email n = [] then
        (Ret (Some (Opaque (''email: notification '' @ notif_id n @ '' has no email address''))), out)
      else
        (Ret None,
         emit lg LevelInfo ''email: sent email''
           [(''notification_id'', notif_id n), (''to'', mask (notif_recipient_email n))] out))"

definition NewEmailSender :: "logger \<Rightarrow> sender" where
  "NewEmailSender lg = \<lparr>Send = EmailSender_Send lg, Channel = ChannelEmail\<rparr>"

lemmas sender_defs =
  NewMockSender_def NewAPNSSender_def NewFCMSender_def NewSMSSender_def NewEmailSender_def
  MockSender_Send_def APNSSender_Send_def FCMSender_Send_def SMSSender_Send_def
  EmailSender_Send_def

subsection \<open>The interface\<close>

text \<open>
  The line a sender prints when it has handed a notification over is its receipt: the messages
  below are the ones printed on the successful path, and the attribute \<open>notification_id\<close> says
  what was sent.
\<close>

definition receipt_msgs :: "string list" where
  "receipt_msgs =
     [''mock sender: would send notification'', ''apns: sent push notification'',
      ''fcm: sent push notification'', ''sms: sent SMS'', ''email: sent email'']"

definition receipts :: "stdout \<Rightarrow> logline list" where
  "receipts out = filter (\<lambda>l. line_msg l \<in> set receipt_msgs) out"

lemma receipts_simps [simp]:
  "receipts [] = []"
  "receipts (xs @ ys) = receipts xs @ receipts ys"
  by (simp_all add: receipts_def)

lemma receipts_emit:
  "msg \<notin> set receipt_msgs \<Longrightarrow> receipts (emit lg lv msg as out) = receipts out"
  by (simp add: emit_def receipts_def)

text \<open>
  What the worker relies on when it holds a \<open>domain.Sender\<close>: the outcome depends on the
  notification alone; without a recipient \<open>Send\<close> fails and prints nothing; with one it hands the
  notification over exactly once and prints one receipt that names it, unless it panics.
\<close>

locale domain_sender =
  fixes S :: sender
    and ready :: "notification \<Rightarrow> bool"
    and crashes :: "notification \<Rightarrow> bool"
    and why :: "notification \<Rightarrow> go_error"
    and line :: "notification \<Rightarrow> logline"
  assumes send_unready: "\<not> ready n \<Longrightarrow> Send S n out = (Ret (Some (why n)), out)"
    and send_crash: "ready n \<Longrightarrow> crashes n \<Longrightarrow> \<exists>p. Send S n out = (Panicked p, out)"
    and send_ok: "ready n \<Longrightarrow> \<not> crashes n \<Longrightarrow> Send S n out = (Ret None, out @ [line n])"
    and line_msg: "line_msg (line n) \<in> set receipt_msgs"
    and line_id: "map_of (line_attrs (line n)) ''notification_id'' = Some (notif_id n)"
begin

lemma send_success_iff: "fst (Send S n out) = Ret None \<longleftrightarrow> ready n \<and> \<not> crashes n"
  using send_unready [of n out] send_crash [of n out] send_ok [of n out]
  by (cases "ready n"; cases "crashes n") auto

lemma send_error_iff: "(\<exists>e. fst (Send S n out) = Ret (Some e)) \<longleftrightarrow> \<not> ready n"
  using send_unready [of n out] send_crash [of n out] send_ok [of n out]
  by (cases "ready n"; cases "crashes n") auto

lemma receipts_send:
  "receipts (snd (Send S n out)) =
     receipts out @ (if ready n \<and> \<not> crashes n then [line n] else [])"
  using send_unready [of n out] send_crash [of n out] send_ok [of n out] line_msg [of n]
  by (cases "ready n"; cases "crashes n") (auto simp: receipts_def)

text \<open>Only a successful send changes the output, and it appends one line.\<close>

lemma send_output:
  "snd (Send S n out) = (if ready n \<and> \<not> crashes n then out @ [line n] else out)"
  using send_unready [of n out] send_crash [of n out] send_ok [of n out]
  by (cases "ready n"; cases "crashes n") auto

end

text \<open>The five implementations, built with the logger that \<open>cmd/worker/main.go\<close> passes them.\<close>

definition info_line :: "string \<Rightarrow> attrs \<Rightarrow> logline" where
  "info_line msg as = \<lparr>line_level = LevelInfo, line_msg = msg, line_attrs = as\<rparr>"

interpretation apns: domain_sender "NewAPNSSender NewLogger"
  "\<lambda>n. notif_recipient_token n \<noteq> []"
  "\<lambda>n. length (notif_recipient_token n) < 8"
  "\<lambda>n. Opaque (''apns: notification '' @ notif_id n @ '' has no device token'')"
  "\<lambda>n. info_line ''apns: sent push notification''
         [(''notification_id'', notif_id n),
          (''device_token'', take 8 (notif_recipient_token n) @ ''...'')]"
  by unfold_locales
     (auto simp: sender_defs slice_to_def emit_def info_line_def NewLogger_def receipt_msgs_def)

interpretation fcm: domain_sender "NewFCMSender NewLogger"
  "\<lambda>n. notif_recipient_token n \<noteq> []" "\<lambda>n. False"
  "\<lambda>n. Opaque (''fcm: notification '' @ notif_id n @ '' has no device token'')"
  "\<lambda>n. info_line ''fcm: sent push notification'' [(''notification_id'', notif_id n)]"
  by unfold_locales
     (auto simp: sender_defs emit_def info_line_def NewLogger_def receipt_msgs_def)

interpretation sms: domain_sender "NewSMSSender NewLogger"
  "\<lambda>n. notif_recipient_phone n \<noteq> []" "\<lambda>n. False"
  "\<lambda>n. Opaque (''sms: notification '' @ notif_id n @ '' has no phone number'')"
  "\<lambda>n. info_line ''sms: sent SMS''
         [(''notification_id'', notif_id n), (''phone'', mask (notif_recipient_phone n))]"
  by unfold_locales
     (auto simp: sender_defs emit_def info_line_def NewLogger_def receipt_msgs_def)

interpretation email: domain_sender "NewEmailSender NewLogger"
  "\<lambda>n. notif_recipient_email n \<noteq> []" "\<lambda>n. False"
  "\<lambda>n. Opaque (''email: notification '' @ notif_id n @ '' has no email address'')"
  "\<lambda>n. info_line ''email: sent email''
         [(''notification_id'', notif_id n), (''to'', mask (notif_recipient_email n))]"
  by unfold_locales
     (auto simp: sender_defs emit_def info_line_def NewLogger_def receipt_msgs_def)

interpretation mock: domain_sender "NewMockSender ch NewLogger"
  "\<lambda>n. True" "\<lambda>n. False" "\<lambda>n. Opaque []"
  "\<lambda>n. info_line ''mock sender: would send notification''
         [(''channel'', ch), (''notification_id'', notif_id n), (''user_id'', notif_user_id n),
          (''template_id'', notif_template_id n)]"
  for ch
  by unfold_locales
     (auto simp: sender_defs emit_def info_line_def NewLogger_def receipt_msgs_def)

subsection \<open>Properties\<close>

text \<open>
  The iOS sender delivers a notification exactly when its device token has at
  least eight bytes; it fails with an error when the token is empty and panics on a token of one to
  seven bytes, because the log line slices the first eight.
\<close>

lemma apns_send_outcome:
  "(fst (Send (NewAPNSSender NewLogger) n out) = Ret None
      \<longleftrightarrow> 8 \<le> length (notif_recipient_token n)) \<and>
   ((\<exists>e. fst (Send (NewAPNSSender NewLogger) n out) = Ret (Some e))
      \<longleftrightarrow> notif_recipient_token n = []) \<and>
   ((\<exists>p. fst (Send (NewAPNSSender NewLogger) n out) = Panicked p)
      \<longleftrightarrow> 0 < length (notif_recipient_token n) \<and> length (notif_recipient_token n) < 8)"
  using apns.send_success_iff [of n out] apns.send_error_iff [of n out] apns.send_crash [of n out]
  by auto

text \<open>
  C37 (safety).  Personal data stays out of the log: two phone numbers (or two addresses) longer
  than four bytes that agree in their first two and last two bytes make the SMS (or email) sender
  behave alike and print the same line, so nothing of what lies between can be read off the output.
\<close>

theorem senders_mask_recipient:
  assumes "4 < length p" "4 < length q" "take 2 p = take 2 q"
    and "drop (length p - 2) p = drop (length q - 2) q"
  shows "Send (NewSMSSender NewLogger) (n\<lparr>notif_recipient_phone := p\<rparr>) out =
           Send (NewSMSSender NewLogger) (n\<lparr>notif_recipient_phone := q\<rparr>) out \<and>
         Send (NewEmailSender NewLogger) (n\<lparr>notif_recipient_email := p\<rparr>) out =
           Send (NewEmailSender NewLogger) (n\<lparr>notif_recipient_email := q\<rparr>) out"
proof -
  have "mask p = mask q" using assms by (simp add: mask_def)
  moreover have "p \<noteq> []" "q \<noteq> []" using assms by auto
  ultimately show ?thesis by (simp add: sender_defs)
qed

theorem senders_mask_recipient_witness:
  "Send (NewSMSSender NewLogger) (zero_notification\<lparr>notif_recipient_phone := ''+441234567''\<rparr>) [] =
     Send (NewSMSSender NewLogger) (zero_notification\<lparr>notif_recipient_phone := ''+499967''\<rparr>) [] \<and>
   Send (NewEmailSender NewLogger) (zero_notification\<lparr>notif_recipient_email := ''+441234567''\<rparr>) [] =
     Send (NewEmailSender NewLogger) (zero_notification\<lparr>notif_recipient_email := ''+499967''\<rparr>) []"
  by (rule senders_mask_recipient) simp_all

end
