(* ===== verification/Worker.thy ===== *)
theory Worker
  imports Persistence Retry Sender Metrics Kafka
begin

section \<open>The worker\<close>

text \<open>
  \<^verbatim>\<open>internal/worker/worker.go\<close>.  \<open>process\<close> handles one notification: idempotency check, delivery
  log, send with retries, update of the log; \<open>Run\<close> is the loop around it.  What the environment
  decides in one call of \<open>process\<close> (faults of the three database calls, the generated log id, the
  clock, the context during the waits) is a record; the state is the database, the standard output
  and the metrics.  The repository is the interface's record, so that the theory speaks of any
  implementation.
\<close>

record worker =
  w_consumer :: consumer
  w_sender :: sender
  w_logger :: logger
  w_retry :: retry_config

definition worker_New :: "consumer \<Rightarrow> sender \<Rightarrow> logger \<Rightarrow> worker" where
  "worker_New c S lg =
     \<lparr>w_consumer = c, w_sender = S, w_logger = With lg [(''channel'', Channel S)],
      w_retry = DefaultConfig\<rparr>"

record process_env =
  pe_exists :: fault
  pe_insert :: fault
  pe_update :: fault
  pe_log_id :: string
  pe_now :: instant
  pe_wait :: "int \<Rightarrow> error"
  pe_oor :: "int \<Rightarrow> duration"
  pe_duration_ms :: int

record 'd worker_state =
  ws_db :: 'd
  ws_out :: stdout
  ws_metrics :: metrics

definition process_logger :: "worker \<Rightarrow> notification \<Rightarrow> logger" where
  "process_logger w n =
     With (w_logger w) [(''notification_id'', notif_id n), (''user_id'', notif_user_id n)]"

definition pending_log :: "worker \<Rightarrow> process_env \<Rightarrow> notification \<Rightarrow> delivery_log" where
  "pending_log w e n =
     \<lparr>dlog_id = pe_log_id e, dlog_notification_id = notif_id n,
      dlog_channel = Channel (w_sender w), dlog_attempt = 1, dlog_status = StatusPending,
      dlog_error_message = [], dlog_attempted_at = pe_now e\<rparr>"

definition send_attempt ::
    "logger \<Rightarrow> sender \<Rightarrow> notification \<Rightarrow> int \<Rightarrow> stdout \<Rightarrow> error go \<times> stdout" where
  "send_attempt log S n attempt out =
     Send S n (if 1 < attempt
               then emit log LevelInfo ''retrying send'' [(''attempt'', show_int attempt)] out
               else out)"

text \<open>Step 4 of \<open>process\<close>, after the retries have failed and after they have succeeded.\<close>

definition mark_failed ::
    "'d log_repo \<Rightarrow> worker \<Rightarrow> process_env \<Rightarrow> notification \<Rightarrow> go_error \<Rightarrow> 'd worker_state
       \<Rightarrow> error go \<times> 'd worker_state" where
  "mark_failed R w e n retryErr s =
     (let log = process_logger w n;
          (updateErr, d) =
            repo_update R (pe_update e) (pe_log_id e) StatusFailed (error_text retryErr) (ws_db s);
          out = (case updateErr of
                   None \<Rightarrow> ws_out s
                 | Some x \<Rightarrow> emit log LevelError ''failed to update delivery log to failed''
                              [(''error'', error_text x)] (ws_out s))
      in (Ret (Some (Wrapf ''send failed after retries: '' retryErr [])),
          \<lparr>ws_db = d, ws_out = out,
           ws_metrics = Inc (NotificationsFailedTotal (Channel (w_sender w))) (ws_metrics s)\<rparr>))"

definition mark_sent ::
    "'d log_repo \<Rightarrow> worker \<Rightarrow> process_env \<Rightarrow> notification \<Rightarrow> 'd worker_state
       \<Rightarrow> error go \<times> 'd worker_state" where
  "mark_sent R w e n s =
     (let log = process_logger w n; ch = Channel (w_sender w);
          (updateErr, d) = repo_update R (pe_update e) (pe_log_id e) StatusSent [] (ws_db s);
          out = (case updateErr of
                   None \<Rightarrow> ws_out s
                 | Some x \<Rightarrow> emit log LevelError ''notification sent but failed to update delivery log''
                              [(''error'', error_text x)] (ws_out s))
      in (Ret None,
          \<lparr>ws_db = d,
           ws_out = emit log LevelInfo ''notification delivered successfully''
                      [(''duration_ms'', show_int (pe_duration_ms e))] out,
           ws_metrics = Observe (DeliveryDuration ch)
                          (Inc (NotificationsSentTotal ch) (ws_metrics s))\<rparr>))"

definition process ::
    "'d log_repo \<Rightarrow> worker \<Rightarrow> process_env \<Rightarrow> notification \<Rightarrow> 'd worker_state
       \<Rightarrow> error go \<times> 'd worker_state" where
  "process R w e n s =
     (let log = process_logger w n; ch = Channel (w_sender w) in
      case repo_exists R (pe_exists e) (notif_id n) (ws_db s) of
        Inl err \<Rightarrow> (Ret (Some (Wrapf ''idempotency check: '' err [])), s)
      | Inr alreadySent \<Rightarrow>
          if alreadySent then
            (Ret None,
             s\<lparr>ws_out := emit log LevelInfo ''notification already delivered, skipping (idempotent)'' []
                           (ws_out s),
               ws_metrics := Inc (NotificationsSkippedTotal ch ''duplicate'') (ws_metrics s)\<rparr>)
          else
            (case repo_insert R (pe_insert e) (pending_log w e n) (ws_db s) of
               (Some err, d1) \<Rightarrow>
                 (Ret (Some (Wrapf ''persist delivery log: '' err [])), s\<lparr>ws_db := d1\<rparr>)
             | (None, d1) \<Rightarrow>
                 (let out1 = emit log LevelInfo ''delivery log persisted, attempting send'' []
                               (ws_out s);
                      (retryErr, out2, waits) =
                        Do (pe_oor e) (w_retry w) (send_attempt log (w_sender w) n) (pe_wait e) out1;
                      s2 = s\<lparr>ws_db := d1, ws_out := out2\<rparr>
                  in case retryErr of
                       Panicked p \<Rightarrow> (Panicked p, s2)
                     | Ret (Some err) \<Rightarrow> mark_failed R w e n err s2
                     | Ret None \<Rightarrow> mark_sent R w e n s2)))"

subsection \<open>The loop\<close>

text \<open>
  The loop consumes the reader's answers.  It is blocked when there are none left, stops when the
  context ends, and ends the whole process when \<open>process\<close> panics: nothing recovers it.
\<close>

datatype run_end = Blocked | Stopped | Crashed string

fun run_loop ::
    "(string \<Rightarrow> string) \<Rightarrow> 'd log_repo \<Rightarrow> worker
       \<Rightarrow> ((go_error + (string \<times> int)) \<times> process_env) list \<Rightarrow> 'd worker_state
       \<Rightarrow> run_end \<times> 'd worker_state" where
  "run_loop complaint R w [] s = (Blocked, s)"
| "run_loop complaint R w ((answer, e) # rest) s =
     (case ReadOne complaint (w_consumer w) answer of
        Inl err \<Rightarrow>
          if errors_is err ContextCanceled \<or> errors_is err ContextDeadlineExceeded then
            (Stopped, s\<lparr>ws_out := emit (w_logger w) LevelInfo ''worker shutting down'' [] (ws_out s)\<rparr>)
          else
            run_loop complaint R w rest
              (s\<lparr>ws_out := emit (w_logger w) LevelError ''failed to read from kafka''
                            [(''error'', error_text err)] (ws_out s)\<rparr>)
      | Inr n \<Rightarrow>
          (case process R w e n s of
             (Panicked p, s') \<Rightarrow> (Crashed p, s')
           | (Ret None, s') \<Rightarrow> run_loop complaint R w rest s'
           | (Ret (Some err), s') \<Rightarrow>
               run_loop complaint R w rest
                 (s'\<lparr>ws_out := emit (w_logger w) LevelError ''failed to process notification''
                               [(''notification_id'', notif_id n), (''error'', error_text err)]
                               (ws_out s')\<rparr>)))"

definition Run ::
    "(string \<Rightarrow> string) \<Rightarrow> 'd log_repo \<Rightarrow> worker
       \<Rightarrow> ((go_error + (string \<times> int)) \<times> process_env) list \<Rightarrow> 'd worker_state
       \<Rightarrow> run_end \<times> 'd worker_state" where
  "Run complaint R w answers s =
     run_loop complaint R w answers
       (s\<lparr>ws_out := emit (w_logger w) LevelInfo ''worker started'' [] (ws_out s)\<rparr>)"

subsection \<open>What a worker may rely on, and what follows\<close>

text \<open>
  A worker whose repository keeps the contract of \<open>DeliveryLogRepository\<close>, whose sender keeps that
  of \<open>Sender\<close>, and whose logger and retry configuration are those of \<open>New\<close>.
\<close>

text \<open>How often the receipts name notification \<open>k\<close>.\<close>

definition delivered :: "(string \<Rightarrow> string option) \<Rightarrow> logline list \<Rightarrow> string \<Rightarrow> nat" where
  "delivered key rs k =
     length (filter (\<lambda>l. Option.bind (map_of (line_attrs l) ''notification_id'') key = Some k) rs)"

lemma delivered_simps [simp]:
  "delivered key [] k = 0" "delivered key (xs @ ys) k = delivered key xs k + delivered key ys k"
  by (simp_all add: delivered_def)

text \<open>
  A run without faults: the calls to the database succeed, the generated log ids are new and
  distinct, and the reader answers with messages or with errors that are not the context's.
\<close>

definition calm :: "process_env \<Rightarrow> bool" where
  "calm e \<longleftrightarrow> pe_exists e = NoFault \<and> pe_insert e = NoFault \<and> pe_update e = NoFault"

definition new_ids :: "(string \<Rightarrow> string option) \<Rightarrow> string list \<Rightarrow> delivery_log list \<Rightarrow> bool" where
  "new_ids key is ls \<longleftrightarrow> distinct (map key is) \<and>
     (\<forall>i \<in> set is. \<exists>k. key i = Some k \<and> k \<notin> dlog_id ` set ls)"

definition consumed ::
    "(string \<Rightarrow> string) \<Rightarrow> consumer \<Rightarrow> ((go_error + (string \<times> int)) \<times> 'e) list \<Rightarrow> notification set" where
  "consumed complaint c answers = {n. \<exists>a \<in> fst ` set answers. ReadOne complaint c a = Inr n}"

definition no_context_error ::
    "(string \<Rightarrow> string) \<Rightarrow> consumer \<Rightarrow> ((go_error + (string \<times> int)) \<times> 'e) list \<Rightarrow> bool" where
  "no_context_error complaint c answers \<longleftrightarrow>
     (\<forall>a \<in> fst ` set answers. \<forall>err. ReadOne complaint c a = Inl err \<longrightarrow>
        \<not> errors_is err ContextCanceled \<and> \<not> errors_is err ContextDeadlineExceeded)"

text \<open>The error of three sends that all fail with \<open>e\<close>, for what the context does in the two waits.\<close>

definition send_error :: "go_error \<Rightarrow> (int \<Rightarrow> error) \<Rightarrow> go_error" where
  "send_error e wait =
     (case wait 1 of
        Some ce \<Rightarrow> cancelled_after 1 ce
      | None \<Rightarrow> (case wait 2 of
          Some ce \<Rightarrow> cancelled_after 2 ce
        | None \<Rightarrow> exhausted DefaultConfig (Some e)))"

lemma Do_always_fails:
  assumes fn: "\<And>k s. fn k s = (Ret (Some e), snd (fn k s))" and "max_attempts cfg = 3"
  shows "fst (Do oor cfg fn wait s) = Ret (Some
     (case wait 1 of
        Some ce \<Rightarrow> cancelled_after 1 ce
      | None \<Rightarrow> (case wait 2 of Some ce \<Rightarrow> cancelled_after 2 ce | None \<Rightarrow> exhausted cfg (Some e))))"
proof -
  have step: "do_loop oor cfg fn wait k l s ds =
      (if k < 3 then (case wait k of
           Some ce \<Rightarrow> (Ret (Some (cancelled_after k ce)), snd (fn k s), ds @ [backoff oor cfg k])
         | None \<Rightarrow> do_loop oor cfg fn wait (k + 1) (Some e) (snd (fn k s)) (ds @ [backoff oor cfg k]))
       else (Ret (Some (exhausted cfg (Some e))), snd (fn k s), ds))" if "k \<le> 3" for k l s ds
    using that assms(2) fn [of k s]
    by (subst do_loop.simps) (auto simp: prod_eq_iff split: option.splits prod.splits)
  show ?thesis by (simp add: Do_def step split: option.split)
qed

lemma pg_text_consts:
  "pg_text StatusSent" "pg_text StatusFailed" "pg_text StatusPending" "pg_text []"
  by code_simp+

locale worker_contract =
  delivery_log_repository R good view known key + domain_sender S ready crashes why line
  for R :: "'d log_repo" and good view known key S ready crashes why line +
  fixes w :: worker
  assumes its_sender: "w_sender w = S"
    and its_level: "logger_level (w_logger w) = LevelInfo"
    and its_retry: "w_retry w = DefaultConfig"
begin

lemma log_level [simp]: "logger_level (process_logger w n) = LevelInfo"
  by (simp add: process_logger_def its_level)

lemma attempts [simp]: "1 \<le> max_attempts (w_retry w)" "max_attempts (w_retry w) = 3"
  by (simp_all add: its_retry DefaultConfig_def)

text \<open>The retries: one successful call, one panic, or an error without a receipt.\<close>

lemma send_done:
  "ready n \<Longrightarrow> \<not> crashes n \<Longrightarrow>
   Do oor (w_retry w) (send_attempt (process_logger w n) S n) wait out = (Ret None, out @ [line n], [])"
  by (rule Do_first) (simp_all add: send_attempt_def send_ok)

lemma send_panics:
  assumes "ready n" "crashes n"
  shows "\<exists>p. Do oor (w_retry w) (send_attempt (process_logger w n) S n) wait out = (Panicked p, out, [])"
proof -
  obtain p where "Send S n out = (Panicked p, out)" using send_crash [OF assms] by blast
  then have "Do oor (w_retry w) (send_attempt (process_logger w n) S n) wait out = (Panicked p, out, [])"
    by (intro Do_first) (simp_all add: send_attempt_def)
  then show ?thesis ..
qed

lemma send_fails:
  assumes "\<not> ready n"
  shows "\<exists>out2 ds.
    Do oor (w_retry w) (send_attempt (process_logger w n) S n) wait out =
      (Ret (Some (send_error (why n) wait)), out2, ds) \<and> receipts out2 = receipts out"
proof -
  let ?fn = "send_attempt (process_logger w n) S n"
  have fn: "?fn k s = (Ret (Some (why n)), snd (?fn k s))" for k s
    using send_unready [OF assms] by (simp add: send_attempt_def)
  have "receipts (fst (snd (do_loop oor (w_retry w) ?fn wait 1 None out []))) = receipts out"
  proof (rule do_loop_invariant [where I = "\<lambda>x. receipts x = receipts out"])
    show "receipts s' = receipts out" if "?fn k s = (r, s')" "receipts s = receipts out" for k s r s'
      using that send_unready [OF assms]
      by (auto simp: send_attempt_def receipts_emit receipt_msgs_def simp del: emit_NewLogger
          split: if_splits)
  qed simp
  moreover have "fst (Do oor (w_retry w) ?fn wait out) = Ret (Some (send_error (why n) wait))"
    using Do_always_fails [of ?fn "why n", OF fn attempts(2)]
    unfolding its_retry send_error_def by simp
  ultimately show ?thesis
    by (cases "Do oor (w_retry w) ?fn wait out") (auto simp: Do_def)
qed

lemma quiet_logs [simp]:
  "receipts (emit lg lv ''notification already delivered, skipping (idempotent)'' as out) = receipts out"
  "receipts (emit lg lv ''delivery log persisted, attempting send'' as out) = receipts out"
  "receipts (emit lg lv ''failed to update delivery log to failed'' as out) = receipts out"
  "receipts (emit lg lv ''notification sent but failed to update delivery log'' as out) = receipts out"
  "receipts (emit lg lv ''notification delivered successfully'' as out) = receipts out"
  "receipts (emit lg lv ''failed to process notification'' as out) = receipts out"
  "receipts (emit lg lv ''failed to read from kafka'' as out) = receipts out"
  "receipts (emit lg lv ''worker shutting down'' as out) = receipts out"
  "receipts (emit lg lv ''worker started'' as out) = receipts out"
  by (simp_all add: receipts_emit receipt_msgs_def)

lemma receipts_line [simp]: "receipts [line n] = [line n]"
  using line_msg [of n] by (simp add: receipts_def)

text \<open>
  The five ways \<open>process\<close> ends: nothing recorded (the check failed or found the notification sent),
  the log not written, a panic with the log pending, a failed send, a send.
\<close>

lemma process_cases:
  assumes good: "good (ws_db s)" and run: "process R w e n s = (r, s')"
  obtains (idle) x where "r = Ret x" "repo_exists R (pe_exists e) (notif_id n) (ws_db s) \<noteq> Inr False"
      "ws_db s' = ws_db s" "receipts (ws_out s') = receipts (ws_out s)"
  | (unwritten) err where "r = Ret (Some err)"
      "repo_exists R (pe_exists e) (notif_id n) (ws_db s) = Inr False"
      "fst (repo_insert R (pe_insert e) (pending_log w e n) (ws_db s)) \<noteq> None"
      "ws_db s' = snd (repo_insert R (pe_insert e) (pending_log w e n) (ws_db s))"
      "receipts (ws_out s') = receipts (ws_out s)"
  | (panicked) p lid nid where "r = Panicked p" "ready n" "crashes n"
      "repo_insert R (pe_insert e) (pending_log w e n) (ws_db s) = (None, ws_db s')"
      "key (pe_log_id e) = Some lid" "key (notif_id n) = Some nid"
      "lid \<notin> dlog_id ` set (view (ws_db s))" "\<not> sent_in (view (ws_db s)) nid"
      "view (ws_db s') = view (ws_db s) @ [stored_dlog lid nid (pending_log w e n)]"
      "receipts (ws_out s') = receipts (ws_out s)" "ws_metrics s' = ws_metrics s"
  | (failed) lid nid d1
    where "r = Ret (Some (Wrapf ''send failed after retries: '' (send_error (why n) (pe_wait e)) []))"
      "\<not> ready n"
      "repo_insert R (pe_insert e) (pending_log w e n) (ws_db s) = (None, d1)" "good d1"
      "key (pe_log_id e) = Some lid" "key (notif_id n) = Some nid"
      "lid \<notin> dlog_id ` set (view (ws_db s))" "\<not> sent_in (view (ws_db s)) nid"
      "view d1 = view (ws_db s) @ [stored_dlog lid nid (pending_log w e n)]"
      "ws_db s' = snd (repo_update R (pe_update e) (pe_log_id e) StatusFailed
                       (error_text (send_error (why n) (pe_wait e))) d1)"
      "receipts (ws_out s') = receipts (ws_out s)"
      "ws_metrics s' = Inc (NotificationsFailedTotal (Channel S)) (ws_metrics s)"
  | (sent) lid nid d1 where "r = Ret None" "ready n" "\<not> crashes n"
      "repo_insert R (pe_insert e) (pending_log w e n) (ws_db s) = (None, d1)" "good d1"
      "key (pe_log_id e) = Some lid" "key (notif_id n) = Some nid"
      "lid \<notin> dlog_id ` set (view (ws_db s))" "\<not> sent_in (view (ws_db s)) nid"
      "view d1 = view (ws_db s) @ [stored_dlog lid nid (pending_log w e n)]"
      "ws_db s' = snd (repo_update R (pe_update e) (pe_log_id e) StatusSent [] d1)"
      "receipts (ws_out s') = receipts (ws_out s) @ [line n]"
      "ws_metrics s' = Observe (DeliveryDuration (Channel S))
                         (Inc (NotificationsSentTotal (Channel S)) (ws_metrics s))"
proof -
  let ?log = "process_logger w n"
  let ?out1 = "emit ?log LevelInfo ''delivery log persisted, attempting send'' [] (ws_out s)"
  let ?ins = "repo_insert R (pe_insert e) (pending_log w e n) (ws_db s)"
  note p = process_def its_sender Let_def
  consider (no) "repo_exists R (pe_exists e) (notif_id n) (ws_db s) \<noteq> Inr False"
    | (bad) err d1 where "repo_exists R (pe_exists e) (notif_id n) (ws_db s) = Inr False"
        "?ins = (Some err, d1)"
    | (go) d1 where "repo_exists R (pe_exists e) (notif_id n) (ws_db s) = Inr False" "?ins = (None, d1)"
    by (cases ?ins; cases "fst ?ins"; cases "repo_exists R (pe_exists e) (notif_id n) (ws_db s) = Inr False")
       auto
  then show thesis
  proof cases
    case no
    with run idle show thesis
      by (auto simp: p simp del: emit_NewLogger split: sum.splits)
  next
    case bad
    with run unwritten show thesis by (auto simp: p)
  next
    case go
    obtain lid nid where ids: "key (pe_log_id e) = Some lid" "key (notif_id n) = Some nid"
        "lid \<notin> dlog_id ` set (view (ws_db s))"
        "view d1 = view (ws_db s) @ [stored_dlog lid nid (pending_log w e n)]"
      using insert_ok [OF good go(2)] by (auto simp: pending_log_def)
    have good1: "good d1" using good_insert [OF good] go(2) by (metis snd_conv)
    have new: "\<not> sent_in (view (ws_db s)) nid" using exists_ok [OF good go(1)] ids(2) by auto
    consider "ready n" "\<not> crashes n" | "ready n" "crashes n" | "\<not> ready n" by blast
    then show thesis
    proof cases
      case 1
      with go run send_done [OF 1, of "pe_oor e" "pe_wait e" ?out1] ids good1 new show thesis
        by (intro sent [of d1 lid nid])
           (auto simp: p mark_sent_def simp del: emit_NewLogger split: prod.splits option.splits)
    next
      case 2
      obtain q where "Do (pe_oor e) (w_retry w) (send_attempt ?log S n) (pe_wait e) ?out1 =
          (Panicked q, ?out1, [])"
        using send_panics [OF 2, of "pe_oor e" "pe_wait e" ?out1] by blast
      with 2 go run ids good1 new show thesis
        by (intro panicked [of q lid nid]) (auto simp: p simp del: emit_NewLogger)
    next
      case 3
      obtain out2 ds where "Do (pe_oor e) (w_retry w) (send_attempt ?log S n) (pe_wait e) ?out1 =
          (Ret (Some (send_error (why n) (pe_wait e))), out2, ds)" "receipts out2 = receipts (ws_out s)"
        using send_fails [OF 3, of "pe_oor e" "pe_wait e" ?out1] by (auto simp del: emit_NewLogger)
      with 3 go run ids good1 new show thesis
        by (intro failed [of d1 lid nid])
           (auto simp: p mark_failed_def simp del: emit_NewLogger split: prod.splits option.splits)
    qed
  qed
qed

text \<open>What follows for one call: the invariant, the receipt that needs a log, the idempotent skip.\<close>

lemma process_good:
  assumes "good (ws_db s)" "process R w e n s = (r, s')"
  shows "good (ws_db s')"
  using assms
proof (cases rule: process_cases)
  case panicked
  then show ?thesis using good_insert [OF assms(1)] by (metis snd_conv)
qed (simp_all add: assms good_insert good_update)

lemma process_receipt:
  assumes "good (ws_db s)" "process R w e n s = (r, s')"
  shows "receipts (ws_out s') = receipts (ws_out s) \<or>
         r = Ret None \<and> receipts (ws_out s') = receipts (ws_out s) @ [line n] \<and>
         (\<exists>nid. key (notif_id n) = Some nid \<and> \<not> sent_in (view (ws_db s)) nid \<and>
            (\<exists>l \<in> set (view (ws_db s')). dlog_notification_id l = nid \<and> dlog_channel l = Channel S))"
  using assms
proof (cases rule: process_cases)
  case (sent lid nid d1)
  have "\<exists>l \<in> set (view (ws_db s')). dlog_notification_id l = nid \<and> dlog_channel l = Channel S"
    using update_view [OF sent(5), of "pe_update e" "pe_log_id e" StatusSent "[]"] sent(10,11)
    by (auto simp: pending_log_def its_sender)
  with sent show ?thesis by blast
qed simp_all

lemma process_skips:
  assumes "good (ws_db s)" "process R w e n s = (r, s')"
    and "key (notif_id n) = Some nid" "sent_in (view (ws_db s)) nid"
  shows "ws_db s' = ws_db s \<and> receipts (ws_out s') = receipts (ws_out s)"
  using assms(1,2)
  by (cases rule: process_cases) (use assms exists_ok [OF assms(1)] in \<open>fastforce+\<close>)

lemma process_kept_sent:
  assumes "good (ws_db s)" "process R w e n s = (r, s')" "sent_in (view (ws_db s)) k"
  shows "sent_in (view (ws_db s')) k"
  using assms(1,2)
proof (cases rule: process_cases)
  case (failed lid nid d1)
  have "map (set_dlog lid StatusFailed msg) (view (ws_db s)) = view (ws_db s)" for msg
    using failed(7) by (intro map_idI) (auto simp: set_dlog_def)
  then show ?thesis
    using update_view [OF failed(4), of "pe_update e" "pe_log_id e" StatusFailed
        "error_text (send_error (why n) (pe_wait e))"]
      failed(5,9,10) assms(3) by auto
next
  case (sent lid nid d1)
  then show ?thesis
    using update_to_sent [OF sent(5), of k] assms(3) by simp
qed (use assms insert_sent in auto)

text \<open>The update of a log that was just written, and the send it puts on record.\<close>

lemma settled:
  assumes "good d1" "view d1 = ls @ [stored_dlog lid nid l]" "lid \<notin> dlog_id ` set ls"
    and "key i = Some lid" "pg_text st" "pg_text msg"
  shows "view (snd (repo_update R NoFault i st msg d1)) =
    ls @ [(stored_dlog lid nid l)\<lparr>dlog_status := st, dlog_error_message := msg\<rparr>]"
proof -
  let ?upd = "repo_update R NoFault i st msg d1"
  have "fst ?upd = None" using update_possible [OF assms(1,4-6)] .
  then have "view (snd ?upd) = map (set_dlog lid st msg) (view d1)"
    using update_ok [OF assms(1), of NoFault i st msg "snd ?upd"] assms(4) by (auto simp: prod_eq_iff)
  moreover have "map (set_dlog lid st msg) ls = ls"
    using assms(3) by (intro map_idI) (auto simp: set_dlog_def)
  ultimately show ?thesis using assms(2) by (simp add: set_dlog_def)
qed

lemma process_records:
  assumes "good (ws_db s)" "process R w e n s = (r, s')" "pe_update e = NoFault"
    and "receipts (ws_out s') \<noteq> receipts (ws_out s)"
  shows "\<exists>nid. key (notif_id n) = Some nid \<and> sent_in (view (ws_db s')) nid"
  using assms(1,2)
proof (cases rule: process_cases)
  case (sent lid nid d1)
  then have "sent_in (view (ws_db s')) nid"
    using settled [OF sent(5,10,8,6), of StatusSent "[]"] assms(3) by (simp add: pg_text_consts)
  with sent show ?thesis by blast
qed (use assms(4) in simp_all)

text \<open>Without faults every branch is taken exactly as the inputs say.\<close>

lemma process_inserts:
  assumes "good (ws_db s)" "pe_insert e = NoFault" "key (notif_id n) = Some nid" "known (ws_db s) nid"
    and "key (pe_log_id e) = Some lid" "lid \<notin> dlog_id ` set (view (ws_db s))" "pg_text (Channel S)"
  shows "\<exists>d1. repo_insert R (pe_insert e) (pending_log w e n) (ws_db s) = (None, d1) \<and> good d1 \<and>
              view d1 = view (ws_db s) @ [stored_dlog lid nid (pending_log w e n)]"
proof -
  let ?l = "pending_log w e n"
  have "dlog_texts_ok ?l"
    using assms(7) by (simp add: dlog_texts_ok_def pending_log_def its_sender int4_def pg_text_consts)
  then have "fst (repo_insert R NoFault ?l (ws_db s)) = None"
    using assms by (intro insert_possible [of _ _ lid nid]) (simp_all add: pending_log_def)
  then obtain d1 where ins: "repo_insert R NoFault ?l (ws_db s) = (None, d1)"
    by (cases "repo_insert R NoFault ?l (ws_db s)") simp
  then have "good d1" using good_insert [OF assms(1)] by (metis snd_conv)
  with insert_ok [OF assms(1) ins] ins assms(2,3,5) show ?thesis by (auto simp: pending_log_def)
qed

lemma process_delivers:
  assumes "good (ws_db s)" "pe_exists e = NoFault" "pe_insert e = NoFault" "pe_update e = NoFault"
    and "key (notif_id n) = Some nid" "known (ws_db s) nid" "\<not> sent_in (view (ws_db s)) nid"
    and "key (pe_log_id e) = Some lid" "lid \<notin> dlog_id ` set (view (ws_db s))" "pg_text (Channel S)"
    and "ready n" "\<not> crashes n"
  shows "\<exists>s'. process R w e n s = (Ret None, s') \<and>
    view (ws_db s') = view (ws_db s) @
      [(stored_dlog lid nid (pending_log w e n))\<lparr>dlog_status := StatusSent, dlog_error_message := []\<rparr>] \<and>
    receipts (ws_out s') = receipts (ws_out s) @ [line n] \<and>
    ws_metrics s' = Observe (DeliveryDuration (Channel S))
                      (Inc (NotificationsSentTotal (Channel S)) (ws_metrics s))"
proof -
  obtain r s' where run: "process R w e n s = (r, s')" by fastforce
  from assms(1) run show ?thesis
  proof (cases rule: process_cases)
    case (sent lid' nid' d1)
    with assms(5,8) have "lid' = lid" "nid' = nid" by simp_all
    with settled [OF sent(5,10,8,6), of StatusSent "[]"] run sent assms(4) show ?thesis
      by (simp add: pg_text_consts)
  qed (use assms(11,12) exists_possible [OF assms(1,5)] assms(2,7)
        process_inserts [OF assms(1,3,5,6,8,9,10)] in auto)
qed

lemma process_reports:
  assumes "good (ws_db s)" "pe_exists e = NoFault" "pe_insert e = NoFault" "pe_update e = NoFault"
    and "key (notif_id n) = Some nid" "known (ws_db s) nid" "\<not> sent_in (view (ws_db s)) nid"
    and "key (pe_log_id e) = Some lid" "lid \<notin> dlog_id ` set (view (ws_db s))" "pg_text (Channel S)"
    and "\<not> ready n" "pg_text (error_text (send_error (why n) (pe_wait e)))"
  shows "\<exists>s'. process R w e n s =
      (Ret (Some (Wrapf ''send failed after retries: '' (send_error (why n) (pe_wait e)) [])), s') \<and>
    view (ws_db s') = view (ws_db s) @
      [(stored_dlog lid nid (pending_log w e n))
         \<lparr>dlog_status := StatusFailed,
          dlog_error_message := error_text (send_error (why n) (pe_wait e))\<rparr>] \<and>
    receipts (ws_out s') = receipts (ws_out s) \<and>
    ws_metrics s' = Inc (NotificationsFailedTotal (Channel S)) (ws_metrics s)"
proof -
  obtain r s' where run: "process R w e n s = (r, s')" by fastforce
  from assms(1) run show ?thesis
  proof (cases rule: process_cases)
    case (failed lid' nid' d1)
    with assms(5,8) have "lid' = lid" "nid' = nid" by simp_all
    with settled [OF failed(4,9,7,5) pg_text_consts(2) assms(12)] run failed assms(4) show ?thesis
      by simp
  qed (use assms(11) exists_possible [OF assms(1,5)] assms(2,7)
        process_inserts [OF assms(1,3,5,6,8,9,10)] in auto)
qed

subsection \<open>The loop, inside the contract\<close>

lemma delivered_line [simp]: "delivered key [line n] k = (if key (notif_id n) = Some k then 1 else 0)"
  by (simp add: delivered_def line_id)

lemma run_loop_invariant:
  assumes "I (ws_db s) (receipts (ws_out s))"
    and "\<And>n e s r s'. e \<in> snd ` set answers \<Longrightarrow> I (ws_db s) (receipts (ws_out s)) \<Longrightarrow>
           process R w e n s = (r, s') \<Longrightarrow> I (ws_db s') (receipts (ws_out s'))"
  shows "I (ws_db (snd (run_loop complaint R w answers s)))
           (receipts (ws_out (snd (run_loop complaint R w answers s))))"
  using assms
proof (induction answers arbitrary: s)
  case (Cons a rest)
  obtain answer e where a: "a = (answer, e)" by (cases a)
  have IH: "I (ws_db (snd (run_loop complaint R w rest s2)))
      (receipts (ws_out (snd (run_loop complaint R w rest s2))))"
    if "I (ws_db s2) (receipts (ws_out s2))" for s2
  proof (rule Cons.IH [OF that])
    fix n e s r s'
    assume "e \<in> snd ` set rest" "I (ws_db s) (receipts (ws_out s))" "process R w e n s = (r, s')"
    then show "I (ws_db s') (receipts (ws_out s'))" by (intro Cons.prems(2) [of e s n r s']) simp_all
  qed
  show ?case
  proof (cases "ReadOne complaint (w_consumer w) answer")
    case (Inl err)
    with Cons.prems(1) IH show ?thesis by (simp add: a del: emit_NewLogger)
  next
    case (Inr n)
    obtain r s' where run: "process R w e n s = (r, s')" by fastforce
    have "e \<in> snd ` set (a # rest)" by (simp add: a)
    from Cons.prems(2) [OF this Cons.prems(1) run] have I: "I (ws_db s') (receipts (ws_out s'))" .
    show ?thesis
    proof (cases r)
      case (Ret x)
      have loop: "run_loop complaint R w (a # rest) s = run_loop complaint R w rest
          (case x of None \<Rightarrow> s'
           | Some err \<Rightarrow> s'\<lparr>ws_out := emit (w_logger w) LevelError ''failed to process notification''
                               [(''notification_id'', notif_id n), (''error'', error_text err)]
                               (ws_out s')\<rparr>)"
        by (cases x) (simp_all add: a Inr run Ret del: emit_NewLogger)
      show ?thesis
        unfolding loop by (rule IH) (cases x; simp add: I del: emit_NewLogger)
    next
      case (Panicked p)
      have "run_loop complaint R w (a # rest) s = (Crashed p, s')"
        by (simp add: a Inr run Panicked)
      with I show ?thesis by simp
    qed
  qed
qed simp

lemma run_invariant:
  assumes "I (ws_db s) (receipts (ws_out s))"
    and "\<And>n e s r s'. e \<in> snd ` set answers \<Longrightarrow> I (ws_db s) (receipts (ws_out s)) \<Longrightarrow>
           process R w e n s = (r, s') \<Longrightarrow> I (ws_db s') (receipts (ws_out s'))"
  shows "I (ws_db (snd (Run complaint R w answers s)))
           (receipts (ws_out (snd (Run complaint R w answers s))))"
  unfolding Run_def
proof (rule run_loop_invariant [where I = I], goal_cases)
  case 1
  show ?case using assms(1) by (simp del: emit_NewLogger)
next
  case (2 n e s r s')
  then show ?case by (rule assms(2))
qed

text \<open>A notification's count of deliveries goes up only when its log could not be found as sent.\<close>

lemma process_once:
  assumes "good (ws_db s)" "process R w e n s = (r, s')" "pe_update e = NoFault"
    and "\<forall>k. delivered key (receipts (ws_out s)) k \<le> 1 \<and>
           (delivered key (receipts (ws_out s)) k = 1 \<longrightarrow> sent_in (view (ws_db s)) k)"
  shows "delivered key (receipts (ws_out s')) k \<le> 1 \<and>
         (delivered key (receipts (ws_out s')) k = 1 \<longrightarrow> sent_in (view (ws_db s')) k)"
proof (cases "receipts (ws_out s') = receipts (ws_out s)")
  case True
  with assms(4) process_kept_sent [OF assms(1,2)] show ?thesis by auto
next
  case False
  with process_receipt [OF assms(1,2)] obtain nid where
      "receipts (ws_out s') = receipts (ws_out s) @ [line n]" "key (notif_id n) = Some nid"
      "\<not> sent_in (view (ws_db s)) nid" by blast
  with process_records [OF assms(1-3) False] assms(4) process_kept_sent [OF assms(1,2)]
  show ?thesis by (auto simp: le_Suc_eq)
qed

lemma run_at_most_once:
  assumes "good (ws_db s)" "\<forall>e \<in> snd ` set answers. pe_update e = NoFault"
    and "\<forall>k. delivered key (receipts (ws_out s)) k \<le> 1 \<and>
           (delivered key (receipts (ws_out s)) k = 1 \<longrightarrow> sent_in (view (ws_db s)) k)"
  shows "delivered key (receipts (ws_out (snd (Run complaint R w answers s)))) k \<le> 1"
proof -
  have "good (ws_db (snd (Run complaint R w answers s))) \<and>
    (\<forall>k. delivered key (receipts (ws_out (snd (Run complaint R w answers s)))) k \<le> 1 \<and>
      (delivered key (receipts (ws_out (snd (Run complaint R w answers s)))) k = 1 \<longrightarrow>
         sent_in (view (ws_db (snd (Run complaint R w answers s)))) k))"
  proof (rule run_invariant [where I = "\<lambda>d rs. good d \<and> (\<forall>k. delivered key rs k \<le> 1 \<and>
      (delivered key rs k = 1 \<longrightarrow> sent_in (view d) k))"], goal_cases)
    case 1
    then show ?case using assms by blast
  next
    case (2 n e s r s')
    then show ?case using process_good process_once assms(2) by blast
  qed
  then show ?thesis by blast
qed

text \<open>A log written once stays, with its notification and channel; so does what is known.\<close>

lemma insert_mono:
  "good d \<Longrightarrow> set (view d) \<subseteq> set (view (snd (repo_insert R f l d)))"
  using insert_view [of d f l] by auto

lemma update_log_kept:
  assumes "good d" "l \<in> set (view d)"
  shows "\<exists>l' \<in> set (view (snd (repo_update R f i st msg d))).
    dlog_notification_id l' = dlog_notification_id l \<and> dlog_channel l' = dlog_channel l"
  using update_view [OF assms(1), of f i st msg] assms(2) by auto

lemma process_log_kept:
  assumes "good (ws_db s)" "process R w e n s = (r, s')" "l \<in> set (view (ws_db s))"
  shows "\<exists>l' \<in> set (view (ws_db s')).
    dlog_notification_id l' = dlog_notification_id l \<and> dlog_channel l' = dlog_channel l"
  using assms(1,2)
proof (cases rule: process_cases)
  case unwritten
  then show ?thesis using insert_mono [OF assms(1)] assms(3) by auto
next
  case (failed lid nid d1)
  then show ?thesis using update_log_kept [OF failed(4), of l] assms(3) by auto
next
  case (sent lid nid d1)
  then show ?thesis using update_log_kept [OF sent(5), of l] assms(3) by auto
qed (use assms(3) in auto)

lemma process_known:
  assumes "good (ws_db s)" "process R w e n s = (r, s')"
  shows "known (ws_db s') k \<longleftrightarrow> known (ws_db s) k"
proof -
  have ins: "known d1 k \<longleftrightarrow> known (ws_db s) k"
    if "repo_insert R (pe_insert e) (pending_log w e n) (ws_db s) = (x, d1)" for x d1
    using known_insert [OF assms(1)] that by (metis snd_conv)
  from assms show ?thesis
    by (cases rule: process_cases) (simp_all add: assms(1) known_insert known_update ins)
qed

lemma run_no_ghost:
  assumes "good (ws_db s)" "receipts (ws_out s) = []"
    and "0 < delivered key (receipts (ws_out (snd (Run complaint R w answers s)))) k"
  shows "\<exists>l \<in> set (view (ws_db (snd (Run complaint R w answers s)))).
    dlog_notification_id l = k \<and> dlog_channel l = Channel S"
proof -
  let ?s' = "snd (Run complaint R w answers s)"
  have "good (ws_db ?s') \<and> (\<forall>k. 0 < delivered key (receipts (ws_out ?s')) k \<longrightarrow>
      (\<exists>l \<in> set (view (ws_db ?s')). dlog_notification_id l = k \<and> dlog_channel l = Channel S))"
  proof (rule run_invariant [where I = "\<lambda>d rs. good d \<and> (\<forall>k. 0 < delivered key rs k \<longrightarrow>
      (\<exists>l \<in> set (view d). dlog_notification_id l = k \<and> dlog_channel l = Channel S))"], goal_cases)
    case 1
    then show ?case using assms by simp
  next
    case (2 n e s r s')
    then have good: "good (ws_db s)" by blast
    have kept: "\<exists>l \<in> set (view (ws_db s')). dlog_notification_id l = k \<and> dlog_channel l = Channel S"
      if "\<exists>l \<in> set (view (ws_db s)). dlog_notification_id l = k \<and> dlog_channel l = Channel S" for k
      using process_log_kept [OF good 2(3)] that by metis
    from process_receipt [OF good 2(3)] have
        "\<exists>l \<in> set (view (ws_db s')). dlog_notification_id l = k \<and> dlog_channel l = Channel S"
      if "0 < delivered key (receipts (ws_out s')) k" for k
      using that kept [of k] 2(2) by (auto split: if_splits)
    with process_good [OF good 2(3)] show ?case by blast
  qed
  with assms(3) show ?thesis by blast
qed

text \<open>Without faults, every message that can be delivered is, once.\<close>

lemma process_calm:
  assumes good: "good (ws_db s)" and calm: "calm e" and n: "key (notif_id n) = Some nid"
    and kn: "known (ws_db s) nid" and new: "new_ids key [pe_log_id e] (view (ws_db s))"
    and ch: "pg_text (Channel S)" and "ready n" "\<not> crashes n"
  shows "\<exists>s'. process R w e n s = (Ret None, s') \<and>
    (\<forall>k. sent_in (view (ws_db s')) k \<longleftrightarrow> sent_in (view (ws_db s)) k \<or> k = nid) \<and>
    (\<exists>lid. key (pe_log_id e) = Some lid \<and>
       dlog_id ` set (view (ws_db s')) \<subseteq> insert lid (dlog_id ` set (view (ws_db s)))) \<and>
    receipts (ws_out s') =
      receipts (ws_out s) @ (if sent_in (view (ws_db s)) nid then [] else [line n])"
proof -
  obtain lid where lid: "key (pe_log_id e) = Some lid" "lid \<notin> dlog_id ` set (view (ws_db s))"
    using new by (auto simp: new_ids_def)
  from calm have nofault: "pe_exists e = NoFault" "pe_insert e = NoFault" "pe_update e = NoFault"
    by (simp_all add: calm_def)
  show ?thesis
  proof (cases "sent_in (view (ws_db s)) nid")
    case True
    then have "repo_exists R (pe_exists e) (notif_id n) (ws_db s) = Inr True"
      using exists_possible [OF good n] nofault(1) by simp
    then show ?thesis
      using True lid by (auto simp: process_def Let_def simp del: emit_NewLogger)
  next
    case False
    obtain s' where "process R w e n s = (Ret None, s')"
      "view (ws_db s') = view (ws_db s) @
        [(stored_dlog lid nid (pending_log w e n))\<lparr>dlog_status := StatusSent, dlog_error_message := []\<rparr>]"
      "receipts (ws_out s') = receipts (ws_out s) @ [line n]"
      using process_delivers [OF good nofault n kn False lid ch assms(7,8)] by blast
    with False lid show ?thesis by auto
  qed
qed

lemma new_ids_later:
  assumes "new_ids key (i # is) ls" "key i = Some lid"
    and "dlog_id ` set ls' \<subseteq> insert lid (dlog_id ` set ls)"
  shows "new_ids key is ls'"
proof -
  have "\<exists>k. key j = Some k \<and> k \<notin> dlog_id ` set ls'" if "j \<in> set is" for j
  proof -
    from that assms(1) obtain k where k: "key j = Some k" "k \<notin> dlog_id ` set ls"
      by (auto simp: new_ids_def)
    from that assms(1,2) k(1) have "k \<noteq> lid" by (auto simp: new_ids_def image_iff)
    with k assms(3) show ?thesis by blast
  qed
  with assms(1) show ?thesis by (auto simp: new_ids_def)
qed

lemma run_loop_exactly_once:
  assumes "good (ws_db s)" "\<forall>e \<in> snd ` set answers. calm e"
    and "new_ids key (map (\<lambda>a. pe_log_id (snd a)) answers) (view (ws_db s))"
    and "no_context_error complaint (w_consumer w) answers" "pg_text (Channel S)"
    and "\<forall>n \<in> consumed complaint (w_consumer w) answers. ready n \<and> \<not> crashes n \<and>
           (\<exists>nid. key (notif_id n) = Some nid \<and> known (ws_db s) nid)"
  shows "fst (run_loop complaint R w answers s) = Blocked \<and>
    (\<forall>k. delivered key (receipts (ws_out (snd (run_loop complaint R w answers s)))) k =
       delivered key (receipts (ws_out s)) k +
       (if \<not> sent_in (view (ws_db s)) k \<and>
           (\<exists>n \<in> consumed complaint (w_consumer w) answers. key (notif_id n) = Some k) then 1 else 0))"
  using assms
proof (induction answers arbitrary: s)
  case Nil
  then show ?case by (simp add: consumed_def)
next
  case (Cons a rest)
  obtain answer e where a: "a = (answer, e)" by (cases a)
  let ?C = "consumed complaint (w_consumer w)"
  have rest: "\<forall>e \<in> snd ` set rest. calm e" "no_context_error complaint (w_consumer w) rest"
    using Cons.prems by (simp_all add: no_context_error_def)
  have sub: "?C rest \<subseteq> ?C (a # rest)" by (auto simp: consumed_def)
  show ?case
  proof (cases "ReadOne complaint (w_consumer w) answer")
    case (Inl err)
    let ?s2 = "s\<lparr>ws_out := emit (w_logger w) LevelError ''failed to read from kafka''
                  [(''error'', error_text err)] (ws_out s)\<rparr>"
    have "run_loop complaint R w (a # rest) s = run_loop complaint R w rest ?s2"
      using Cons.prems(4) Inl by (simp add: a no_context_error_def del: emit_NewLogger)
    moreover have "?C (a # rest) = ?C rest" using Inl by (auto simp: consumed_def a)
    moreover have "new_ids key (map (\<lambda>a. pe_log_id (snd a)) rest) (view (ws_db ?s2))"
      using Cons.prems(3) by (simp add: new_ids_def comp_def)
    ultimately show ?thesis
      using Cons.IH [of ?s2] Cons.prems(1,5,6) rest by (simp del: emit_NewLogger)
  next
    case (Inr n)
    then have C: "?C (a # rest) = insert n (?C rest)" by (auto simp: consumed_def a)
    with Cons.prems(6) obtain nid where n: "key (notif_id n) = Some nid" "known (ws_db s) nid"
        "ready n" "\<not> crashes n" by auto
    have new1: "new_ids key [pe_log_id e] (view (ws_db s))"
      using Cons.prems(3) by (simp add: new_ids_def comp_def a)
    have "calm e" using Cons.prems(2) by (simp add: a)
    from process_calm [OF Cons.prems(1) this n(1,2) new1 Cons.prems(5) n(3,4)]
    obtain s' lid where run: "process R w e n s = (Ret None, s')"
      and sent: "\<forall>k. sent_in (view (ws_db s')) k \<longleftrightarrow> sent_in (view (ws_db s)) k \<or> k = nid"
      and lid: "key (pe_log_id e) = Some lid"
        "dlog_id ` set (view (ws_db s')) \<subseteq> insert lid (dlog_id ` set (view (ws_db s)))"
      and out: "receipts (ws_out s') =
        receipts (ws_out s) @ (if sent_in (view (ws_db s)) nid then [] else [line n])" by blast
    have "new_ids key (map (\<lambda>a. pe_log_id (snd a)) rest) (view (ws_db s'))"
      using Cons.prems(3) new_ids_later [OF _ lid] by (simp add: a)
    moreover have "\<forall>m \<in> ?C rest. ready m \<and> \<not> crashes m \<and>
        (\<exists>nid. key (notif_id m) = Some nid \<and> known (ws_db s') nid)"
      using Cons.prems(6) sub process_known [OF Cons.prems(1) run] by blast
    ultimately have "fst (run_loop complaint R w rest s') = Blocked \<and>
      (\<forall>k. delivered key (receipts (ws_out (snd (run_loop complaint R w rest s')))) k =
         delivered key (receipts (ws_out s')) k +
         (if \<not> sent_in (view (ws_db s')) k \<and> (\<exists>n \<in> ?C rest. key (notif_id n) = Some k) then 1 else 0))"
      using Cons.IH [OF process_good [OF Cons.prems(1) run]] rest Cons.prems(5) by blast
    moreover have "run_loop complaint R w (a # rest) s = run_loop complaint R w rest s'"
      by (simp add: a Inr run)
    ultimately show ?thesis using sent out n(1) by (auto simp: C)
  qed
qed

lemma run_exactly_once:
  assumes "good (ws_db s)" "\<forall>e \<in> snd ` set answers. calm e"
    and "new_ids key (map (\<lambda>a. pe_log_id (snd a)) answers) (view (ws_db s))"
    and "no_context_error complaint (w_consumer w) answers" "pg_text (Channel S)"
    and "\<forall>n \<in> consumed complaint (w_consumer w) answers. ready n \<and> \<not> crashes n \<and>
           (\<exists>nid. key (notif_id n) = Some nid \<and> known (ws_db s) nid)"
  shows "fst (Run complaint R w answers s) = Blocked \<and>
    (\<forall>k. delivered key (receipts (ws_out (snd (Run complaint R w answers s)))) k =
       delivered key (receipts (ws_out s)) k +
       (if \<not> sent_in (view (ws_db s)) k \<and>
           (\<exists>n \<in> consumed complaint (w_consumer w) answers. key (notif_id n) = Some k) then 1 else 0))"
proof -
  let ?s = "s\<lparr>ws_out := emit (w_logger w) LevelInfo ''worker started'' [] (ws_out s)\<rparr>"
  have "ws_db ?s = ws_db s" "receipts (ws_out ?s) = receipts (ws_out s)"
    by (simp_all del: emit_NewLogger)
  with run_loop_exactly_once [of ?s answers complaint] assms show ?thesis by (simp add: Run_def)
qed

text \<open>A send whose log could not be updated is invisible to the next check.\<close>

lemma process_resends:
  assumes "good (ws_db s)" "key (notif_id n) = Some nid" "known (ws_db s) nid"
    and "\<not> sent_in (view (ws_db s)) nid" "pg_text (Channel S)" "ready n" "\<not> crashes n"
    and "pe_exists e = NoFault" "pe_insert e = NoFault"
    and "key (pe_log_id e) = Some lid" "lid \<notin> dlog_id ` set (view (ws_db s))"
    and "\<And>i st msg d. snd (repo_update R (pe_update e) i st msg d) = d"
  shows "\<exists>s'. process R w e n s = (Ret None, s') \<and>
    view (ws_db s') = view (ws_db s) @ [stored_dlog lid nid (pending_log w e n)] \<and>
    receipts (ws_out s') = receipts (ws_out s) @ [line n]"
proof -
  obtain r s' where run: "process R w e n s = (r, s')" by fastforce
  from assms(1) run show ?thesis
  proof (cases rule: process_cases)
    case (sent lid' nid' d1)
    with run assms(2,10,12) show ?thesis by simp
  qed (use assms(6,7) exists_possible [OF assms(1,2)] assms(4,8)
        process_inserts [OF assms(1,9,2,3,10,11,5)] in auto)
qed

lemma process_panics:
  assumes "good (ws_db s)" "key (notif_id n) = Some nid" "known (ws_db s) nid"
    and "\<not> sent_in (view (ws_db s)) nid" "pg_text (Channel S)" "ready n" "crashes n"
    and "pe_exists e = NoFault" "pe_insert e = NoFault"
    and "key (pe_log_id e) = Some lid" "lid \<notin> dlog_id ` set (view (ws_db s))"
  shows "\<exists>p s'. process R w e n s = (Panicked p, s') \<and>
    view (ws_db s') = view (ws_db s) @ [stored_dlog lid nid (pending_log w e n)] \<and>
    receipts (ws_out s') = receipts (ws_out s)"
proof -
  obtain r s' where run: "process R w e n s = (r, s')" by fastforce
  from assms(1) run show ?thesis
  proof (cases rule: process_cases)
    case (panicked p lid' nid')
    with run assms(2,10) show ?thesis by simp
  qed (use assms(6,7) exists_possible [OF assms(1,2)] assms(4,8)
        process_inserts [OF assms(1,9,2,3,10,11,5)] in auto)
qed

end

end
