(* ===== verification/Delivery.thy ===== *)
theory Delivery
  imports Worker
begin

section \<open>The four workers on the Store\<close>

text \<open>
  The senders that \<^verbatim>\<open>cmd/worker/main.go\<close> builds, one per channel, and what a worker built by
  \<open>New\<close> from one of them does on the Postgres store.  Every fact is the worker's contract,
  interpreted at these four workers.
\<close>

definition senders :: "logger \<Rightarrow> channel \<Rightarrow> sender option" where
  "senders log =
     [ChannelIOS \<mapsto> NewAPNSSender log, ChannelAndroid \<mapsto> NewFCMSender log,
      ChannelSMS \<mapsto> NewSMSSender log, ChannelEmail \<mapsto> NewEmailSender log]"

text \<open>The field of a notification that a channel's sender needs, and what the sender does with it.\<close>

definition recipient :: "channel \<Rightarrow> notification \<Rightarrow> string" where
  "recipient ch n =
     (if ch = ChannelIOS \<or> ch = ChannelAndroid then notif_recipient_token n
      else if ch = ChannelSMS then notif_recipient_phone n
      else notif_recipient_email n)"

definition token_panics :: "channel \<Rightarrow> notification \<Rightarrow> bool" where
  "token_panics ch n \<longleftrightarrow> ch = ChannelIOS \<and> length (notif_recipient_token n) < 8"

definition failure :: "channel \<Rightarrow> notification \<Rightarrow> go_error" where
  "failure ch n =
     (if ch = ChannelIOS then
        Opaque (''apns: notification '' @ notif_id n @ '' has no device token'')
      else if ch = ChannelAndroid then
        Opaque (''fcm: notification '' @ notif_id n @ '' has no device token'')
      else if ch = ChannelSMS then
        Opaque (''sms: notification '' @ notif_id n @ '' has no phone number'')
      else Opaque (''email: notification '' @ notif_id n @ '' has no email address''))"

definition receipt :: "channel \<Rightarrow> notification \<Rightarrow> logline" where
  "receipt ch n =
     (if ch = ChannelIOS then
        info_line ''apns: sent push notification''
          [(''notification_id'', notif_id n),
           (''device_token'', take 8 (notif_recipient_token n) @ ''...'')]
      else if ch = ChannelAndroid then
        info_line ''fcm: sent push notification'' [(''notification_id'', notif_id n)]
      else if ch = ChannelSMS then
        info_line ''sms: sent SMS''
          [(''notification_id'', notif_id n), (''phone'', mask (notif_recipient_phone n))]
      else
        info_line ''email: sent email''
          [(''notification_id'', notif_id n), (''to'', mask (notif_recipient_email n))])"

abbreviation stored_in :: "database \<Rightarrow> string \<Rightarrow> bool" where
  "stored_in db k \<equiv> k \<in> notif_id ` set (notifs db)"

lemma senders_cases:
  assumes "senders log ch = Some S"
  obtains "ch = ChannelIOS" "S = NewAPNSSender log" | "ch = ChannelAndroid" "S = NewFCMSender log"
  | "ch = ChannelSMS" "S = NewSMSSender log" | "ch = ChannelEmail" "S = NewEmailSender log"
  using assms by (auto simp: senders_def split: if_splits)

lemma senders_Channel: "senders log ch = Some S \<Longrightarrow> Channel S = ch"
  by (erule senders_cases) (simp_all add: sender_defs)

lemma senders_dom: "dom (senders log) = set all_channels"
  by (auto simp: senders_def all_channels_def)

lemma pg_text_channels:
  "pg_text ChannelIOS" "pg_text ChannelAndroid" "pg_text ChannelSMS" "pg_text ChannelEmail"
  by code_simp+

lemma senders_pg_text: "senders log ch = Some S \<Longrightarrow> pg_text ch"
  by (erule senders_cases) (simp_all add: pg_text_channels)

lemma sender_wired:
  assumes "senders NewLogger ch = Some S"
  shows "domain_sender S (\<lambda>n. recipient ch n \<noteq> []) (token_panics ch) (failure ch) (receipt ch)"
  using assms
  by (cases rule: senders_cases; unfold_locales)
     (auto simp: sender_defs recipient_def token_panics_def failure_def receipt_def channel_defs
        slice_to_def emit_def info_line_def NewLogger_def receipt_msgs_def)

lemma worker_wired:
  assumes "senders NewLogger ch = Some S"
  shows "worker_contract store_log_repo store_ok logs stored_in uuid_in S
    (\<lambda>n. recipient ch n \<noteq> []) (token_panics ch) (failure ch) (receipt ch) (worker_New c S NewLogger)"
  by (intro worker_contract.intro store_logs.delivery_log_repository_axioms sender_wired [OF assms])
     (unfold_locales, simp_all add: worker_New_def)

lemma senders_at:
  "senders log ChannelIOS = Some (NewAPNSSender log)"
  "senders log ChannelAndroid = Some (NewFCMSender log)"
  "senders log ChannelSMS = Some (NewSMSSender log)"
  "senders log ChannelEmail = Some (NewEmailSender log)"
  by (simp_all add: senders_def channel_defs)

interpretation ios_worker: worker_contract store_log_repo store_ok logs stored_in uuid_in
  "NewAPNSSender NewLogger" "\<lambda>n. recipient ChannelIOS n \<noteq> []" "token_panics ChannelIOS"
  "failure ChannelIOS" "receipt ChannelIOS" "worker_New c (NewAPNSSender NewLogger) NewLogger" for c
  by (rule worker_wired [OF senders_at(1)])

interpretation android_worker: worker_contract store_log_repo store_ok logs stored_in uuid_in
  "NewFCMSender NewLogger" "\<lambda>n. recipient ChannelAndroid n \<noteq> []" "token_panics ChannelAndroid"
  "failure ChannelAndroid" "receipt ChannelAndroid" "worker_New c (NewFCMSender NewLogger) NewLogger"
  for c
  by (rule worker_wired [OF senders_at(2)])

interpretation sms_worker: worker_contract store_log_repo store_ok logs stored_in uuid_in
  "NewSMSSender NewLogger" "\<lambda>n. recipient ChannelSMS n \<noteq> []" "token_panics ChannelSMS"
  "failure ChannelSMS" "receipt ChannelSMS" "worker_New c (NewSMSSender NewLogger) NewLogger" for c
  by (rule worker_wired [OF senders_at(3)])

interpretation email_worker: worker_contract store_log_repo store_ok logs stored_in uuid_in
  "NewEmailSender NewLogger" "\<lambda>n. recipient ChannelEmail n \<noteq> []" "token_panics ChannelEmail"
  "failure ChannelEmail" "receipt ChannelEmail" "worker_New c (NewEmailSender NewLogger) NewLogger"
  for c
  by (rule worker_wired [OF senders_at(4)])

subsection \<open>A stored notification, for the witnesses\<close>

definition db_note :: database where "db_note = snd (Save NoFault example_note db_alice)"

lemma store_ok_note: "store_ok db_note"
  unfolding db_note_def by (rule store_ok_Save [OF store_ok_alice])

lemma db_note_contents: "logs db_note = []" "map notif_id (notifs db_note) = [note1]"
  by code_simp+

lemma note1_stored: "stored_in db_note note1"
  using db_note_contents(2) by (metis list.set_intros(1) set_map)

lemma uuid_examples: "uuid_in note1 = Some note1" "uuid_in log1 = Some log1"
  by code_simp+

lemma example_note_fields [simp]:
  "notif_id example_note = note1" "recipient ChannelEmail example_note = ''al@x.io''"
  "token_panics ChannelEmail example_note = False"
  "notif_recipient_email example_note = ''al@x.io''"
  "notif_recipient_token example_note = []" "recipient ChannelIOS example_note = []"
  by (simp_all add: example_note_def recipient_def token_panics_def channel_defs zero_notification_def)

definition calm_env :: "string \<Rightarrow> process_env" where
  "calm_env i =
     \<lparr>pe_exists = NoFault, pe_insert = NoFault, pe_update = NoFault, pe_log_id = i, pe_now = 0,
      pe_wait = (\<lambda>_. None), pe_oor = (\<lambda>_. 0), pe_duration_ms = 0\<rparr>"

definition start_at :: "database \<Rightarrow> database worker_state" where
  "start_at d = \<lparr>ws_db = d, ws_out = [], ws_metrics = (\<lambda>_. 0)\<rparr>"

lemma start_simps [simp]:
  "ws_db (start_at d) = d" "ws_out (start_at d) = []" "ws_metrics (start_at d) = (\<lambda>_. 0)"
  "pe_log_id (calm_env i) = i" "calm (calm_env i)" "pe_update (calm_env i) = NoFault"
  "pe_exists (calm_env i) = NoFault" "pe_insert (calm_env i) = NoFault"
  "pe_wait (calm_env i) = (\<lambda>_. None)"
  by (simp_all add: start_at_def calm_env_def calm_def)

definition email_consumer :: consumer where
  "email_consumer = projr (NewConsumer id \<lparr>kafka_broker_addr = [], kafka_routing = default_routing\<rparr>
                             ChannelEmail)"

definition example_message :: string where
  "example_message = the (marshal_notification 0 example_note)"

lemma example_utf8: "notif_utf8 example_note"
  by (simp add: notif_utf8_def example_note_def zero_notification_def payload_utf8_def ascii_valid
      channel_defs status_defs byte_def note1_def alice_def)

lemma read_example: "ReadOne complaint c (Inr (example_message, off)) = Inr example_note"
proof -
  have "marshal_notification 0 example_note = Some example_message"
    by (simp add: example_message_def marshal_notification_def notification_json_def
        time_text_def year_in_range_def local_seconds_def example_note_def zero_notification_def
        zero_time_def ns_per_sec_def epoch_offset_def days_before_def)
  from unmarshal_marshal [OF this example_utf8] show ?thesis by (simp add: ReadOne_def)
qed

subsection \<open>Properties of one call\<close>

text \<open>
  C5 (safety).  Whatever faults its database calls meet and however the send ends, a worker keeps
  the integrity of the database and hands a notification over at most once per call; if it does,
  the database had no successful delivery of that notification and now holds a delivery log of it
  for the worker's channel: no message goes out unrecorded.
\<close>

theorem process_records_every_send:
  assumes "senders NewLogger ch = Some S" "store_ok (ws_db s)"
    and "process store_log_repo (worker_New c S NewLogger) e n s = (r, s')"
  shows "store_ok (ws_db s') \<and>
    (receipts (ws_out s') = receipts (ws_out s) \<or>
     r = Ret None \<and> receipts (ws_out s') = receipts (ws_out s) @ [receipt ch n] \<and>
     (\<exists>nid. uuid_in (notif_id n) = Some nid \<and> \<not> sent_in (logs (ws_db s)) nid \<and>
        (\<exists>l \<in> set (logs (ws_db s')). dlog_notification_id l = nid \<and> dlog_channel l = ch)))"
  using worker_contract.process_good [OF worker_wired [OF assms(1)] assms(2,3)]
    worker_contract.process_receipt [OF worker_wired [OF assms(1)] assms(2,3)]
    senders_Channel [OF assms(1)] by simp

theorem process_records_every_send_witness:
  "\<exists>r s'. process store_log_repo (worker_New email_consumer (NewEmailSender NewLogger) NewLogger)
      (calm_env log1) example_note (start_at db_note) = (r, s') \<and> store_ok (ws_db s')"
proof -
  obtain r s' where run: "process store_log_repo
      (worker_New email_consumer (NewEmailSender NewLogger) NewLogger) (calm_env log1) example_note
      (start_at db_note) = (r, s')" by fastforce
  from process_records_every_send [OF senders_at(4) _ this] store_ok_note run show ?thesis by auto
qed

text \<open>
  The check is idempotent: once any log of a notification says \<open>sent\<close>, processing it
  again, on whatever channel and under whatever faults, changes no row and sends nothing.
\<close>

lemma process_idempotent:
  assumes "senders NewLogger ch = Some S" "store_ok (ws_db s)"
    and "process store_log_repo (worker_New c S NewLogger) e n s = (r, s')"
    and "uuid_in (notif_id n) = Some nid" "sent_in (logs (ws_db s)) nid"
  shows "ws_db s' = ws_db s \<and> receipts (ws_out s') = receipts (ws_out s)"
  using worker_contract.process_skips [OF worker_wired [OF assms(1)] assms(2-5)] .

text \<open>
  C26 (functional).  Without faults, a stored notification not yet sent gets one delivery log with a
  new id, attempt 1 and the worker's channel.  With a recipient (and, for iOS, a token of eight bytes
  or more) it is handed over once, the log says \<open>sent\<close>, the sent counter and the duration histogram
  go up and \<open>process\<close> returns nil.  Without a recipient nothing is handed over, the log says \<open>failed\<close>
  with the text of the last retry's error, the failed counter goes up and that error is returned.
\<close>

theorem process_outcome:
  assumes "senders NewLogger ch = Some S" "store_ok (ws_db s)" "calm e"
    and "uuid_in (notif_id n) = Some nid" "stored_in (ws_db s) nid" "\<not> sent_in (logs (ws_db s)) nid"
    and "uuid_in (pe_log_id e) = Some lid" "lid \<notin> dlog_id ` set (logs (ws_db s))"
    and "\<not> token_panics ch n \<or> recipient ch n = []"
    and "pg_text (error_text (send_error (failure ch n) (pe_wait e)))"
  shows "\<exists>r s' st msg m. process store_log_repo (worker_New c S NewLogger) e n s = (r, s') \<and>
    logs (ws_db s') = logs (ws_db s) @
      [\<lparr>dlog_id = lid, dlog_notification_id = nid, dlog_channel = ch, dlog_attempt = 1,
        dlog_status = st, dlog_error_message = msg, dlog_attempted_at = pe_now e div 1000 * 1000\<rparr>] \<and>
    receipts (ws_out s') = receipts (ws_out s) @ (if recipient ch n = [] then [] else [receipt ch n]) \<and>
    ws_metrics s' = m (ws_metrics s) \<and>
    (if recipient ch n = [] then
       (let err = send_error (failure ch n) (pe_wait e) in
        r = Ret (Some (Wrapf ''send failed after retries: '' err [])) \<and> st = StatusFailed \<and>
        msg = error_text err \<and> m = Inc (NotificationsFailedTotal ch))
     else r = Ret None \<and> st = StatusSent \<and> msg = [] \<and>
       m = Observe (DeliveryDuration ch) \<circ> Inc (NotificationsSentTotal ch))"
proof -
  note wired = worker_wired [OF assms(1), of c] and ch = senders_Channel [OF assms(1)]
  have pg: "pg_text (Channel S)" using senders_pg_text [OF assms(1)] ch by simp
  have nofault: "pe_exists e = NoFault" "pe_insert e = NoFault" "pe_update e = NoFault"
    using assms(3) by (simp_all add: calm_def)
  show ?thesis
  proof (cases "recipient ch n = []")
    case True
    with worker_contract.process_reports [OF wired assms(2) nofault assms(4-8) pg _ assms(10)] ch
    show ?thesis
      by (fastforce simp: stored_dlog_def pending_log_def worker_New_def Let_def)
  next
    case False
    with assms(9) worker_contract.process_delivers [OF wired assms(2) nofault assms(4-8) pg] ch
    show ?thesis
      by (fastforce simp: stored_dlog_def pending_log_def worker_New_def comp_def)
  qed
qed

theorem process_outcome_witness:
  "(\<exists>s'. process store_log_repo (worker_New email_consumer (NewEmailSender NewLogger) NewLogger)
      (calm_env log1) example_note (start_at db_note) = (Ret None, s') \<and>
    map dlog_status (logs (ws_db s')) = [StatusSent] \<and>
    receipts (ws_out s') = [receipt ChannelEmail example_note]) \<and>
   (\<exists>err s'. process store_log_repo (worker_New email_consumer (NewAPNSSender NewLogger) NewLogger)
      (calm_env log1) example_note (start_at db_note) = (Ret (Some err), s') \<and>
    map dlog_status (logs (ws_db s')) = [StatusFailed] \<and> receipts (ws_out s') = [])"
proof
  have pg: "pg_text (error_text (send_error (failure ChannelEmail example_note) (\<lambda>_. None)))"
      "pg_text (error_text (send_error (failure ChannelIOS example_note) (\<lambda>_. None)))"
    by code_simp+
  note start = store_ok_note db_note_contents(1) uuid_examples note1_stored
  show "\<exists>s'. process store_log_repo (worker_New email_consumer (NewEmailSender NewLogger) NewLogger)
      (calm_env log1) example_note (start_at db_note) = (Ret None, s') \<and>
    map dlog_status (logs (ws_db s')) = [StatusSent] \<and>
    receipts (ws_out s') = [receipt ChannelEmail example_note]"
    using process_outcome [OF senders_at(4), of "start_at db_note" "calm_env log1" example_note note1
        log1 email_consumer] start pg(1) by auto
  show "\<exists>err s'. process store_log_repo (worker_New email_consumer (NewAPNSSender NewLogger) NewLogger)
      (calm_env log1) example_note (start_at db_note) = (Ret (Some err), s') \<and>
    map dlog_status (logs (ws_db s')) = [StatusFailed] \<and> receipts (ws_out s') = []"
    using process_outcome [OF senders_at(1), of "start_at db_note" "calm_env log1" example_note note1
        log1 email_consumer] start pg(2) by (auto simp: Let_def)
qed

subsection \<open>Properties of the loop\<close>

text \<open>
  C6 (liveness).  A run that meets no fault, reads no error of the context and is given new log ids, and
  whose notifications are stored, have a recipient for the worker's channel and no token short enough
  to panic, ends only because there is nothing left to read; by then every notification it read that
  was not sent before has been handed over exactly once, however often it was read; no other
  notification has been.
\<close>

theorem Run_exactly_once:
  assumes "senders NewLogger ch = Some S" "store_ok (ws_db s)" "receipts (ws_out s) = []"
    and "\<forall>e \<in> snd ` set answers. calm e"
    and "new_ids uuid_in (map (\<lambda>a. pe_log_id (snd a)) answers) (logs (ws_db s))"
    and "no_context_error complaint c answers"
    and "\<forall>n \<in> consumed complaint c answers. recipient ch n \<noteq> [] \<and> \<not> token_panics ch n \<and>
           (\<exists>nid. uuid_in (notif_id n) = Some nid \<and> stored_in (ws_db s) nid)"
    and "Run complaint store_log_repo (worker_New c S NewLogger) answers s = (fin, s')"
  shows "fin = Blocked \<and>
    (\<forall>k. delivered uuid_in (receipts (ws_out s')) k =
       (if \<not> sent_in (logs (ws_db s)) k \<and>
           (\<exists>n \<in> consumed complaint c answers. uuid_in (notif_id n) = Some k) then 1 else 0))"
proof -
  have pg: "pg_text (Channel S)" using senders_pg_text [OF assms(1)] senders_Channel [OF assms(1)] by simp
  have c: "w_consumer (worker_New c S NewLogger) = c" by (simp add: worker_New_def)
  from worker_contract.run_exactly_once [OF worker_wired [OF assms(1), of c], of s answers complaint,
      unfolded c, OF assms(2,4,5,6) pg assms(7)] assms(3,8)
  show ?thesis by simp
qed

theorem Run_exactly_once_witness:
  "\<exists>s'. Run id store_log_repo (worker_New email_consumer (NewEmailSender NewLogger) NewLogger)
      [(Inr (example_message, 0), calm_env log1), (Inr (example_message, 0), calm_env note1)]
      (start_at db_note) = (Blocked, s') \<and>
    delivered uuid_in (receipts (ws_out s')) note1 = 1"
proof -
  let ?as = "[(Inr (example_message, 0), calm_env log1), (Inr (example_message, 0), calm_env note1)]"
  obtain fin s' where run: "Run id store_log_repo
      (worker_New email_consumer (NewEmailSender NewLogger) NewLogger) ?as (start_at db_note) =
      (fin, s')" by fastforce
  have C: "consumed id email_consumer ?as = {example_note}"
    by (auto simp: consumed_def read_example)
  have "log1 \<noteq> note1" by (simp add: log1_def note1_def)
  then have ids: "new_ids uuid_in (map (\<lambda>a. pe_log_id (snd a)) ?as) (logs db_note)"
    by (simp add: new_ids_def uuid_examples db_note_contents)
  from Run_exactly_once [OF senders_at(4), of "start_at db_note" ?as id email_consumer fin s'] run C ids
    store_ok_note db_note_contents uuid_examples note1_stored
  show ?thesis by (auto simp: no_context_error_def read_example)
qed

text \<open>
  C7 (safety).  At most once: over any run whose updates of the log all reach the database, whatever
  other faults it meets and however often a message is read again, no notification is handed over
  twice, provided none was handed over before without a log that says so.
\<close>

theorem Run_at_most_once:
  assumes "senders NewLogger ch = Some S" "store_ok (ws_db s)"
    and "\<forall>e \<in> snd ` set answers. pe_update e = NoFault"
    and "\<forall>k. delivered uuid_in (receipts (ws_out s)) k \<le> (if sent_in (logs (ws_db s)) k then 1 else 0)"
    and "Run complaint store_log_repo (worker_New c S NewLogger) answers s = (fin, s')"
  shows "delivered uuid_in (receipts (ws_out s')) k \<le> 1"
proof -
  have "delivered uuid_in (receipts (ws_out s)) k \<le> 1 \<and>
      (delivered uuid_in (receipts (ws_out s)) k = 1 \<longrightarrow> sent_in (logs (ws_db s)) k)" for k
    using assms(4) [rule_format, of k] by (auto split: if_splits)
  with worker_contract.run_at_most_once [OF worker_wired [OF assms(1)] assms(2,3), of complaint c]
    assms(5)
  show ?thesis by (metis snd_conv)
qed

theorem Run_at_most_once_witness:
  "\<exists>fin s'. Run id store_log_repo (worker_New email_consumer (NewEmailSender NewLogger) NewLogger)
      [(Inr (example_message, 0), (calm_env log1)\<lparr>pe_insert := LostReply (Opaque ''EOF'')\<rparr>),
       (Inr (example_message, 0), calm_env log1)] (start_at db_note) = (fin, s') \<and>
    delivered uuid_in (receipts (ws_out s')) note1 \<le> 1"
proof -
  let ?as = "[(Inr (example_message, 0), (calm_env log1)\<lparr>pe_insert := LostReply (Opaque ''EOF'')\<rparr>),
       (Inr (example_message, 0), calm_env log1)]"
  obtain fin s' where run: "Run id store_log_repo
      (worker_New email_consumer (NewEmailSender NewLogger) NewLogger) ?as (start_at db_note) =
      (fin, s')" by fastforce
  with Run_at_most_once [OF senders_at(4), of "start_at db_note" ?as id email_consumer fin s' note1]
    store_ok_note show ?thesis by simp
qed

text \<open>
  C31 (safety).  At most once needs the update: if the update after a send is refused, the worker
  returns nil all the same, the log stays pending, and reading the message again sends it again.
\<close>

lemma refused_update: "snd (repo_update store_log_repo (Refused x) i st msg d) = d"
  by (simp add: store_log_repo_def UpdateDeliveryStatus_def)

theorem lost_update_sends_twice:
  assumes "senders NewLogger ch = Some S" "store_ok (ws_db s)"
    and "uuid_in (notif_id n) = Some nid" "stored_in (ws_db s) nid" "\<not> sent_in (logs (ws_db s)) nid"
    and "recipient ch n \<noteq> []" "\<not> token_panics ch n"
    and "new_ids uuid_in [pe_log_id e1, pe_log_id e2] (logs (ws_db s))"
    and "pe_exists e1 = NoFault" "pe_insert e1 = NoFault" "pe_update e1 = Refused x"
    and "pe_exists e2 = NoFault" "pe_insert e2 = NoFault" "pe_update e2 = Refused y"
  shows "\<exists>s1 s2. process store_log_repo (worker_New c S NewLogger) e1 n s = (Ret None, s1) \<and>
    process store_log_repo (worker_New c S NewLogger) e2 n s1 = (Ret None, s2) \<and>
    receipts (ws_out s2) = receipts (ws_out s) @ [receipt ch n, receipt ch n] \<and>
    \<not> sent_in (logs (ws_db s2)) nid"
proof -
  note W = worker_wired [OF assms(1), of c]
  have pg: "pg_text (Channel S)" using senders_pg_text [OF assms(1)] senders_Channel [OF assms(1)] by simp
  obtain l1 l2 where ids: "uuid_in (pe_log_id e1) = Some l1" "l1 \<notin> dlog_id ` set (logs (ws_db s))"
      "uuid_in (pe_log_id e2) = Some l2" "l2 \<notin> dlog_id ` set (logs (ws_db s))" "l1 \<noteq> l2"
    using assms(8) by (auto simp: new_ids_def)
  from worker_contract.process_resends [OF W assms(2-5) pg assms(6,7,9,10) ids(1,2)]
  obtain s1 where s1: "process store_log_repo (worker_New c S NewLogger) e1 n s = (Ret None, s1)"
      "logs (ws_db s1) = logs (ws_db s) @
         [stored_dlog l1 nid (pending_log (worker_New c S NewLogger) e1 n)]"
      "receipts (ws_out s1) = receipts (ws_out s) @ [receipt ch n]"
    using assms(11) refused_update by auto
  have ok1: "store_ok (ws_db s1)" by (rule worker_contract.process_good [OF W assms(2) s1(1)])
  have known1: "stored_in (ws_db s1) nid"
    using worker_contract.process_known [OF W assms(2) s1(1)] assms(4) by simp
  have "\<not> sent_in (logs (ws_db s1)) nid" "l2 \<notin> dlog_id ` set (logs (ws_db s1))"
    using s1(2) assms(5) ids(4,5) by (simp_all add: pending_log_def)
  from worker_contract.process_resends [OF W ok1 assms(3) known1 this(1) pg assms(6,7,12,13) ids(3)
      this(2)] s1 assms(14) refused_update this(1)
  show ?thesis by (fastforce simp: pending_log_def)
qed

theorem lost_update_sends_twice_witness:
  "\<exists>e1 e2 s1 s2. process store_log_repo (worker_New email_consumer (NewEmailSender NewLogger) NewLogger)
      e1 example_note (start_at db_note) = (Ret None, s1) \<and>
    process store_log_repo (worker_New email_consumer (NewEmailSender NewLogger) NewLogger)
      e2 example_note s1 = (Ret None, s2) \<and> length (receipts (ws_out s2)) = 2"
proof -
  let ?e = "\<lambda>i. (calm_env i)\<lparr>pe_update := Refused (Opaque ''conn closed'')\<rparr>"
  have "log1 \<noteq> note1" by (simp add: log1_def note1_def)
  then have ids: "new_ids uuid_in [log1, note1] (logs db_note)"
    by (simp add: new_ids_def uuid_examples db_note_contents)
  from lost_update_sends_twice [OF senders_at(4), of "start_at db_note" example_note note1 "?e log1"
      "?e note1" "Opaque ''conn closed''" "Opaque ''conn closed''" email_consumer] ids
    store_ok_note db_note_contents uuid_examples note1_stored
  obtain s1 s2 where "process store_log_repo
      (worker_New email_consumer (NewEmailSender NewLogger) NewLogger) (?e log1) example_note
      (start_at db_note) = (Ret None, s1)" "process store_log_repo
      (worker_New email_consumer (NewEmailSender NewLogger) NewLogger) (?e note1) example_note s1 =
      (Ret None, s2)" "length (receipts (ws_out s2)) = 2" by auto
  then show ?thesis by blast
qed

text \<open>
  C32 (error).  A notification whose device token has one to seven bytes ends the whole worker
  process: the sender's panic leaves \<open>Run\<close> before anything else is read, with the delivery log
  still pending and nothing handed over.
\<close>

theorem Run_crashes_on_short_token:
  assumes "store_ok (ws_db s)" "calm e" "ReadOne complaint c answer = Inr n"
    and "uuid_in (notif_id n) = Some nid" "stored_in (ws_db s) nid" "\<not> sent_in (logs (ws_db s)) nid"
    and "uuid_in (pe_log_id e) = Some lid" "lid \<notin> dlog_id ` set (logs (ws_db s))"
    and "notif_recipient_token n \<noteq> []" "length (notif_recipient_token n) < 8"
  shows "\<exists>p s'. Run complaint store_log_repo (worker_New c (NewAPNSSender NewLogger) NewLogger)
      ((answer, e) # rest) s = (Crashed p, s') \<and>
    (\<exists>l. logs (ws_db s') = logs (ws_db s) @ [l] \<and> dlog_notification_id l = nid \<and>
       dlog_status l = StatusPending) \<and>
    receipts (ws_out s') = receipts (ws_out s)"
proof -
  let ?w = "worker_New c (NewAPNSSender NewLogger) NewLogger"
  let ?s = "s\<lparr>ws_out := emit (w_logger ?w) LevelInfo ''worker started'' [] (ws_out s)\<rparr>"
  note W = worker_wired [OF senders_at(1), of c]
  have pg: "pg_text (Channel (NewAPNSSender NewLogger))"
    by (simp add: NewAPNSSender_def pg_text_channels)
  have nofault: "pe_exists e = NoFault" "pe_insert e = NoFault" using assms(2) by (simp_all add: calm_def)
  have c: "w_consumer ?w = c" by (simp add: worker_New_def)
  have tok: "recipient ChannelIOS n \<noteq> []" "token_panics ChannelIOS n"
    using assms(9,10) by (simp_all add: recipient_def token_panics_def)
  have s: "store_ok (ws_db ?s)" "stored_in (ws_db ?s) nid" "\<not> sent_in (logs (ws_db ?s)) nid"
      "lid \<notin> dlog_id ` set (logs (ws_db ?s))"
    using assms by simp_all
  from worker_contract.process_panics [OF W s(1) assms(4) s(2,3) pg tok nofault assms(7) s(4)]
  obtain p s' where "process store_log_repo ?w e n ?s = (Panicked p, s')"
      "logs (ws_db s') = logs (ws_db s) @ [stored_dlog lid nid (pending_log ?w e n)]"
      "receipts (ws_out s') = receipts (ws_out ?s)" by auto
  moreover have "receipts (ws_out ?s) = receipts (ws_out s)"
    using worker_contract.quiet_logs(9) [OF W] by simp
  ultimately show ?thesis by (simp add: Run_def c assms(3) pending_log_def)
qed

theorem Run_crashes_on_short_token_witness:
  "\<exists>answer p s'. Run id store_log_repo (worker_New email_consumer (NewAPNSSender NewLogger) NewLogger)
      [(answer, calm_env log1)] (start_at db_note) = (Crashed p, s') \<and>
    map dlog_status (logs (ws_db s')) = [StatusPending]"
proof -
  let ?n = "example_note\<lparr>notif_recipient_token := ''abc''\<rparr>"
  have "notif_utf8 ?n"
    using example_utf8 by (simp add: notif_utf8_def ascii_valid byte_def)
  moreover obtain v where "marshal_notification 0 ?n = Some v"
    by (simp add: marshal_notification_def notification_json_def
        time_text_def year_in_range_def local_seconds_def example_note_def zero_notification_def
        zero_time_def ns_per_sec_def epoch_offset_def days_before_def)
  ultimately have "ReadOne id email_consumer (Inr (v, 0)) = Inr ?n"
    using unmarshal_marshal [of 0 ?n v] by (simp add: ReadOne_def)
  from Run_crashes_on_short_token [OF _ _ this, of "start_at db_note" "calm_env log1" note1 log1 "[]"]
    store_ok_note db_note_contents uuid_examples note1_stored
  show ?thesis by fastforce
qed

end
