(* ===== verification/Steps.thy ===== *)
theory Steps
  imports Delivery
begin

section \<open>A worker's call, one effect at a time\<close>

text \<open>
  \<^verbatim>\<open>worker.go\<close> again, at the grain at which four workers, the API and a crash can interleave: one step
  per call that leaves the process (the check, the insert, each attempt to send with the wait after
  it, the update).  The definition of \<open>process\<close> in \<open>Worker\<close> is the run of these steps without
  interruption.
\<close>

datatype pc = Checking | Persisting | Sending int error | Settling error | Done "error go"

definition worker_step ::
    "'d log_repo \<Rightarrow> worker \<Rightarrow> process_env \<Rightarrow> notification \<Rightarrow> pc \<times> 'd worker_state \<Rightarrow> pc \<times> 'd worker_state"
  where
  "worker_step R w e n = (\<lambda>(pc, s).
     let log = process_logger w n; ch = Channel (w_sender w); cfg = w_retry w in
     case pc of
       Checking \<Rightarrow>
         (case repo_exists R (pe_exists e) (notif_id n) (ws_db s) of
            Inl err \<Rightarrow> (Done (Ret (Some (Wrapf ''idempotency check: '' err []))), s)
          | Inr alreadySent \<Rightarrow>
              if alreadySent then
                (Done (Ret None),
                 s\<lparr>ws_out := emit log LevelInfo ''notification already delivered, skipping (idempotent)'' []
                               (ws_out s),
                   ws_metrics := Inc (NotificationsSkippedTotal ch ''duplicate'') (ws_metrics s)\<rparr>)
              else (Persisting, s))
     | Persisting \<Rightarrow>
         (case repo_insert R (pe_insert e) (pending_log w e n) (ws_db s) of
            (Some err, d1) \<Rightarrow>
              (Done (Ret (Some (Wrapf ''persist delivery log: '' err []))), s\<lparr>ws_db := d1\<rparr>)
          | (None, d1) \<Rightarrow>
              (Sending 1 None,
               s\<lparr>ws_db := d1,
                 ws_out := emit log LevelInfo ''delivery log persisted, attempting send'' [] (ws_out s)\<rparr>))
     | Sending attempt lastErr \<Rightarrow>
         if attempt \<le> max_attempts cfg then
           (case send_attempt log (w_sender w) n attempt (ws_out s) of
              (Panicked p, out) \<Rightarrow> (Done (Panicked p), s\<lparr>ws_out := out\<rparr>)
            | (Ret None, out) \<Rightarrow> (Settling None, s\<lparr>ws_out := out\<rparr>)
            | (Ret (Some err), out) \<Rightarrow>
                if attempt = max_attempts cfg then
                  (Settling (Some (exhausted cfg (Some err))), s\<lparr>ws_out := out\<rparr>)
                else
                  (case pe_wait e attempt of
                     Some ce \<Rightarrow> (Settling (Some (cancelled_after attempt ce)), s\<lparr>ws_out := out\<rparr>)
                   | None \<Rightarrow> (Sending (attempt + 1) (Some err), s\<lparr>ws_out := out\<rparr>)))
         else (Settling (Some (exhausted cfg lastErr)), s)
     | Settling retryErr \<Rightarrow>
         (case (case retryErr of Some err \<Rightarrow> mark_failed R w e n err s | None \<Rightarrow> mark_sent R w e n s) of
            (r, s') \<Rightarrow> (Done r, s'))
     | Done r \<Rightarrow> (Done r, s))"

subsection \<open>The run of the steps is the call\<close>

lemma worker_step_Done [simp]: "worker_step R w e n (Done r, s) = (Done r, s)"
  by (simp add: worker_step_def)

lemma Done_stays: "(worker_step R w e n ^^ k) (Done r, s) = (Done r, s)"
  by (induction k) simp_all

definition after_send :: "error go \<times> stdout \<times> 'x \<Rightarrow> 'd worker_state \<Rightarrow> pc \<times> 'd worker_state" where
  "after_send x s =
     (case x of
        (Panicked p, out, _) \<Rightarrow> (Done (Panicked p), s\<lparr>ws_out := out\<rparr>)
      | (Ret r, out, _) \<Rightarrow> (Settling r, s\<lparr>ws_out := out\<rparr>))"

lemma Sending_unfold:
  "worker_step R w e n (Sending attempt lastErr, s) =
     (let log = process_logger w n; cfg = w_retry w in
      if attempt \<le> max_attempts cfg then
        (case send_attempt log (w_sender w) n attempt (ws_out s) of
           (Panicked p, out) \<Rightarrow> (Done (Panicked p), s\<lparr>ws_out := out\<rparr>)
         | (Ret None, out) \<Rightarrow> (Settling None, s\<lparr>ws_out := out\<rparr>)
         | (Ret (Some err), out) \<Rightarrow>
             if attempt = max_attempts cfg then
               (Settling (Some (exhausted cfg (Some err))), s\<lparr>ws_out := out\<rparr>)
             else
               (case pe_wait e attempt of
                  Some ce \<Rightarrow> (Settling (Some (cancelled_after attempt ce)), s\<lparr>ws_out := out\<rparr>)
                | None \<Rightarrow> (Sending (attempt + 1) (Some err), s\<lparr>ws_out := out\<rparr>)))
      else (Settling (Some (exhausted cfg lastErr)), s))"
  by (simp add: worker_step_def Let_def)

lemma Sending_runs:
  "\<exists>k \<le> nat (max_attempts (w_retry w) + 1 - attempt) + 1.
     (worker_step R w e n ^^ k) (Sending attempt lastErr, s) =
       after_send (do_loop oor (w_retry w) (send_attempt (process_logger w n) (w_sender w) n) (pe_wait e)
                     attempt lastErr (ws_out s) ds) s"
proof (induction "nat (max_attempts (w_retry w) + 1 - attempt)" arbitrary: attempt lastErr s ds
    rule: less_induct)
  case less
  let ?cfg = "w_retry w" and ?fn = "send_attempt (process_logger w n) (w_sender w) n"
  obtain r out where call: "?fn attempt (ws_out s) = (r, out)" by fastforce
  show ?case
  proof (cases "attempt < max_attempts ?cfg \<and> pe_wait e attempt = None \<and> (\<exists>err. r = Ret (Some err))")
    case True
    then obtain err where r: "r = Ret (Some err)" by blast
    let ?s1 = "s\<lparr>ws_out := out\<rparr>"
    have "nat (max_attempts ?cfg + 1 - (attempt + 1)) < nat (max_attempts ?cfg + 1 - attempt)"
      using True by simp
    from less.hyps [OF this, of "Some err" ?s1 "ds @ [backoff oor ?cfg attempt]"] obtain k where k:
        "k \<le> nat (max_attempts ?cfg + 1 - (attempt + 1)) + 1"
        "(worker_step R w e n ^^ k) (Sending (attempt + 1) (Some err), ?s1) =
           after_send (do_loop oor ?cfg ?fn (pe_wait e) (attempt + 1) (Some err) (ws_out ?s1)
             (ds @ [backoff oor ?cfg attempt])) ?s1"
      by blast
    have "worker_step R w e n (Sending attempt lastErr, s) = (Sending (attempt + 1) (Some err), ?s1)"
      using True call r by (simp add: Sending_unfold)
    then have "(worker_step R w e n ^^ Suc k) (Sending attempt lastErr, s) =
        after_send (do_loop oor ?cfg ?fn (pe_wait e) (attempt + 1) (Some err) out
          (ds @ [backoff oor ?cfg attempt])) ?s1"
      using k(2) by (simp add: funpow_swap1)
    also have "\<dots> = after_send (do_loop oor ?cfg ?fn (pe_wait e) attempt lastErr (ws_out s) ds) s"
      using True call r
      by (subst (2) do_loop.simps) (auto simp: after_send_def Let_def split: go.split prod.split)
    finally have run: "(worker_step R w e n ^^ Suc k) (Sending attempt lastErr, s) =
        after_send (do_loop oor ?cfg ?fn (pe_wait e) attempt lastErr (ws_out s) ds) s" .
    have "Suc k \<le> nat (max_attempts ?cfg + 1 - attempt) + 1" using k(1) True by arith
    with run show ?thesis by blast
  next
    case False
    have "(worker_step R w e n ^^ 1) (Sending attempt lastErr, s) =
        after_send (do_loop oor ?cfg ?fn (pe_wait e) attempt lastErr (ws_out s) ds) s"
      using False call
      by (subst do_loop.simps)
         (auto simp: Sending_unfold after_send_def Let_def split: go.splits option.splits)
    then show ?thesis by (intro exI [of _ 1]) simp
  qed
qed

text \<open>How many steps a call can take.\<close>

definition step_bound :: "worker \<Rightarrow> nat" where
  "step_bound w = nat (max_attempts (w_retry w)) + 4"

lemma after_send_settles:
  "\<exists>k \<le> 1. (worker_step R w e n ^^ k) (after_send x s) =
     (case fst x of
        Panicked p \<Rightarrow> (Done (Panicked p), s\<lparr>ws_out := fst (snd x)\<rparr>)
      | Ret (Some err) \<Rightarrow>
          (case mark_failed R w e n err (s\<lparr>ws_out := fst (snd x)\<rparr>) of (r, s') \<Rightarrow> (Done r, s'))
      | Ret None \<Rightarrow> (case mark_sent R w e n (s\<lparr>ws_out := fst (snd x)\<rparr>) of (r, s') \<Rightarrow> (Done r, s')))"
proof (cases "fst x")
  case (Panicked p)
  then show ?thesis by (intro exI [of _ 0]) (auto simp: after_send_def split: prod.split)
next
  case (Ret r)
  then show ?thesis
    by (intro exI [of _ 1]) (auto simp: after_send_def worker_step_def Let_def split: prod.split option.split)
qed

lemma process_run:
  "\<exists>k \<le> step_bound w. (worker_step R w e n ^^ k) (Checking, s) =
     (case process R w e n s of (r, s') \<Rightarrow> (Done r, s'))"
proof -
  let ?W = "worker_step R w e n" and ?log = "process_logger w n"
  let ?ins = "repo_insert R (pe_insert e) (pending_log w e n) (ws_db s)"
  consider (no) "repo_exists R (pe_exists e) (notif_id n) (ws_db s) \<noteq> Inr False"
    | (bad) err d1 where "repo_exists R (pe_exists e) (notif_id n) (ws_db s) = Inr False"
        "?ins = (Some err, d1)"
    | (go) d1 where "repo_exists R (pe_exists e) (notif_id n) (ws_db s) = Inr False" "?ins = (None, d1)"
    by (cases ?ins; cases "fst ?ins"; cases "repo_exists R (pe_exists e) (notif_id n) (ws_db s) = Inr False")
       auto
  then show ?thesis
  proof cases
    case no
    then have "?W (Checking, s) = (case process R w e n s of (r, s') \<Rightarrow> (Done r, s'))"
      by (auto simp: worker_step_def process_def Let_def split: sum.split)
    then show ?thesis by (intro exI [of _ 1]) (simp add: step_bound_def)
  next
    case bad
    then have "(?W ^^ 2) (Checking, s) = (case process R w e n s of (r, s') \<Rightarrow> (Done r, s'))"
      by (simp add: worker_step_def process_def Let_def numeral_2_eq_2)
    then show ?thesis by (intro exI [of _ 2]) (simp add: step_bound_def)
  next
    case go
    define s1 where "s1 = s\<lparr>ws_db := d1,
      ws_out := emit ?log LevelInfo ''delivery log persisted, attempting send'' [] (ws_out s)\<rparr>"
    let ?sent = "Do (pe_oor e) (w_retry w) (send_attempt ?log (w_sender w) n) (pe_wait e) (ws_out s1)"
    have start: "(?W ^^ 2) (Checking, s) = (Sending 1 None, s1)"
      using go by (simp add: worker_step_def Let_def numeral_2_eq_2 s1_def)
    obtain k where k: "k \<le> nat (max_attempts (w_retry w)) + 1"
        "(?W ^^ k) (Sending 1 None, s1) = after_send ?sent s1"
      using Sending_runs [of w 1 R e n None s1 "pe_oor e" "[]"] by (auto simp: Do_def)
    obtain j where j: "j \<le> 1" "(?W ^^ j) (after_send ?sent s1) =
       (case fst ?sent of
          Panicked p \<Rightarrow> (Done (Panicked p), s1\<lparr>ws_out := fst (snd ?sent)\<rparr>)
        | Ret (Some err) \<Rightarrow>
            (case mark_failed R w e n err (s1\<lparr>ws_out := fst (snd ?sent)\<rparr>) of (r, s') \<Rightarrow> (Done r, s'))
        | Ret None \<Rightarrow>
            (case mark_sent R w e n (s1\<lparr>ws_out := fst (snd ?sent)\<rparr>) of (r, s') \<Rightarrow> (Done r, s')))"
      using after_send_settles [of R w e n ?sent s1] by blast
    have proc: "process R w e n s =
       (case fst ?sent of
          Panicked p \<Rightarrow> (Panicked p, s1\<lparr>ws_out := fst (snd ?sent)\<rparr>)
        | Ret (Some err) \<Rightarrow> mark_failed R w e n err (s1\<lparr>ws_out := fst (snd ?sent)\<rparr>)
        | Ret None \<Rightarrow> mark_sent R w e n (s1\<lparr>ws_out := fst (snd ?sent)\<rparr>))"
    proof -
      obtain a b c where sent: "?sent = (a, b, c)" by (metis prod.exhaust)
      show ?thesis
        using go sent unfolding s1_def
        by (cases a) (simp_all add: process_def Let_def split: option.split)
    qed
    have "(?W ^^ (j + (k + 2))) (Checking, s) = (?W ^^ j) (after_send ?sent s1)"
      by (simp only: funpow_add comp_apply start k(2))
    also have "\<dots> = (case process R w e n s of (r, s') \<Rightarrow> (Done r, s'))"
      unfolding j(2) proc by (simp split: go.split option.split)
    finally show ?thesis
      using k(1) j(1) by (intro exI [of _ "j + (k + 2)"]) (simp add: step_bound_def)
  qed
qed

lemma process_run_end:
  "(worker_step R w e n ^^ (step_bound w + k)) (Checking, s) =
     (Done (fst (process R w e n s)), snd (process R w e n s))"
proof -
  obtain j where j: "j \<le> step_bound w"
      "(worker_step R w e n ^^ j) (Checking, s) = (Done (fst (process R w e n s)), snd (process R w e n s))"
    using process_run [of w R e n s] by (auto split: prod.splits)
  then show ?thesis using run_prefix [OF j(2), of "step_bound w + k"] by (simp add: Done_stays)
qed

subsection \<open>One step, inside the contract\<close>

text \<open>The phases before the message is handed over, and those with the delivery log written.\<close>

fun unsent :: "pc \<Rightarrow> bool" where
  "unsent (Settling r) = False"
| "unsent (Done r) = False"
| "unsent _ = True"

fun logged :: "pc \<Rightarrow> bool" where
  "logged (Sending attempt lastErr) = True"
| "logged (Settling r) = True"
| "logged _ = False"

context worker_contract
begin

lemma attempt_quiet: "receipts (snd (send_attempt lg S n k out)) =
    receipts out @ (if ready n \<and> \<not> crashes n then [line n] else [])"
  using receipts_send [of n "if 1 < k then emit lg LevelInfo ''retrying send'' [(''attempt'', show_int k)] out else out"]
  by (simp add: send_attempt_def receipts_emit receipt_msgs_def del: emit_NewLogger)

lemma attempt_result:
  "fst (send_attempt lg S n k out) = Ret None \<longleftrightarrow> ready n \<and> \<not> crashes n"
  by (simp add: send_attempt_def send_success_iff)

lemma step_cases:
  assumes "worker_step R w e n (pc, s) = (pc', s')"
  obtains (quiet) "ws_db s' = ws_db s" "receipts (ws_out s') = receipts (ws_out s)"
      "unsent pc' \<Longrightarrow> unsent pc" "logged pc' \<Longrightarrow> logged pc"
  | (insert) x where "pc = Persisting" "repo_insert R (pe_insert e) (pending_log w e n) (ws_db s) = (x, ws_db s')"
      "receipts (ws_out s') = receipts (ws_out s)" "x \<noteq> None \<Longrightarrow> \<not> logged pc'"
  | (send) a l where "pc = Sending a l" "pc' = Settling None" "ws_db s' = ws_db s" "ready n" "\<not> crashes n"
      "receipts (ws_out s') = receipts (ws_out s) @ [line n]"
  | (settle) r st msg x where "pc = Settling r" "pc' = Done x"
      "ws_db s' = snd (repo_update R (pe_update e) (pe_log_id e) st msg (ws_db s))"
      "receipts (ws_out s') = receipts (ws_out s)"
proof (cases pc)
  case Checking
  with assms show thesis
    by (intro quiet) (auto simp: worker_step_def Let_def simp del: emit_NewLogger split: sum.splits if_splits)
next
  case Persisting
  obtain x d1 where ins: "repo_insert R (pe_insert e) (pending_log w e n) (ws_db s) = (x, d1)" by fastforce
  with Persisting assms show thesis
    by (intro insert [of x])
       (auto simp: worker_step_def Let_def simp del: emit_NewLogger split: option.splits)
next
  case (Sending a l)
  obtain r out where call: "send_attempt (process_logger w n) S n a (ws_out s) = (r, out)" by fastforce
  have res: "r = Ret None \<longleftrightarrow> ready n \<and> \<not> crashes n"
    "receipts out = receipts (ws_out s) @ (if ready n \<and> \<not> crashes n then [line n] else [])"
    using attempt_result [of "process_logger w n" n a "ws_out s"]
      attempt_quiet [of "process_logger w n" n a "ws_out s"] call by simp_all
  show thesis
  proof (cases "a \<le> max_attempts (w_retry w) \<and> r = Ret None")
    case True
    with Sending assms call res show thesis
      by (intro send [of a l]) (auto simp: Sending_unfold Let_def its_sender simp del: attempts)
  next
    case False
    with Sending assms call res show thesis
      by (intro quiet)
         (auto simp: Sending_unfold Let_def its_sender simp del: attempts
          split: if_splits go.splits option.splits)
  qed
next
  case (Settling r)
  show thesis
  proof (cases r)
    case None
    with Settling assms show thesis
      by (intro settle [of r "Ret None" StatusSent "[]"])
         (auto simp: worker_step_def mark_sent_def Let_def simp del: emit_NewLogger
          split: prod.splits option.splits)
  next
    case (Some err)
    with Settling assms show thesis
      by (intro settle [of r "Ret (Some (Wrapf ''send failed after retries: '' err []))" StatusFailed
            "error_text err"])
         (auto simp: worker_step_def mark_failed_def Let_def simp del: emit_NewLogger
          split: prod.splits option.splits)
  qed
next
  case (Done r)
  with assms show thesis by (intro quiet) auto
qed

lemma step_good:
  assumes "good (ws_db s)" "worker_step R w e n (pc, s) = (pc', s')"
  shows "good (ws_db s')"
  using assms(2)
proof (cases rule: step_cases)
  case (insert x)
  then show ?thesis using good_insert [OF assms(1)] by (metis snd_conv)
qed (simp_all add: assms(1) good_update)

lemma step_log_kept:
  assumes "good (ws_db s)" "worker_step R w e n (pc, s) = (pc', s')" "l \<in> set (view (ws_db s))"
  shows "\<exists>l' \<in> set (view (ws_db s')).
    dlog_notification_id l' = dlog_notification_id l \<and> dlog_channel l' = dlog_channel l"
  using assms(2)
proof (cases rule: step_cases)
  case (insert x)
  then show ?thesis
    using insert_mono [OF assms(1), of "pe_insert e" "pending_log w e n"] assms(3) by auto
next
  case (settle r st msg x)
  then show ?thesis using update_log_kept [OF assms(1,3)] by simp
qed (use assms(3) in auto)

text \<open>Once the phase says so, the log is there.\<close>

lemma step_logs:
  assumes "good (ws_db s)" "worker_step R w e n (pc, s) = (pc', s')" "logged pc'" "\<not> logged pc"
  shows "\<exists>nid. key (notif_id n) = Some nid \<and>
    (\<exists>l \<in> set (view (ws_db s')). dlog_notification_id l = nid \<and> dlog_channel l = Channel S)"
  using assms(2)
proof (cases rule: step_cases)
  case (insert x)
  with assms(3) have ins: "repo_insert R (pe_insert e) (pending_log w e n) (ws_db s) = (None, ws_db s')"
    by (cases x) auto
  from insert_ok [OF assms(1) ins] show ?thesis by (auto simp: pending_log_def its_sender)
qed (use assms(3,4) in auto)

lemma step_receipts:
  assumes "worker_step R w e n (pc, s) = (pc', s')"
  shows "receipts (ws_out s') = receipts (ws_out s) \<and> (unsent pc' \<longrightarrow> unsent pc) \<or>
    receipts (ws_out s') = receipts (ws_out s) @ [line n] \<and> unsent pc \<and> logged pc \<and> \<not> unsent pc' \<and>
    logged pc'"
  using assms by (cases rule: step_cases) auto

end

subsection \<open>Refinement\<close>

text \<open>
  C17 (refinement).  The step machine implements \<open>process\<close>: run alone, it ends within three steps more
  than the attempts the retry configuration allows, plus one, in the result and the state that
  \<open>process\<close> gives, and stays there.
\<close>

theorem process_refined:
  "(worker_step R w e n ^^ (step_bound w + k)) (Checking, s) =
     (Done (fst (process R w e n s)), snd (process R w e n s))"
  by (rule process_run_end)

end
