(* ===== verification/System.thy ===== *)
theory System
  imports Requests Steps
begin

section \<open>The running system\<close>

text \<open>
  The API server, the broker and the worker process together.  Any number of requests are under way at
  a time, each a connection at one of the points of \<open>remote_step\<close>; their calls, the workers' calls and
  the failures of both processes interleave in any order.  The worker process runs the workers of
  \<^verbatim>\<open>cmd/worker/main.go\<close>, one per channel, each with its own consumer group; a group's offset is \<open>None\<close>
  until it first joins, and it then starts at the end of the topic (\<open>StartOffset: LastOffset\<close>).  The
  reader commits offsets every second, so a group may be set back (\<open>Rewind\<close>), after a crash or a
  rebalance; runs without this are the ones with \<open>again = False\<close>.
\<close>

record ('r, 'k) deployment =
  dp_libs :: "('r, 'k) libs"
  dp_handler :: "(cache_faults, database, 'r) handler"
  dp_ttl :: duration
  dp_advance :: "int \<Rightarrow> 'r \<Rightarrow> 'r"
  dp_topic :: "'k \<Rightarrow> message list"
  dp_complaint :: "string \<Rightarrow> string"
  dp_workers :: "channel \<Rightarrow> worker option"

record ('r, 'k) system =
  sy_srv :: "(database, 'r, 'k) server"
  sy_out :: stdout
  sy_metrics :: metrics
  sy_conns :: "nat \<Rightarrow> (cache_faults api_env \<times> request \<times> remote_pc) option"
  sy_replies :: "(request \<times> response) list"
  sy_offset :: "channel \<Rightarrow> nat option"
  sy_jobs :: "channel \<Rightarrow> (process_env \<times> notification \<times> pc) option"

abbreviation sy_db :: "('r, 'k) system \<Rightarrow> database" where
  "sy_db \<sigma> \<equiv> srv_db (sy_srv \<sigma>)"

text \<open>The workers that \<open>run\<close> of \<^verbatim>\<open>cmd/worker/main.go\<close> starts.\<close>

definition start_workers :: "(string \<Rightarrow> string) \<Rightarrow> kafka_config \<Rightarrow> channel \<Rightarrow> worker option" where
  "start_workers quote cfg ch =
     (case senders NewLogger ch of
        None \<Rightarrow> None
      | Some S \<Rightarrow>
          (case NewConsumer quote cfg ch of
             Inl err \<Rightarrow> None
           | Inr c \<Rightarrow> Some (worker_New c S NewLogger)))"

text \<open>What a worker's group reads: the messages of its topic.\<close>

definition queue :: "('r, 'k) deployment \<Rightarrow> worker \<Rightarrow> ('r, 'k) system \<Rightarrow> message list" where
  "queue D w \<sigma> =
     filter (\<lambda>m. msg_topic m = rc_topic (cons_reader (w_consumer w))) (dp_topic D (srv_broker (sy_srv \<sigma>)))"

definition worker_view :: "('r, 'k) system \<Rightarrow> database worker_state" where
  "worker_view \<sigma> = \<lparr>ws_db = sy_db \<sigma>, ws_out = sy_out \<sigma>, ws_metrics = sy_metrics \<sigma>\<rparr>"

definition put_worker :: "database worker_state \<Rightarrow> ('r, 'k) system \<Rightarrow> ('r, 'k) system" where
  "put_worker s \<sigma> =
     \<sigma>\<lparr>sy_srv := (sy_srv \<sigma>)\<lparr>srv_db := ws_db s\<rparr>, sy_out := ws_out s, sy_metrics := ws_metrics s\<rparr>"

definition crashed :: "('r, 'k) system \<Rightarrow> bool" where
  "crashed \<sigma> \<longleftrightarrow> (\<exists>ch e n p. sy_jobs \<sigma> ch = Some (e, n, Done (Panicked p)))"

text \<open>The loop's line when a message could not be read or processed.\<close>

definition complain :: "worker \<Rightarrow> string \<Rightarrow> attrs \<Rightarrow> ('r, 'k) system \<Rightarrow> ('r, 'k) system" where
  "complain w msg as \<sigma> = \<sigma>\<lparr>sy_out := emit (w_logger w) LevelError msg as (sy_out \<sigma>)\<rparr>"

inductive sys_step ::
    "('r, 'k) deployment \<Rightarrow> bool \<Rightarrow> ('r, 'k) system \<Rightarrow> ('r, 'k) system \<Rightarrow> bool" for D again where
  Arrive: "sy_conns \<sigma> c = None \<Longrightarrow> \<not> no_rows_fault (db_fault (ae_prefs e)) \<Longrightarrow>
    sys_step D again \<sigma> (\<sigma>\<lparr>sy_conns := (sy_conns \<sigma>)(c \<mapsto> (e, req, At Arrived))\<rparr>)"
| Serve: "sy_conns \<sigma> c = Some (e, req, pc) \<Longrightarrow>
    remote_step (dp_libs D) (dp_ttl D) (dp_handler D) e req fresh_response (pc, sy_srv \<sigma>) = (pc', srv) \<Longrightarrow>
    sys_step D again \<sigma> (\<sigma>\<lparr>sy_srv := srv, sy_conns := (sy_conns \<sigma>)(c \<mapsto> (e, req, pc'))\<rparr>)"
| Reply: "sy_conns \<sigma> c = Some (e, req, At (Replied rsp)) \<Longrightarrow>
    sys_step D again \<sigma>
      (\<sigma>\<lparr>sy_conns := (sy_conns \<sigma>)(c := None), sy_replies := sy_replies \<sigma> @ [(req, rsp)]\<rparr>)"
| Outage: "sys_step D again \<sigma> (\<sigma>\<lparr>sy_conns := \<lambda>_. None\<rparr>)"
| Tick: "sys_step D again \<sigma>
    (\<sigma>\<lparr>sy_srv := (sy_srv \<sigma>)\<lparr>srv_redis := dp_advance D dt (srv_redis (sy_srv \<sigma>))\<rparr>\<rparr>)"
| Join: "dp_workers D ch = Some w \<Longrightarrow> sy_offset \<sigma> ch = None \<Longrightarrow>
    sys_step D again \<sigma> (\<sigma>\<lparr>sy_offset := (sy_offset \<sigma>)(ch \<mapsto> length (queue D w \<sigma>))\<rparr>)"
| Take: "dp_workers D ch = Some w \<Longrightarrow> sy_jobs \<sigma> ch = None \<Longrightarrow> \<not> crashed \<sigma> \<Longrightarrow>
    sy_offset \<sigma> ch = Some i \<Longrightarrow> i < length (queue D w \<sigma>) \<Longrightarrow>
    ReadOne (dp_complaint D) (w_consumer w) (Inr (msg_value (queue D w \<sigma> ! i), int i)) = Inr n \<Longrightarrow>
    sys_step D again \<sigma> (\<sigma>\<lparr>sy_offset := (sy_offset \<sigma>)(ch \<mapsto> Suc i),
                          sy_jobs := (sy_jobs \<sigma>)(ch \<mapsto> (e, n, Checking))\<rparr>)"
| Unreadable: "dp_workers D ch = Some w \<Longrightarrow> sy_jobs \<sigma> ch = None \<Longrightarrow> \<not> crashed \<sigma> \<Longrightarrow>
    sy_offset \<sigma> ch = Some i \<Longrightarrow> i < length (queue D w \<sigma>) \<Longrightarrow>
    ReadOne (dp_complaint D) (w_consumer w) (Inr (msg_value (queue D w \<sigma> ! i), int i)) = Inl err \<Longrightarrow>
    sys_step D again \<sigma> (complain w ''failed to read from kafka'' [(''error'', error_text err)]
      (\<sigma>\<lparr>sy_offset := (sy_offset \<sigma>)(ch \<mapsto> Suc i)\<rparr>))"
| Work: "dp_workers D ch = Some w \<Longrightarrow> sy_jobs \<sigma> ch = Some (e, n, pc) \<Longrightarrow> \<not> crashed \<sigma> \<Longrightarrow>
    worker_step store_log_repo w e n (pc, worker_view \<sigma>) = (pc', s) \<Longrightarrow>
    sys_step D again \<sigma> (put_worker s (\<sigma>\<lparr>sy_jobs := (sy_jobs \<sigma>)(ch \<mapsto> (e, n, pc'))\<rparr>))"
| Finish: "dp_workers D ch = Some w \<Longrightarrow> sy_jobs \<sigma> ch = Some (e, n, Done (Ret None)) \<Longrightarrow> \<not> crashed \<sigma> \<Longrightarrow>
    sys_step D again \<sigma> (\<sigma>\<lparr>sy_jobs := (sy_jobs \<sigma>)(ch := None)\<rparr>)"
| Fail: "dp_workers D ch = Some w \<Longrightarrow> sy_jobs \<sigma> ch = Some (e, n, Done (Ret (Some err))) \<Longrightarrow>
    \<not> crashed \<sigma> \<Longrightarrow>
    sys_step D again \<sigma>
      (complain w ''failed to process notification''
        [(''notification_id'', notif_id n), (''error'', error_text err)]
        (\<sigma>\<lparr>sy_jobs := (sy_jobs \<sigma>)(ch := None)\<rparr>))"
| Crash: "sys_step D again \<sigma> (\<sigma>\<lparr>sy_jobs := \<lambda>_. None\<rparr>)"
| Rewind: "again \<Longrightarrow> sy_offset \<sigma> ch = Some i \<Longrightarrow> k \<le> i \<Longrightarrow>
    sys_step D again \<sigma> (\<sigma>\<lparr>sy_offset := (sy_offset \<sigma>)(ch \<mapsto> k)\<rparr>)"

text \<open>
  Nothing published, nothing sent, no worker busy, no request under way or answered, every stored
  notification pending.
\<close>

definition initial :: "('r, 'k) deployment \<Rightarrow> ('r \<Rightarrow> string \<rightharpoonup> string entry) \<Rightarrow> ('r, 'k) system \<Rightarrow> bool" where
  "initial D entry \<sigma> \<longleftrightarrow>
     store_ok (sy_db \<sigma>) \<and> coherent (sy_db \<sigma>) (entry (srv_redis (sy_srv \<sigma>))) \<and>
     dp_topic D (srv_broker (sy_srv \<sigma>)) = [] \<and> receipts (sy_out \<sigma>) = [] \<and> sy_jobs \<sigma> = (\<lambda>_. None) \<and>
     sy_conns \<sigma> = (\<lambda>_. None) \<and> sy_replies \<sigma> = [] \<and>
     (\<forall>n \<in> set (notifs (sy_db \<sigma>)). notif_status n = StatusPending)"

inductive reachable ::
    "('r, 'k) deployment \<Rightarrow> ('r \<Rightarrow> string \<rightharpoonup> string entry) \<Rightarrow> bool \<Rightarrow> ('r, 'k) system \<Rightarrow> bool"
  for D entry again where
  Start: "initial D entry \<sigma> \<Longrightarrow> reachable D entry again \<sigma>"
| Next: "reachable D entry again \<sigma> \<Longrightarrow> sys_step D again \<sigma> \<sigma>' \<Longrightarrow> reachable D entry again \<sigma>'"

lemma view_simps [simp]:
  "ws_db (worker_view \<sigma>) = sy_db \<sigma>" "ws_out (worker_view \<sigma>) = sy_out \<sigma>"
  "ws_metrics (worker_view \<sigma>) = sy_metrics \<sigma>"
  "sy_db (put_worker s \<sigma>) = ws_db s" "sy_out (put_worker s \<sigma>) = ws_out s"
  "sy_offset (put_worker s \<sigma>) = sy_offset \<sigma>" "sy_jobs (put_worker s \<sigma>) = sy_jobs \<sigma>"
  "srv_broker (sy_srv (put_worker s \<sigma>)) = srv_broker (sy_srv \<sigma>)"
  "srv_redis (sy_srv (put_worker s \<sigma>)) = srv_redis (sy_srv \<sigma>)"
  "sy_srv (complain w msg as \<sigma>) = sy_srv \<sigma>" "sy_offset (complain w msg as \<sigma>) = sy_offset \<sigma>"
  "sy_jobs (complain w msg as \<sigma>) = sy_jobs \<sigma>"
  "sy_conns (put_worker s \<sigma>) = sy_conns \<sigma>" "sy_conns (complain w msg as \<sigma>) = sy_conns \<sigma>"
  "sy_replies (put_worker s \<sigma>) = sy_replies \<sigma>" "sy_replies (complain w msg as \<sigma>) = sy_replies \<sigma>"
  by (simp_all add: worker_view_def put_worker_def complain_def)

subsection \<open>What is counted\<close>

definition msg_id :: "message \<Rightarrow> string option" where
  "msg_id m = Option.bind (unmarshal_notification (msg_value m)) (\<lambda>n. uuid_in (notif_id n))"

definition topic_ids :: "('r, 'k) deployment \<Rightarrow> ('r, 'k) system \<Rightarrow> string option list" where
  "topic_ids D \<sigma> = map msg_id (dp_topic D (srv_broker (sy_srv \<sigma>)))"

definition receipt_msg :: "channel \<Rightarrow> string" where
  "receipt_msg ch =
     (if ch = ChannelIOS then ''apns: sent push notification''
      else if ch = ChannelAndroid then ''fcm: sent push notification''
      else if ch = ChannelSMS then ''sms: sent SMS'' else ''email: sent email'')"

text \<open>How often the worker process printed that it handed over notification \<open>k\<close> on channel \<open>ch\<close>.\<close>

definition sends_on :: "channel \<Rightarrow> string \<Rightarrow> stdout \<Rightarrow> nat" where
  "sends_on ch k out = delivered uuid_in (filter (\<lambda>l. line_msg l = receipt_msg ch) (receipts out)) k"

definition covered :: "database \<Rightarrow> channel \<Rightarrow> string \<Rightarrow> bool" where
  "covered db ch k \<longleftrightarrow> (\<exists>l \<in> set (logs db). dlog_notification_id l = k \<and> dlog_channel l = ch)"

text \<open>One write per notification: its copies are one message, at most as many as the writer has attempts.\<close>

definition written_once :: "message list \<Rightarrow> bool" where
  "written_once ms \<longleftrightarrow>
     (\<forall>x. count_list (map msg_id ms) x \<le> 10) \<and>
     (\<forall>m \<in> set ms. \<forall>m' \<in> set ms. msg_id m = msg_id m' \<longrightarrow> m = m')"

lemma count_list_replicate: "count_list (replicate j y) x = (if x = y then j else 0)"
  by (induction j) auto

lemma written_once_append:
  assumes "written_once ms" "j \<le> 10" "0 < j \<longrightarrow> msg_id m \<notin> msg_id ` set ms"
  shows "written_once (ms @ replicate j m)"
proof -
  have "count_list (map msg_id (ms @ replicate j m)) x \<le> 10" for x
  proof (cases "x = msg_id m \<and> 0 < j")
    case True
    then have "count_list (map msg_id ms) x = 0" using assms(3) by (simp add: count_list_0_iff)
    with True assms(2) show ?thesis by (simp add: map_replicate count_list_replicate)
  next
    case False
    with assms(1) show ?thesis by (auto simp: written_once_def map_replicate count_list_replicate)
  qed
  moreover have "a = b" if "a \<in> set (ms @ replicate j m)" "b \<in> set (ms @ replicate j m)" "msg_id a = msg_id b" for a b
  proof (cases "a \<in> set ms \<and> b \<in> set ms")
    case True
    with assms(1) that(3) show ?thesis unfolding written_once_def by blast
  next
    case False
    then have "0 < j" using that(1,2) by auto
    then have new: "msg_id m \<notin> msg_id ` set ms" and rest: "set (replicate j m) = {m}" using assms(3) by auto
    have "a \<in> set ms \<or> a = m" "b \<in> set ms \<or> b = m" using that(1,2) rest by auto
    with False new that(3) show ?thesis by (metis imageI)
  qed
  ultimately show ?thesis unfolding written_once_def by blast
qed

lemma receipt_line [simp]: "line_msg (receipt ch n) = receipt_msg ch"
  by (simp add: receipt_def receipt_msg_def info_line_def)

lemma receipt_id: "map_of (line_attrs (receipt ch n)) ''notification_id'' = Some (notif_id n)"
  by (simp add: receipt_def info_line_def)

lemma receipt_msg_inj:
  "ch \<in> set all_channels \<Longrightarrow> ch' \<in> set all_channels \<Longrightarrow> receipt_msg ch = receipt_msg ch' \<longleftrightarrow> ch = ch'"
  by (auto simp: all_channels_def receipt_msg_def channel_defs)

lemma sends_on_quiet: "receipts out' = receipts out \<Longrightarrow> sends_on ch k out' = sends_on ch k out"
  by (simp add: sends_on_def)

lemma sends_on_receipt:
  assumes "receipts out' = receipts out @ [receipt c n]" "c \<in> set all_channels" "ch \<in> set all_channels"
  shows "sends_on ch k out' = sends_on ch k out +
    (if c = ch \<and> uuid_in (notif_id n) = Some k then 1 else 0)"
  using receipt_msg_inj [OF assms(2,3)]
  by (simp add: sends_on_def assms(1) delivered_def receipt_id)

lemma complain_quiet [simp]:
  "receipts (sy_out (complain w ''failed to read from kafka'' as \<sigma>)) = receipts (sy_out \<sigma>)"
  "receipts (sy_out (complain w ''failed to process notification'' as \<sigma>)) = receipts (sy_out \<sigma>)"
  by (simp_all add: complain_def receipts_emit receipt_msgs_def del: emit_NewLogger)

subsection \<open>What one step does to the shared state\<close>

text \<open>
  A deployment: the handler of \<^verbatim>\<open>cmd/server/main.go\<close> on a Redis and a broker with the documented
  behaviour, and workers built as \<^verbatim>\<open>cmd/worker/main.go\<close> builds them.
\<close>

locale deployed =
  user_cache_server R entry clock advance ttl + kafka_writer put topic_log
  for R :: "('r, string) redis_ops" and entry clock advance ttl
    and put :: "message \<Rightarrow> 'k \<Rightarrow> error \<times> 'k" and topic_log +
  fixes D :: "('r, 'k) deployment" and p :: producer and l :: limiter and lg :: logger
  assumes libs: "lib_redis (dp_libs D) = R" "lib_put (dp_libs D) = put" "\<bar>lib_tz (dp_libs D)\<bar> < 1440"
    and its_handler: "dp_handler D = server_handler R ttl p l lg" "dp_ttl D = ttl"
    and its_time: "dp_advance D = advance" and its_topic: "dp_topic D = topic_log"
    and its_workers: "dp_workers D ch = Some w \<Longrightarrow>
      \<exists>c S. senders NewLogger ch = Some S \<and> w = worker_New c S NewLogger"

sublocale deployed \<subseteq> api: api_contract "NewUserCache R ttl"
  "\<lambda>db r. store_ok db \<and> coherent db (entry r)" "\<lambda>db i. FindUserByID NoFault i db"
  "\<lambda>db i. FindPreferences NoFault i db" no_cache_fault "\<lambda>f. \<not> no_rows_fault (db_fault f)"
  store_notif_repo store_ok notifs user_ids uuid_in put topic_log "dp_libs D" "dp_handler D"
  unfolding its_handler(1) by (rule api_wired [OF user_cache_server_axioms kafka_writer_axioms libs(1,2)])

text \<open>The two writes of a worker leave the rows of the notifications alone.\<close>

lemma log_writes_rows:
  assumes "store_ok db"
  shows "rows_of (snd (Insert f l db)) ''notifications'' = rows_of db ''notifications''"
    "rows_of (snd (UpdateDeliveryStatus f i st msg db)) ''notifications'' = rows_of db ''notifications''"
proof -
  have keep: "rows_of (set_rows ''delivery_logs'' rs db) ''notifications'' = rows_of db ''notifications''" for rs
    using store_ok_tables [OF assms] by (simp add: rows_of_set_rows)
  obtain r db' where eq: "Insert f l db = (r, db')" by fastforce
  have "(\<exists>t cs es. Insert_query = InsertInto t cs es) \<or> (\<exists>t ss cs. Insert_query = UpdateSet t ss cs)"
    by (simp add: Insert_query_def)
  from faulty_exec_cases [OF this eq [unfolded Insert_args]]
  have "db' = db \<or> exec_stmt (dlog_args l) Insert_query db = (None, db')" by blast
  then have "rows_of db' ''notifications'' = rows_of db ''notifications''"
    unfolding exec_Insert_iff [OF assms] using keep by auto
  with eq show "rows_of (snd (Insert f l db)) ''notifications'' = rows_of db ''notifications''" by simp
  obtain r db' where eq: "UpdateDeliveryStatus f i st msg db = (r, db')" by fastforce
  have "(\<exists>t cs es. UpdateDeliveryStatus_query = InsertInto t cs es) \<or>
      (\<exists>t ss cs. UpdateDeliveryStatus_query = UpdateSet t ss cs)"
    by (simp add: UpdateDeliveryStatus_query_def)
  from faulty_exec_cases [OF this eq [unfolded UpdateDeliveryStatus_def]]
  have "db' = db \<or> exec_stmt [SText st, SText msg, SText i] UpdateDeliveryStatus_query db = (None, db')" by blast
  then have "rows_of db' ''notifications'' = rows_of db ''notifications''"
    unfolding exec_UpdateDelivery_iff [OF assms] using keep by auto
  with eq show "rows_of (snd (UpdateDeliveryStatus f i st msg db)) ''notifications'' =
      rows_of db ''notifications''" by simp
qed

lemma FindByID_same:
  assumes "store_ok db" "store_ok db'" "rows_of db' ''notifications'' = rows_of db ''notifications''"
  shows "FindByID NoFault i db' = FindByID NoFault i db"
  unfolding FindByID_eq [OF assms(1)] FindByID_eq [OF assms(2)] note_row_def assms(3) ..

context deployed
begin

lemma wired_worker:
  assumes "dp_workers D ch = Some w"
  obtains S where "senders NewLogger ch = Some S" "Channel S = ch" "ch \<in> set all_channels"
    "worker_contract store_log_repo store_ok logs stored_in uuid_in S
       (\<lambda>n. recipient ch n \<noteq> []) (token_panics ch) (failure ch) (receipt ch) w"
proof -
  obtain c S where S: "senders NewLogger ch = Some S" "w = worker_New c S NewLogger"
    using its_workers [OF assms] by blast
  have "ch \<in> set all_channels" using S(1) senders_dom by blast
  with S senders_Channel [OF S(1)] worker_wired [OF S(1), of c] show thesis by (intro that) simp_all
qed

text \<open>What a request carries along is right: decoded from its body, or what the database gives out.\<close>

definition carried :: "database \<Rightarrow> request \<Rightarrow> remote_pc \<Rightarrow> bool" where
  "carried db req pc \<longleftrightarrow>
     (case pc of
        At q \<Rightarrow> api.vetted req q
      | Limiting r a \<Rightarrow> check_request req fresh_response = Inr r \<and> a = Expiring 1
      | Looking r q \<Rightarrow>
          decode_send_request (rq_body req) = Some r \<and> sure (FindUserByID NoFault (sr_user_id r) db) q
      | Preferring r u q \<Rightarrow>
          decode_send_request (rq_body req) = Some r \<and> api.found_user r u \<and>
          sure (FindPreferences NoFault (sr_user_id r) db) q)"

lemma carried_simps [simp]:
  "carried db req (At q) \<longleftrightarrow> api.vetted req q"
  "carried db req (Limiting r a) \<longleftrightarrow> check_request req fresh_response = Inr r \<and> a = Expiring 1"
  "carried db req (Looking r q') \<longleftrightarrow>
     decode_send_request (rq_body req) = Some r \<and> sure (FindUserByID NoFault (sr_user_id r) db) q'"
  "carried db req (Preferring r u q'') \<longleftrightarrow>
     decode_send_request (rq_body req) = Some r \<and> api.found_user r u \<and>
     sure (FindPreferences NoFault (sr_user_id r) db) q''"
  "api.vetted req Arrived" "api.vetted req (Replied x)"
  "api.vetted req (Finding r) \<longleftrightarrow> decode_send_request (rq_body req) = Some r"
  "api.vetted req (Choosing r u) \<longleftrightarrow> decode_send_request (rq_body req) = Some r \<and> api.found_user r u"
  "api.vetted req (Saving r u) \<longleftrightarrow> decode_send_request (rq_body req) = Some r \<and> api.found_user r u"
  "api.vetted req (Publishing r u) \<longleftrightarrow> decode_send_request (rq_body req) = Some r \<and> api.found_user r u"
  by (simp_all add: carried_def api.vetted_def)

lemma carried_same:
  assumes "store_ok db" "store_ok db'" "same_people db db'"
  shows "carried db' req pc = carried db req pc"
  using same_people_lookups [OF assms] by (simp add: carried_def split: remote_pc.split)

lemma found_userI:
  "store_ok db \<Longrightarrow> coherent db (entry k) \<Longrightarrow> FindUserByID NoFault (sr_user_id r) db = Inr u \<Longrightarrow>
   api.found_user r u"
  unfolding api.found_user_def by blast

text \<open>A call of the limiter or of the cache changes Redis alone.\<close>

lemma limit_effect:
  assumes "coherent (srv_db s) (entry (srv_redis s))" "a = Counting \<or> a = Expiring 1"
    and "limit_step (dp_libs D) (dp_handler D) e rsp r a s = (pc', s')"
  shows "srv_db s' = srv_db s \<and> srv_broker s' = srv_broker s \<and>
    coherent (srv_db s) (entry (srv_redis s')) \<and>
    (pc' = Limiting r (Expiring 1) \<or> pc' = At (Finding r) \<or>
     pc' = At (Replied (writeError ''rate limit exceeded for this channel'' ''RATE_LIMITED'' 429 rsp)))"
  using assms(3,2)
proof (cases rule: limit_step_cases)
  case (first r1)
  have "entry r1 k = entry (srv_redis s) k" if "k \<noteq> rate_key (sr_user_id r) (sr_channel r)" for k
    using incr_frame [OF that] first(4) libs(1) by (metis snd_conv)
  then have "coherent (srv_db s) (entry r1)"
    by (intro coherent_other [OF assms(1)]) (simp_all add: rate_key_other)
  with first show ?thesis by simp
next
  case (decided ans)
  have "entry (srv_redis s') k = entry (srv_redis s) k" if "k \<noteq> rate_key (sr_user_id r) (sr_channel r)" for k
    using allow_step_frame(1) [OF _ that] decided(4) libs(1) by metis
  then have "coherent (srv_db s) (entry (srv_redis s'))"
    by (intro coherent_other [OF assms(1)]) (simp_all add: rate_key_other)
  with decided after_allow_pc(1) show ?thesis by fastforce
qed

fun late :: "remote_pc \<Rightarrow> bool" where
  "late (At (Saving r u)) = True"
| "late (At (Publishing r u)) = True"
| "late pc = False"

lemma lateE: "late pc \<Longrightarrow> \<exists>q. pc = At q \<and> ((\<exists>r u. q = Saving r u) \<or> (\<exists>r u. q = Publishing r u))"
  by (cases pc rule: late.cases) auto

lemma serve_early:
  assumes ok: "store_ok (srv_db s)" and coh: "coherent (srv_db s) (entry (srv_redis s))"
    and sane: "\<not> no_rows_fault (db_fault (ae_prefs e))" and vet: "carried (srv_db s) req pc"
    and run: "remote_step (dp_libs D) (dp_ttl D) (dp_handler D) e req fresh_response (pc, s) = (pc', s')"
    and early: "\<not> late pc"
  shows "srv_db s' = srv_db s \<and> srv_broker s' = srv_broker s \<and>
    coherent (srv_db s') (entry (srv_redis s')) \<and> carried (srv_db s') req pc' \<and> \<not> owning pc'"
proof -
  have limit: ?thesis if "limit_step (dp_libs D) (dp_handler D) e fresh_response r a s = (pc', s')"
      "a = Counting \<or> a = Expiring 1" "check_request req fresh_response = Inr r" for r a
    using limit_effect [OF coh that(2,1)] that(3) check_request_decodes [OF that(3)] by auto
  have look: ?thesis if "lookup_step (dp_libs D) ttl (dp_handler D) e fresh_response r q s = (pc', s')"
      "sure (FindUserByID NoFault (sr_user_id r) (srv_db s)) q" "decode_send_request (rq_body req) = Some r"
    for r q
    using libs(1) ok coh that(2,1)
    by (cases rule: lookup_step_cases) (use that(3) found_userI [OF ok coh] in auto)
  have choose: ?thesis if "prefer_step (dp_libs D) ttl (dp_handler D) e fresh_response r u q s = (pc', s')"
      "sure (FindPreferences NoFault (sr_user_id r) (srv_db s)) q"
      "decode_send_request (rq_body req) = Some r" "api.found_user r u" for r u q
  proof -
    have fresh: "rsp_sent fresh_response = None" by simp
    from libs(1) ok coh that(2) sane fresh that(1) show ?thesis
      by (cases rule: prefer_step_cases) (use that(3,4) in auto)
  qed
  note run = run [unfolded its_handler(2)]
  show ?thesis
  proof (cases pc)
    case (At q)
    show ?thesis
    proof (cases q)
      case Arrived
      show ?thesis
      proof (cases "check_request req fresh_response")
        case (Inl x)
        with At Arrived run coh show ?thesis by (auto simp: remote_simps)
      next
        case (Inr r)
        with At Arrived run show ?thesis
          by (intro limit [of r Counting]) (simp_all add: remote_simps)
      qed
    next
      case (Finding r)
      with At run vet show ?thesis by (intro look [of r Getting]) (simp_all add: remote_simps)
    next
      case (Choosing r u)
      with At run vet show ?thesis by (intro choose [of r u Getting]) (simp_all add: remote_simps)
    qed (use At run coh early in \<open>auto simp: remote_simps\<close>)
  next
    case (Limiting r a)
    with run vet show ?thesis by (intro limit [of r a]) (simp_all add: remote_simps)
  next
    case (Looking r q)
    with run vet show ?thesis by (intro look [of r q]) (simp_all add: remote_simps)
  next
    case (Preferring r u q)
    with run vet show ?thesis by (intro choose [of r u q]) (simp_all add: remote_simps)
  qed
qed

text \<open>
  A call of a request leaves the delivery logs alone; it stores a notification, pending and new, and
  goes on to publish it, or it publishes the one it stored, in as many copies as the writer's attempts
  left, or it changes neither.
\<close>

lemma serve_cases:
  assumes ok: "store_ok (srv_db s)" and coh: "coherent (srv_db s) (entry (srv_redis s))"
    and sane: "\<not> no_rows_fault (db_fault (ae_prefs e))" and vet: "carried (srv_db s) req pc"
    and run: "remote_step (dp_libs D) (dp_ttl D) (dp_handler D) e req fresh_response (pc, s) = (pc', s')"
    and owns: "owning pc \<longrightarrow> uuid_in (ae_id e) \<noteq> None"
  obtains (quiet) "notifs (srv_db s') = notifs (srv_db s)"
      "topic_log (srv_broker s') = topic_log (srv_broker s)" "\<not> owning pc'"
  | (stored) n i u where "uuid_in (ae_id e) = Some i" "i \<notin> notif_id ` set (notifs (srv_db s))"
      "notif_status n = StatusPending"
      "notifs (srv_db s') = notifs (srv_db s) @ [stored_notif i u n]"
      "topic_log (srv_broker s') = topic_log (srv_broker s)"
  | (queued) j m where "owning pc" "notifs (srv_db s') = notifs (srv_db s)"
      "topic_log (srv_broker s') = topic_log (srv_broker s) @ replicate j m" "j \<le> 10"
      "0 < j \<longrightarrow> msg_id m = uuid_in (ae_id e)" "\<not> owning pc'"
proof (cases "late pc")
  case False
  with serve_early [OF ok coh sane vet run] show thesis by (intro quiet) auto
next
  case True
  then obtain q where q: "pc = At q" "(\<exists>r u. q = Saving r u) \<or> (\<exists>r u. q = Publishing r u)"
    using lateE by blast
  then obtain q' where q': "pc' = At q'"
      "request_step (dp_libs D) (dp_handler D) e req fresh_response (q, s) = (q', s')"
    using run by (auto simp: remote_simps at_def split: prod.splits)
  have vet: "api.vetted req q" using vet q(1) by simp
  from q'(2) show thesis
  proof (cases rule: api.request_step_cases)
    case early
    with q'(1) show thesis by (intro quiet) simp_all
  next
    case (save r u x)
    let ?n = "new_notification e r u"
    have n: "notif_id ?n = ae_id e" "notif_status ?n = StatusPending"
      by (simp_all add: new_notification_def)
    show thesis
    proof (cases "notifs (srv_db s') = notifs (srv_db s)")
      case True
      have "x \<noteq> None"
      proof
        assume "x = None"
        with save(4) have "nrepo_save store_notif_repo (ae_save e) ?n (srv_db s) = (None, srv_db s')" by simp
        from store_notifs.save_ok [OF ok this] True show False by auto
      qed
      with True save q'(1) show thesis by (intro quiet) simp_all
    next
      case False
      then obtain i v where "uuid_in (notif_id ?n) = Some i" "i \<notin> notif_id ` set (notifs (srv_db s))"
          "notifs (srv_db s') = notifs (srv_db s) @ [stored_notif i v ?n]"
        using store_notifs.save_view [OF ok, of "ae_save e" ?n] save(4) by auto
      with n save show thesis by (intro stored [of i ?n v]) simp_all
    qed
  next
    case (publish r u x)
    let ?n = "new_notification e r u"
    obtain i where i: "uuid_in (ae_id e) = Some i" using owns publish(1) q(1) by auto
    have r: "decode_send_request (rq_body req) = Some r" and "api.found_user r u"
      using vet publish(1) by simp_all
    then have "user_utf8 u" using FindUserByID_user unfolding api.found_user_def by blast
    from published_message [OF kafka_writer_axioms new_notification_utf8 [OF r this i] libs(3)] publish(4)
    obtain j m where m: "j \<le> 10" "topic_log (srv_broker s') = topic_log (srv_broker s) @ replicate j m"
        "0 < j \<longrightarrow> (\<forall>complaint c off. ReadOne complaint c (Inr (msg_value m, off)) = Inr ?n)"
      by (metis snd_conv)
    have "msg_id m = uuid_in (ae_id e)" if "0 < j"
    proof -
      have "unmarshal_notification (msg_value m) = Some ?n"
        using m(3) that by (auto simp: ReadOne_def split: option.splits)
      then show ?thesis by (simp add: msg_id_def new_notification_def)
    qed
    with m publish q(1) q'(1) show thesis by (intro queued [of j m]) simp_all
  qed
qed

lemma serve_frame:
  assumes ok: "store_ok (srv_db s)" and coh: "coherent (srv_db s) (entry (srv_redis s))"
    and sane: "\<not> no_rows_fault (db_fault (ae_prefs e))" and vet: "carried (srv_db s) req pc"
    and run: "remote_step (dp_libs D) (dp_ttl D) (dp_handler D) e req fresh_response (pc, s) = (pc', s')"
  shows "store_ok (srv_db s')" "coherent (srv_db s') (entry (srv_redis s'))"
    "logs (srv_db s') = logs (srv_db s)" "same_people (srv_db s) (srv_db s')" "carried (srv_db s') req pc'"
proof -
  have "store_ok (srv_db s') \<and> coherent (srv_db s') (entry (srv_redis s')) \<and>
    logs (srv_db s') = logs (srv_db s) \<and> same_people (srv_db s) (srv_db s') \<and> carried (srv_db s') req pc'"
  proof (cases "late pc")
    case False
    with serve_early [OF ok coh sane vet run] ok show ?thesis by (auto simp: same_people_def)
  next
    case True
    then obtain q where q: "pc = At q" "(\<exists>r u. q = Saving r u) \<or> (\<exists>r u. q = Publishing r u)"
    using lateE by blast
    then obtain q' where q': "pc' = At q'"
        "request_step (dp_libs D) (dp_handler D) e req fresh_response (q, s) = (q', s')"
      using run by (auto simp: remote_simps at_def split: prod.splits)
    have U: "store_ok (srv_db s) \<and> coherent (srv_db s) (entry (srv_redis s))" using ok coh by simp
    have vet: "api.vetted req q" using vet q(1) by simp
    have "logs (srv_db s') = logs (srv_db s) \<and> same_people (srv_db s) (srv_db s')"
      using q'(2)
    proof (cases rule: api.request_step_cases)
      case (save r u x)
      then show ?thesis
        using Save_frame(1) [OF ok, of "ae_save e" "new_notification e r u"]
          same_people_writes(1) [OF ok, of "ae_save e" "new_notification e r u"]
        by (simp add: store_notif_repo_def)
    qed (simp_all add: same_people_def)
    with api.request_step_good [OF ok U sane q'(2)] api.request_step_vetted [OF ok U vet q'(2)] q'(1)
    show ?thesis by simp
  qed
  then show "store_ok (srv_db s')" "coherent (srv_db s') (entry (srv_redis s'))"
    "logs (srv_db s') = logs (srv_db s)" "same_people (srv_db s) (srv_db s')" "carried (srv_db s') req pc'"
    by simp_all
qed

text \<open>A worker's step touches the delivery logs alone.\<close>

lemma work_effect:
  assumes "dp_workers D ch = Some w" "store_ok (sy_db \<sigma>)"
    and "worker_step store_log_repo w e n (pc, worker_view \<sigma>) = (pc', s)"
  shows "store_ok (ws_db s)" "notifs (ws_db s) = notifs (sy_db \<sigma>)" "same_people (sy_db \<sigma>) (ws_db s)"
    "covered (sy_db \<sigma>) c k \<Longrightarrow> covered (ws_db s) c k"
    "logged pc' \<Longrightarrow> logged pc \<or> (\<exists>i. uuid_in (notif_id n) = Some i \<and> covered (ws_db s) ch i)"
    "receipts (ws_out s) = receipts (sy_out \<sigma>) \<and> (unsent pc' \<longrightarrow> unsent pc) \<or>
     receipts (ws_out s) = receipts (sy_out \<sigma>) @ [receipt ch n] \<and> unsent pc \<and> logged pc \<and>
       \<not> unsent pc' \<and> logged pc'"
    "rows_of (ws_db s) ''notifications'' = rows_of (sy_db \<sigma>) ''notifications''"
proof -
  obtain S where S: "Channel S = ch" and W: "worker_contract store_log_repo store_ok logs stored_in uuid_in S
       (\<lambda>n. recipient ch n \<noteq> []) (token_panics ch) (failure ch) (receipt ch) w"
    using wired_worker [OF assms(1)] by blast
  have ok: "store_ok (ws_db (worker_view \<sigma>))" using assms(2) by simp
  show "store_ok (ws_db s)" by (rule worker_contract.step_good [OF W ok assms(3)])
  have frame: "notifs (ws_db s) = notifs (sy_db \<sigma>) \<and> same_people (sy_db \<sigma>) (ws_db s) \<and>
      rows_of (ws_db s) ''notifications'' = rows_of (sy_db \<sigma>) ''notifications''"
    using assms(3)
  proof (rule worker_contract.step_cases [OF W])
    fix x
    assume "repo_insert store_log_repo (pe_insert e) (pending_log w e n) (ws_db (worker_view \<sigma>)) = (x, ws_db s)"
    then have "ws_db s = snd (Insert (pe_insert e) (pending_log w e n) (sy_db \<sigma>))"
      by (simp add: store_log_repo_def)
    then show ?thesis
      using Insert_frame(1) [OF assms(2)] same_people_writes(3) [OF assms(2)] log_writes_rows(1) [OF assms(2)]
      by simp
  next
    fix st msg
    assume "ws_db s = snd (repo_update store_log_repo (pe_update e) (pe_log_id e) st msg (ws_db (worker_view \<sigma>)))"
    then have s: "ws_db s = snd (UpdateDeliveryStatus (pe_update e) (pe_log_id e) st msg (sy_db \<sigma>))"
      by (simp add: store_log_repo_def)
    obtain r d where "UpdateDeliveryStatus (pe_update e) (pe_log_id e) st msg (sy_db \<sigma>) = (r, d)" by fastforce
    with UpdateDeliveryStatus_cases(2) [OF assms(2) this] s same_people_writes(4) [OF assms(2)]
      log_writes_rows(2) [OF assms(2)] show ?thesis by (metis snd_conv)
  qed (simp_all add: same_people_def)
  then show "notifs (ws_db s) = notifs (sy_db \<sigma>)" "same_people (sy_db \<sigma>) (ws_db s)"
    "rows_of (ws_db s) ''notifications'' = rows_of (sy_db \<sigma>) ''notifications''" by simp_all
  show "covered (ws_db s) c k" if "covered (sy_db \<sigma>) c k"
    using that worker_contract.step_log_kept [OF W ok assms(3)] unfolding covered_def by fastforce
  show "logged pc \<or> (\<exists>i. uuid_in (notif_id n) = Some i \<and> covered (ws_db s) ch i)" if "logged pc'"
    using worker_contract.step_logs [OF W ok assms(3) that] S by (auto simp: covered_def)
  show "receipts (ws_out s) = receipts (sy_out \<sigma>) \<and> (unsent pc' \<longrightarrow> unsent pc) \<or>
     receipts (ws_out s) = receipts (sy_out \<sigma>) @ [receipt ch n] \<and> unsent pc \<and> logged pc \<and>
       \<not> unsent pc' \<and> logged pc'"
    using worker_contract.step_receipts [OF W assms(3)] by simp
qed

subsection \<open>Invariants\<close>

text \<open>
  A request between its insert and its write to Kafka owns an id: it is in the database, not yet on
  the topic, and no other such request has it.
\<close>

definition owned_id :: "(cache_faults api_env \<times> request \<times> remote_pc) option \<Rightarrow> string option" where
  "owned_id x = (case x of
     None \<Rightarrow> None
   | Some (e, req, pc) \<Rightarrow> if owning pc then uuid_in (ae_id e) else None)"

lemma owned_id_simps [simp]:
  "owned_id None = None"
  "owned_id (Some (e, req, pc)) = (if owning pc then uuid_in (ae_id e) else None)"
  by (simp_all add: owned_id_def)

abbreviation sy_topic :: "('r, 'k) system \<Rightarrow> message list" where
  "sy_topic \<sigma> \<equiv> topic_log (srv_broker (sy_srv \<sigma>))"

abbreviation sy_ids :: "('r, 'k) system \<Rightarrow> string option set" where
  "sy_ids \<sigma> \<equiv> Some ` notif_id ` set (notifs (sy_db \<sigma>))"

definition conn_ok :: "('r, 'k) system \<Rightarrow> cache_faults api_env \<times> request \<times> remote_pc \<Rightarrow> bool" where
  "conn_ok \<sigma> = (\<lambda>(e, req, pc). \<not> no_rows_fault (db_fault (ae_prefs e)) \<and> carried (sy_db \<sigma>) req pc \<and>
     (owning pc \<longrightarrow> uuid_in (ae_id e) \<in> sy_ids \<sigma> - set (topic_ids D \<sigma>)))"

definition conns_ok :: "('r, 'k) system \<Rightarrow> bool" where
  "conns_ok \<sigma> \<longleftrightarrow> (\<forall>c x. sy_conns \<sigma> c = Some x \<longrightarrow> conn_ok \<sigma> x) \<and>
     (\<forall>c c' i. owned_id (sy_conns \<sigma> c) = Some i \<longrightarrow> owned_id (sy_conns \<sigma> c') = Some i \<longrightarrow> c = c') \<and>
     set (topic_ids D \<sigma>) \<subseteq> sy_ids \<sigma>"

definition base_ok :: "('r, 'k) system \<Rightarrow> bool" where
  "base_ok \<sigma> \<longleftrightarrow> store_ok (sy_db \<sigma>) \<and> coherent (sy_db \<sigma>) (entry (srv_redis (sy_srv \<sigma>))) \<and> conns_ok \<sigma>"

lemma conns_ok_keep:
  assumes "conns_ok \<sigma>" "notifs (sy_db \<sigma>') = notifs (sy_db \<sigma>)" "sy_topic \<sigma>' = sy_topic \<sigma>"
    and "\<And>req pc. carried (sy_db \<sigma>') req pc = carried (sy_db \<sigma>) req pc"
    and "\<And>c x. sy_conns \<sigma>' c = Some x \<Longrightarrow> sy_conns \<sigma> c = Some x \<or> conn_ok \<sigma> x \<and> owned_id (Some x) = None"
  shows "conns_ok \<sigma>'"
proof -
  have same: "topic_ids D \<sigma>' = topic_ids D \<sigma>" "sy_ids \<sigma>' = sy_ids \<sigma>"
    using assms(2,3) by (simp_all add: topic_ids_def its_topic)
  have keep: "conn_ok \<sigma>' x = conn_ok \<sigma> x" for x by (simp only: conn_ok_def same assms(4))
  have "owned_id (sy_conns \<sigma> c) = Some i" if "owned_id (sy_conns \<sigma>' c) = Some i" for c i
    using that assms(5) [of c] by (cases "sy_conns \<sigma>' c") auto
  then have "c = c'" if "owned_id (sy_conns \<sigma>' c) = Some i" "owned_id (sy_conns \<sigma>' c') = Some i" for c c' i
    using assms(1) that unfolding conns_ok_def by blast
  moreover have "conn_ok \<sigma>' x" if "sy_conns \<sigma>' c = Some x" for c x
    using assms(1) assms(5) [OF that] unfolding conns_ok_def keep by blast
  ultimately show ?thesis using assms(1) unfolding conns_ok_def same by blast
qed

text \<open>What a step does to the stored notifications and to the topic.\<close>

lemma step_grows:
  assumes "sys_step D again \<sigma> \<sigma>'" "base_ok \<sigma>"
  shows "notifs (sy_db \<sigma>') = notifs (sy_db \<sigma>) \<and> sy_topic \<sigma>' = sy_topic \<sigma> \<or>
     (\<exists>n i u. notif_status n = StatusPending \<and> i \<notin> notif_id ` set (notifs (sy_db \<sigma>)) \<and>
        notifs (sy_db \<sigma>') = notifs (sy_db \<sigma>) @ [stored_notif i u n] \<and> sy_topic \<sigma>' = sy_topic \<sigma>) \<or>
     (\<exists>j m. notifs (sy_db \<sigma>') = notifs (sy_db \<sigma>) \<and> sy_topic \<sigma>' = sy_topic \<sigma> @ replicate j m \<and> j \<le> 10 \<and>
        (0 < j \<longrightarrow> msg_id m \<in> sy_ids \<sigma> - set (topic_ids D \<sigma>)))"
  using assms(1)
proof cases
  case (Serve c e req pc pc' srv)
  have conn: "conn_ok \<sigma> (e, req, pc)" using assms(2) Serve(2) by (simp add: base_ok_def conns_ok_def)
  have ok: "store_ok (sy_db \<sigma>)" "coherent (sy_db \<sigma>) (entry (srv_redis (sy_srv \<sigma>)))"
    using assms(2) by (simp_all add: base_ok_def)
  from conn have vet: "\<not> no_rows_fault (db_fault (ae_prefs e))" "carried (sy_db \<sigma>) req pc"
      "owning pc \<longrightarrow> uuid_in (ae_id e) \<noteq> None"
    by (auto simp: conn_ok_def)
  from ok vet(1,2) Serve(3) vet(3) show ?thesis
  proof (cases rule: serve_cases)
    case (queued j m)
    have own: "uuid_in (ae_id e) \<in> sy_ids \<sigma> - set (topic_ids D \<sigma>)" using conn queued(1) by (simp add: conn_ok_def)
    show ?thesis
      by (intro disjI2 exI [of _ j] exI [of _ m]) (use own queued in \<open>simp add: Serve(1)\<close>)
  qed (auto simp: Serve(1))
next
  case (Work ch w e n pc pc' s)
  with assms(2) work_effect(2) [OF Work(2) _ Work(5)] show ?thesis by (simp add: base_ok_def)
qed simp_all

lemma step_conns:
  assumes "sys_step D again \<sigma> \<sigma>'" "base_ok \<sigma>"
  shows "conns_ok \<sigma>'"
proof -
  have conns: "conns_ok \<sigma>" using assms(2) by (simp add: base_ok_def)
  note ids = topic_ids_def its_topic
  show ?thesis
    using assms(1)
  proof cases
    case (Arrive c e req)
    with conns show ?thesis by (intro conns_ok_keep [OF conns]) (auto simp: conn_ok_def split: if_splits)
  next
    case (Serve c e req pc pc' srv)
    have ok: "store_ok (sy_db \<sigma>)" "coherent (sy_db \<sigma>) (entry (srv_redis (sy_srv \<sigma>)))"
      using assms(2) by (simp_all add: base_ok_def)
    have conn: "conn_ok \<sigma> (e, req, pc)" using conns Serve(2) by (simp add: conns_ok_def)
    then have vet: "\<not> no_rows_fault (db_fault (ae_prefs e))" "carried (sy_db \<sigma>) req pc"
        "owning pc \<longrightarrow> uuid_in (ae_id e) \<noteq> None"
      by (auto simp: conn_ok_def)
    note frame = serve_frame [OF ok vet(1,2) Serve(3)]
    have people: "carried (srv_db srv) req' pc1 = carried (sy_db \<sigma>) req' pc1" for req' pc1
      by (rule carried_same [OF ok(1) frame(1,4)])
    have db: "sy_db \<sigma>' = srv_db srv" by (simp add: Serve(1))
    have vet': "carried (sy_db \<sigma>) req pc'" using frame(5) people by simp
    have sub: "set (topic_ids D \<sigma>) \<subseteq> sy_ids \<sigma>"
      and other: "\<And>d x. sy_conns \<sigma> d = Some x \<Longrightarrow> conn_ok \<sigma> x"
      and inj: "\<And>d d' i. owned_id (sy_conns \<sigma> d) = Some i \<Longrightarrow> owned_id (sy_conns \<sigma> d') = Some i \<Longrightarrow> d = d'"
      using conns unfolding conns_ok_def by blast+
    have known: "Some i \<in> sy_ids \<sigma> - set (topic_ids D \<sigma>)" if "owned_id (sy_conns \<sigma> d) = Some i" for d i
      using that other [of d]
      by (auto simp: owned_id_def conn_ok_def split: option.splits prod.splits if_splits)
    from ok vet(1,2) Serve(3) vet(3) show ?thesis
    proof (cases rule: serve_cases)
      case quiet
      with vet(1) vet' show ?thesis
        by (intro conns_ok_keep [OF conns]) (auto simp: Serve(1) people conn_ok_def split: if_splits)
    next
      case (stored n i u)
      have grown: "sy_ids \<sigma>' = insert (Some i) (sy_ids \<sigma>)" "topic_ids D \<sigma>' = topic_ids D \<sigma>"
        using stored(4,5) by (auto simp: Serve(1) ids stored_notif_def)
      have new: "Some i \<notin> sy_ids \<sigma>" using stored(2) by auto
      have "conn_ok \<sigma>' (e, req, pc')"
        using vet(1) vet' stored(1) new sub unfolding conn_ok_def db people grown [unfolded db] by auto
      moreover have "conn_ok \<sigma>' x" if "conn_ok \<sigma> x" for x
        using that unfolding conn_ok_def db people grown [unfolded db] by auto
      moreover have "owned_id (sy_conns \<sigma> d) \<noteq> Some i" for d using known new by blast
      ultimately show ?thesis
        using other inj sub stored(1) unfolding conns_ok_def grown
        by (auto simp: Serve(1) split: if_splits)
    next
      case (queued j m)
      have grown: "sy_ids \<sigma>' = sy_ids \<sigma>" "topic_ids D \<sigma>' = topic_ids D \<sigma> @ replicate j (uuid_in (ae_id e))"
        using queued(2,3,5) by (cases "0 < j"; simp add: Serve(1) ids map_replicate)+
      obtain i where i: "uuid_in (ae_id e) = Some i" "Some i \<in> sy_ids \<sigma>" "owned_id (sy_conns \<sigma> c) = Some i"
        using conn queued(1) Serve(2) by (auto simp: conn_ok_def)
      have "conn_ok \<sigma>' x" if "sy_conns \<sigma> d = Some x" "d \<noteq> c" for d x
      proof -
        have "owned_id (sy_conns \<sigma> d) \<noteq> Some i" using inj [OF i(3), of d] that(2) by blast
        then show ?thesis
          using other [OF that(1)] that(1) i(1) unfolding conn_ok_def db people grown [unfolded db]
          by (auto split: prod.splits if_splits)
      qed
      moreover have "conn_ok \<sigma>' (e, req, pc')" using vet(1) vet' queued(6) by (simp add: conn_ok_def db people)
      ultimately show ?thesis
        using inj sub i(1,2) queued(6) unfolding conns_ok_def grown
        by (auto simp: Serve(1) split: if_splits)
    qed
  next
    case (Work ch w e n pc pc' s)
    have ok: "store_ok (sy_db \<sigma>)" using assms(2) by (simp add: base_ok_def)
    note work = work_effect [OF Work(2) ok Work(5)]
    show ?thesis
      using work(2) carried_same [OF ok work(1,3)]
      by (intro conns_ok_keep [OF conns]) (simp_all add: Work(1))
  qed ((intro conns_ok_keep [OF conns]; simp split: if_splits)+)
qed

lemma step_base:
  assumes "sys_step D again \<sigma> \<sigma>'" "base_ok \<sigma>"
  shows "base_ok \<sigma>'"
proof -
  have ok: "store_ok (sy_db \<sigma>)" "coherent (sy_db \<sigma>) (entry (srv_redis (sy_srv \<sigma>)))"
    using assms(2) by (simp_all add: base_ok_def)
  have "store_ok (sy_db \<sigma>') \<and> coherent (sy_db \<sigma>') (entry (srv_redis (sy_srv \<sigma>')))"
    using assms(1)
  proof cases
    case (Serve c e req pc pc' srv)
    then have "conn_ok \<sigma> (e, req, pc)" using assms(2) by (simp add: base_ok_def conns_ok_def)
    with serve_frame(1,2) [OF ok _ _ Serve(3)] show ?thesis by (simp add: Serve(1) conn_ok_def)
  next
    case (Tick dt)
    with ok coherent_advance show ?thesis by (simp add: its_time)
  next
    case (Work ch w e n pc pc' s)
    from work_effect(1,3) [OF Work(2) ok(1) Work(5)] ok Work(1) coherent_same_people [OF ok(1)]
    show ?thesis by simp
  qed (use ok in simp_all)
  with step_conns [OF assms] show ?thesis by (simp add: base_ok_def)
qed

lemma reachable_base: "reachable D entry again \<sigma> \<Longrightarrow> base_ok \<sigma>"
proof (induction rule: reachable.induct)
  case (Start \<sigma>)
  then show ?case by (simp add: initial_def base_ok_def conns_ok_def topic_ids_def)
qed (rule step_base)

lemma step_people:
  assumes "sys_step D again \<sigma> \<sigma>'" "base_ok \<sigma>"
  shows "same_people (sy_db \<sigma>) (sy_db \<sigma>')"
  using assms(1)
proof cases
  case (Serve c' e req pc pc' srv)
  then have "conn_ok \<sigma> (e, req, pc)" using assms(2) by (simp add: base_ok_def conns_ok_def)
  with assms(2) serve_frame(4) [OF _ _ _ _ Serve(3)] show ?thesis
    by (simp add: Serve(1) base_ok_def conn_ok_def)
next
  case (Work ch w e n pc pc' s)
  with assms(2) work_effect(3) [OF Work(2) _ Work(5)] show ?thesis by (simp add: base_ok_def)
qed (simp_all add: same_people_def)

lemma step_covered:
  assumes "sys_step D again \<sigma> \<sigma>'" "base_ok \<sigma>" "covered (sy_db \<sigma>) c k"
  shows "covered (sy_db \<sigma>') c k"
  using assms(1)
proof cases
  case (Serve c' e req pc pc' srv)
  then have "conn_ok \<sigma> (e, req, pc)" using assms(2) by (simp add: base_ok_def conns_ok_def)
  with assms(2,3) serve_frame(3) [OF _ _ _ _ Serve(3)] show ?thesis
    by (simp add: Serve(1) base_ok_def conn_ok_def covered_def)
next
  case (Work ch w e n pc pc' s)
  with assms(2,3) work_effect(4) [OF Work(2) _ Work(5)] show ?thesis by (simp add: base_ok_def)
qed (use assms(3) in simp_all)

text \<open>Every message on the topic is a stored notification's, put there by one write only.\<close>

definition topic_ok :: "('r, 'k) system \<Rightarrow> bool" where
  "topic_ok \<sigma> \<longleftrightarrow> written_once (sy_topic \<sigma>) \<and>
     (\<forall>x \<in> set (topic_ids D \<sigma>). x \<in> Some ` notif_id ` set (notifs (sy_db \<sigma>))) \<and>
     (\<forall>n \<in> set (notifs (sy_db \<sigma>)). notif_status n = StatusPending)"

lemma reachable_topic:
  assumes "reachable D entry again \<sigma>"
  shows "topic_ok \<sigma>"
  using assms
proof induction
  case (Start \<sigma>)
  then show ?case by (simp add: topic_ok_def initial_def topic_ids_def its_topic written_once_def)
next
  case (Next \<sigma> \<sigma>')
  have "set (topic_ids D \<sigma>') \<subseteq> sy_ids \<sigma>'"
    using reachable_base [OF reachable.Next [OF Next(1,2)]] by (simp add: base_ok_def conns_ok_def)
  moreover from step_grows [OF Next(2) reachable_base [OF Next(1)]]
  have "written_once (sy_topic \<sigma>') \<and> (\<forall>n \<in> set (notifs (sy_db \<sigma>')). notif_status n = StatusPending)"
    using Next.IH written_once_append
    by (elim disjE) (auto simp: topic_ok_def topic_ids_def its_topic stored_notif_def)
  ultimately show ?case by (auto simp: topic_ok_def)
qed

text \<open>
  A busy worker works on a notification of the topic, and its delivery log is in the database from
  the insert on; what was handed over was on the topic and is covered by a log of that channel.
\<close>

definition jobs_ok :: "('r, 'k) system \<Rightarrow> bool" where
  "jobs_ok \<sigma> \<longleftrightarrow> (\<forall>ch e n pc. sy_jobs \<sigma> ch = Some (e, n, pc) \<longrightarrow>
     (\<exists>k. uuid_in (notif_id n) = Some k \<and> Some k \<in> set (topic_ids D \<sigma>) \<and>
        (logged pc \<longrightarrow> covered (sy_db \<sigma>) ch k)))"

definition sends_ok :: "('r, 'k) system \<Rightarrow> bool" where
  "sends_ok \<sigma> \<longleftrightarrow> (\<forall>ch \<in> set all_channels. \<forall>k. 0 < sends_on ch k (sy_out \<sigma>) \<longrightarrow>
     covered (sy_db \<sigma>) ch k \<and> Some k \<in> set (topic_ids D \<sigma>))"

lemma topic_ids_mono:
  assumes "sys_step D again \<sigma> \<sigma>'" "base_ok \<sigma>"
  shows "set (topic_ids D \<sigma>) \<subseteq> set (topic_ids D \<sigma>')"
  using step_grows [OF assms] by (auto simp: topic_ids_def its_topic)

lemma read_note:
  assumes "ReadOne complaint c (Inr (msg_value m, off)) = Inr n" "m \<in> set (sy_topic \<sigma>)" "topic_ok \<sigma>"
  shows "\<exists>k. msg_id m = Some k \<and> uuid_in (notif_id n) = Some k \<and> Some k \<in> set (topic_ids D \<sigma>)"
proof -
  have "msg_id m = uuid_in (notif_id n)"
    using assms(1) by (auto simp: ReadOne_def msg_id_def split: option.splits)
  moreover have "msg_id m \<in> set (topic_ids D \<sigma>)" using assms(2) by (simp add: topic_ids_def its_topic)
  ultimately show ?thesis using assms(3) by (auto simp: topic_ok_def)
qed

lemma queue_topic: "i < length (queue D w \<sigma>) \<Longrightarrow> queue D w \<sigma> ! i \<in> set (sy_topic \<sigma>)"
  using nth_mem [of i "queue D w \<sigma>"] by (auto simp: queue_def its_topic)

lemma step_jobs:
  assumes step: "sys_step D again \<sigma> \<sigma>'" and base: "base_ok \<sigma>" and topic: "topic_ok \<sigma>" and jobs: "jobs_ok \<sigma>"
  shows "jobs_ok \<sigma>'"
proof -
  have kept: "Some k \<in> set (topic_ids D \<sigma>') \<and> (lg \<longrightarrow> covered (sy_db \<sigma>') c k)"
    if "Some k \<in> set (topic_ids D \<sigma>)" "lg \<longrightarrow> covered (sy_db \<sigma>) c k" for lg c k
    using that topic_ids_mono [OF step base] step_covered [OF step base] by blast
  have old: "\<exists>k. uuid_in (notif_id n) = Some k \<and> Some k \<in> set (topic_ids D \<sigma>') \<and>
      (logged pc \<longrightarrow> covered (sy_db \<sigma>') ch k)" if "sy_jobs \<sigma> ch = Some (e, n, pc)" for ch e n pc
    using jobs that kept unfolding jobs_ok_def by blast
  show ?thesis
    using step
  proof cases
    case (Take ch w i n e)
    obtain k where "uuid_in (notif_id n) = Some k" "Some k \<in> set (topic_ids D \<sigma>)"
      using read_note [OF Take(7) queue_topic [OF Take(6)] topic] by blast
    then have "\<exists>k. uuid_in (notif_id n) = Some k \<and> Some k \<in> set (topic_ids D \<sigma>')"
      using topic_ids_mono [OF step base] by blast
    with old show ?thesis unfolding jobs_ok_def by (auto simp: Take(1) split: if_splits)
  next
    case (Work ch w e n pc pc' s)
    have ok: "store_ok (sy_db \<sigma>)" using base by (simp add: base_ok_def)
    obtain k where k: "uuid_in (notif_id n) = Some k" "Some k \<in> set (topic_ids D \<sigma>')"
        "logged pc \<longrightarrow> covered (sy_db \<sigma>') ch k"
      using old [OF Work(3)] by blast
    have "covered (sy_db \<sigma>') ch k" if "logged pc'"
      using work_effect(5) [OF Work(2) ok Work(5) that] k(1,3) by (auto simp: Work(1))
    with k old show ?thesis unfolding jobs_ok_def by (auto simp: Work(1) split: if_splits)
  qed (use old in \<open>auto simp: jobs_ok_def split: if_splits\<close>)
qed

lemma step_sends:
  assumes step: "sys_step D again \<sigma> \<sigma>'" and base: "base_ok \<sigma>" and jobs: "jobs_ok \<sigma>" and sends: "sends_ok \<sigma>"
  shows "sends_ok \<sigma>'"
proof -
  have kept: "covered (sy_db \<sigma>') c k \<and> Some k \<in> set (topic_ids D \<sigma>')"
    if "covered (sy_db \<sigma>) c k" "Some k \<in> set (topic_ids D \<sigma>)" for c k
    using that topic_ids_mono [OF step base] step_covered [OF step base] by blast
  have quiet: ?thesis if "receipts (sy_out \<sigma>') = receipts (sy_out \<sigma>)"
    using sends kept unfolding sends_ok_def sends_on_quiet [OF that] by blast
  show ?thesis
    using step
  proof cases
    case (Work ch w e n pc pc' s)
    have ok: "store_ok (sy_db \<sigma>)" using base by (simp add: base_ok_def)
    have ch: "ch \<in> set all_channels" using wired_worker [OF Work(2)] by blast
    from work_effect(6) [OF Work(2) ok Work(5)] show ?thesis
    proof (elim disjE conjE)
      assume new: "receipts (ws_out s) = receipts (sy_out \<sigma>) @ [receipt ch n]" and lg: "logged pc"
      obtain k where k: "uuid_in (notif_id n) = Some k" "Some k \<in> set (topic_ids D \<sigma>)" "covered (sy_db \<sigma>) ch k"
        using jobs Work(3) lg unfolding jobs_ok_def by blast
      have "covered (sy_db \<sigma>') c j \<and> Some j \<in> set (topic_ids D \<sigma>')"
        if "c \<in> set all_channels" "0 < sends_on c j (ws_out s)" for c j
      proof (cases "c = ch \<and> j = k")
        case True
        with k kept show ?thesis by blast
      next
        case False
        then have "sends_on c j (ws_out s) = sends_on c j (sy_out \<sigma>)"
          using sends_on_receipt [OF new ch that(1), of j] k(1) by auto
        with that sends kept show ?thesis unfolding sends_ok_def by auto
      qed
      then show ?thesis unfolding sends_ok_def by (auto simp: Work(1))
    qed (use quiet Work(1) in simp)
  qed (use quiet in \<open>simp_all\<close>)
qed

lemma reachable_sound:
  assumes "reachable D entry again \<sigma>"
  shows "jobs_ok \<sigma> \<and> sends_ok \<sigma>"
  using assms
proof induction
  case (Start \<sigma>)
  then show ?case by (simp add: initial_def jobs_ok_def sends_ok_def sends_on_def)
next
  case (Next \<sigma> \<sigma>')
  with step_jobs step_sends reachable_base reachable_topic show ?case by blast
qed

subsection \<open>Counting\<close>

text \<open>
  Without rewinds a group reads a message once, and a call hands over at most once: the receipts of a
  channel, with the call under way, never outnumber the messages its group has read.
\<close>

definition waiting :: "channel \<Rightarrow> string \<Rightarrow> ('r, 'k) system \<Rightarrow> nat" where
  "waiting ch k \<sigma> =
     (case sy_jobs \<sigma> ch of
        None \<Rightarrow> 0
      | Some (e, n, pc) \<Rightarrow> if unsent pc \<and> uuid_in (notif_id n) = Some k then 1 else 0)"

definition reads :: "channel \<Rightarrow> string \<Rightarrow> ('r, 'k) system \<Rightarrow> nat" where
  "reads ch k \<sigma> =
     (case dp_workers D ch of
        None \<Rightarrow> 0
      | Some w \<Rightarrow>
          (case sy_offset \<sigma> ch of
             None \<Rightarrow> 0
           | Some i \<Rightarrow> count_list (map msg_id (take i (queue D w \<sigma>))) (Some k)))"

definition count_ok :: "('r, 'k) system \<Rightarrow> bool" where
  "count_ok \<sigma> \<longleftrightarrow> (\<forall>ch \<in> set all_channels. \<forall>k. sends_on ch k (sy_out \<sigma>) + waiting ch k \<sigma> \<le> reads ch k \<sigma>)"

lemma queue_grows:
  assumes "sys_step D again \<sigma> \<sigma>'" "base_ok \<sigma>"
  obtains ms where "queue D w \<sigma>' = queue D w \<sigma> @ ms"
proof -
  obtain ms where "sy_topic \<sigma>' = sy_topic \<sigma> @ ms" using step_grows [OF assms] by auto
  then show thesis by (intro that) (simp add: queue_def its_topic)
qed

lemma reads_grow:
  assumes step: "sys_step D again \<sigma> \<sigma>'" and base: "base_ok \<sigma>"
    and later: "\<And>i. sy_offset \<sigma> ch = Some i \<Longrightarrow> \<exists>j \<ge> i. sy_offset \<sigma>' ch = Some j"
  shows "reads ch k \<sigma> \<le> reads ch k \<sigma>'"
proof (cases "dp_workers D ch")
  case w: (Some w)
  obtain ms where ms: "queue D w \<sigma>' = queue D w \<sigma> @ ms" using queue_grows [OF step base] by blast
  show ?thesis
  proof (cases "sy_offset \<sigma> ch")
    case (Some i)
    then obtain j where j: "i \<le> j" "sy_offset \<sigma>' ch = Some j" using later by blast
    have "take j (queue D w \<sigma>') = take i (queue D w \<sigma>) @ drop i (take j (queue D w \<sigma>)) @ take (j - length (queue D w \<sigma>)) ms"
      using ms j(1) by (metis append.assoc append_take_drop_id min.absorb1 take_append take_take)
    with Some j(2) w show ?thesis by (simp add: reads_def)
  qed (simp add: reads_def w)
qed (simp add: reads_def)

lemma step_count:
  assumes step: "sys_step D False \<sigma> \<sigma>'" and base: "base_ok \<sigma>" and count: "count_ok \<sigma>"
  shows "count_ok \<sigma>'"
proof -
  have old: "sends_on ch k (sy_out \<sigma>) + waiting ch k \<sigma> \<le> reads ch k \<sigma>" if "ch \<in> set all_channels" for ch k
    using count that unfolding count_ok_def by blast
  have keep: ?thesis
    if off: "\<And>ch i. sy_offset \<sigma> ch = Some i \<Longrightarrow> \<exists>j \<ge> i. sy_offset \<sigma>' ch = Some j"
      and quiet: "receipts (sy_out \<sigma>') = receipts (sy_out \<sigma>)"
      and less: "\<And>ch k. waiting ch k \<sigma>' \<le> waiting ch k \<sigma>"
  proof -
    have "sends_on ch k (sy_out \<sigma>') + waiting ch k \<sigma>' \<le> reads ch k \<sigma>'" if "ch \<in> set all_channels" for ch k
      using old [OF that, of k] reads_grow [OF step base off, of ch k] sends_on_quiet [OF quiet] less [of ch k]
      by simp
    then show ?thesis by (simp add: count_ok_def)
  qed
  show ?thesis
    using step
  proof cases
    case (Take ch w i n e)
    have q: "queue D w \<sigma>' = queue D w \<sigma>" by (simp add: Take(1) queue_def)
    have "msg_id (queue D w \<sigma> ! i) = uuid_in (notif_id n)"
      using Take(7) by (auto simp: ReadOne_def msg_id_def split: option.splits)
    then have "reads ch k \<sigma>' = reads ch k \<sigma> + (if uuid_in (notif_id n) = Some k then 1 else 0)" for k
      using Take(2,5,6) q by (simp add: reads_def Take(1) take_Suc_conv_app_nth)
    moreover have "waiting ch k \<sigma>' = (if uuid_in (notif_id n) = Some k then 1 else 0)" "waiting ch k \<sigma> = 0" for k
      using Take(3) by (simp_all add: waiting_def Take(1))
    moreover have "waiting c k \<sigma>' = waiting c k \<sigma>" "reads c k \<sigma>' = reads c k \<sigma>" if "c \<noteq> ch" for c k
      using that by (simp_all add: waiting_def reads_def queue_def Take(1) split: option.split)
    ultimately have "sends_on c k (sy_out \<sigma>') + waiting c k \<sigma>' \<le> reads c k \<sigma>'" if "c \<in> set all_channels" for c k
      using old [OF that, of k] by (cases "c = ch") (simp_all add: Take(1))
    then show ?thesis by (simp add: count_ok_def)
  next
    case (Work ch w e n pc pc' s)
    have ok: "store_ok (sy_db \<sigma>)" using base by (simp add: base_ok_def)
    have ch: "ch \<in> set all_channels" using wired_worker [OF Work(2)] by blast
    have off: "\<exists>j \<ge> i. sy_offset \<sigma>' c = Some j" if "sy_offset \<sigma> c = Some i" for c i
      using that by (simp add: Work(1))
    from work_effect(6) [OF Work(2) ok Work(5)] show ?thesis
    proof (elim disjE conjE)
      assume "receipts (ws_out s) = receipts (sy_out \<sigma>)" "unsent pc' \<longrightarrow> unsent pc"
      then show ?thesis
        using Work(3) by (intro keep off) (auto simp: Work(1) waiting_def split: option.split)
    next
      assume new: "receipts (ws_out s) = receipts (sy_out \<sigma>) @ [receipt ch n]" and ph: "unsent pc" "\<not> unsent pc'"
      have "sends_on c k (sy_out \<sigma>') + waiting c k \<sigma>' \<le> reads c k \<sigma>'" if c: "c \<in> set all_channels" for c k
      proof -
        have "reads c k \<sigma>' = reads c k \<sigma>" by (simp add: reads_def queue_def Work(1) split: option.split)
        then show ?thesis
          using old [OF c, of k] sends_on_receipt [OF new ch c, of k] ph Work(3)
          by (cases "c = ch") (simp_all add: Work(1) waiting_def split: if_splits)
      qed
      then show ?thesis by (simp add: count_ok_def)
    qed
  qed ((rule keep; auto simp: waiting_def split: option.split)+)
qed

lemma count_list_filter: "count_list (map f (filter P xs)) x \<le> count_list (map f xs) x"
  by (induction xs) simp_all

lemma count_list_take: "count_list (take i xs) x \<le> count_list xs x"
proof -
  have "count_list xs x = count_list (take i xs) x + count_list (drop i xs) x"
    by (metis append_take_drop_id count_list_append)
  then show ?thesis by simp
qed

lemma reads_topic: "reads ch k \<sigma> \<le> count_list (topic_ids D \<sigma>) (Some k)"
proof -
  have "count_list (map msg_id (take i (queue D w \<sigma>))) x \<le> count_list (topic_ids D \<sigma>) x" for i w x
    using le_trans [OF count_list_take count_list_filter]
    by (simp add: queue_def topic_ids_def take_map [symmetric])
  then show ?thesis by (simp add: reads_def split: option.split)
qed

lemma reachable_count:
  assumes "reachable D entry False \<sigma>" "ch \<in> set all_channels"
  shows "sends_on ch k (sy_out \<sigma>) \<le> count_list (topic_ids D \<sigma>) (Some k)"
proof -
  have "count_ok \<sigma>"
    using assms(1)
  proof induction
    case (Start \<sigma>)
    then show ?case by (simp add: initial_def count_ok_def sends_on_def waiting_def)
  next
    case (Next \<sigma> \<sigma>')
    with step_count reachable_base show ?case by blast
  qed
  with reads_topic show ?thesis using assms(2) unfolding count_ok_def by (metis add_leD1 le_trans)
qed

subsection \<open>A call without interruption\<close>

definition idle :: "('r, 'k) system \<Rightarrow> bool" where
  "idle \<sigma> \<longleftrightarrow> sy_jobs \<sigma> = (\<lambda>_. None)"

lemma Work_run:
  assumes "dp_workers D ch = Some w" "(worker_step store_log_repo w e n ^^ k) (pc, worker_view \<sigma>) = (Done (Ret x), s)"
    and "reachable D entry again \<sigma>" "sy_jobs \<sigma> = (\<lambda>_. None)(ch \<mapsto> (e, n, pc))"
  shows "reachable D entry again (put_worker s (\<sigma>\<lparr>sy_jobs := (\<lambda>_. None)(ch \<mapsto> (e, n, Done (Ret x)))\<rparr>))"
  using assms(2-)
proof (induction k arbitrary: pc \<sigma>)
  case 0
  have "put_worker (worker_view \<sigma>) (\<sigma>\<lparr>sy_jobs := sy_jobs \<sigma>\<rparr>) = \<sigma>"
    by (simp add: put_worker_def worker_view_def)
  with 0 show ?case by simp
next
  case (Suc k)
  obtain pc1 s1 where one: "worker_step store_log_repo w e n (pc, worker_view \<sigma>) = (pc1, s1)" by fastforce
  have rest: "(worker_step store_log_repo w e n ^^ k) (pc1, s1) = (Done (Ret x), s)"
    using Suc.prems(1) one by (simp add: funpow_swap1)
  have alive: "pc \<noteq> Done (Panicked q)" for q
  proof
    assume "pc = Done (Panicked q)"
    then show False using Suc.prems(1) Done_stays [of "Suc k" store_log_repo w e n "Panicked q" "worker_view \<sigma>"] by simp
  qed
  let ?\<sigma>1 = "put_worker s1 (\<sigma>\<lparr>sy_jobs := (sy_jobs \<sigma>)(ch \<mapsto> (e, n, pc1))\<rparr>)"
  have "\<not> crashed \<sigma>" using alive Suc.prems(3) by (simp add: crashed_def)
  then have reach: "reachable D entry again ?\<sigma>1"
    using Suc.prems(3) one by (intro Next [OF Suc.prems(2)] Work [OF assms(1)]) simp_all
  have view: "worker_view ?\<sigma>1 = s1" by (simp add: worker_view_def put_worker_def)
  have jobs: "sy_jobs ?\<sigma>1 = (\<lambda>_. None)(ch \<mapsto> (e, n, pc1))"
    using Suc.prems(3) by (simp add: fun_upd_def fun_eq_iff)
  have "(worker_step store_log_repo w e n ^^ k) (pc1, worker_view ?\<sigma>1) = (Done (Ret x), s)"
    unfolding view by (rule rest)
  from Suc.IH [OF this reach jobs] show ?case by (simp add: put_worker_def)
qed

lemma steps_found:
  assumes "dp_workers D ch = Some w" "store_ok (sy_db \<sigma>)"
    and "(worker_step store_log_repo w e n ^^ k) (pc, worker_view \<sigma>) = (pc', s)"
  shows "store_ok (ws_db s) \<and> FindByID NoFault i (ws_db s) = FindByID NoFault i (sy_db \<sigma>)"
  using assms(2,3)
proof (induction k arbitrary: pc \<sigma>)
  case (Suc k)
  obtain pc1 s1 where one: "worker_step store_log_repo w e n (pc, worker_view \<sigma>) = (pc1, s1)" by fastforce
  note effect = work_effect [OF assms(1) Suc.prems(1) one]
  have "worker_view (put_worker s1 \<sigma>) = s1" by (simp add: worker_view_def put_worker_def)
  with Suc.IH [of "put_worker s1 \<sigma>" pc1] Suc.prems(2) one effect(1)
    FindByID_same [OF Suc.prems(1) effect(1,7)]
  show ?case by (simp add: funpow_swap1)
qed auto

lemma Serve_run:
  assumes "reachable D entry again \<sigma>" "sy_conns \<sigma> c = Some (e, req, pc)"
    and "(remote_step (dp_libs D) (dp_ttl D) (dp_handler D) e req fresh_response ^^ k) (pc, sy_srv \<sigma>) = (pc', srv)"
  shows "reachable D entry again (\<sigma>\<lparr>sy_srv := srv, sy_conns := (sy_conns \<sigma>)(c \<mapsto> (e, req, pc'))\<rparr>)"
  using assms
proof (induction k arbitrary: pc \<sigma>)
  case 0
  then have "pc' = pc" "srv = sy_srv \<sigma>" by simp_all
  then have "\<sigma>\<lparr>sy_srv := srv, sy_conns := (sy_conns \<sigma>)(c \<mapsto> (e, req, pc'))\<rparr> = \<sigma>"
    using 0(2) by (simp add: fun_upd_idem)
  with 0(1) show ?case by (simp only:)
next
  case (Suc k)
  obtain pc1 s1 where one:
    "remote_step (dp_libs D) (dp_ttl D) (dp_handler D) e req fresh_response (pc, sy_srv \<sigma>) = (pc1, s1)" by fastforce
  let ?\<sigma>1 = "\<sigma>\<lparr>sy_srv := s1, sy_conns := (sy_conns \<sigma>)(c \<mapsto> (e, req, pc1))\<rparr>"
  have reach: "reachable D entry again ?\<sigma>1"
    by (rule Next [OF Suc.prems(1)], rule Serve [OF Suc.prems(2) one])
  have "(remote_step (dp_libs D) (dp_ttl D) (dp_handler D) e req fresh_response ^^ k) (pc1, sy_srv ?\<sigma>1) = (pc', srv)"
    using Suc.prems(3) one by (simp add: funpow_swap1)
  from Suc.IH [OF reach _ this] show ?case by (simp cong: if_cong)
qed

text \<open>A request served from end to end while nothing else happens.\<close>

lemma request_run:
  assumes "reachable D entry again \<sigma>" "sy_conns \<sigma> c = None" "\<not> no_rows_fault (db_fault (ae_prefs e))"
    and "SendNotification (dp_libs D) (dp_handler D) e req fresh_response (sy_srv \<sigma>) = (rsp, srv)"
  shows "reachable D entry again (\<sigma>\<lparr>sy_srv := srv, sy_replies := sy_replies \<sigma> @ [(req, rsp)]\<rparr>)"
proof -
  let ?\<sigma>1 = "\<sigma>\<lparr>sy_conns := (sy_conns \<sigma>)(c \<mapsto> (e, req, At Arrived))\<rparr>"
  let ?\<sigma>2 = "\<sigma>\<lparr>sy_srv := srv, sy_conns := (sy_conns \<sigma>)(c \<mapsto> (e, req, At (Replied rsp)))\<rparr>"
  have "h_user_cache (dp_handler D) = NewUserCache (lib_redis (dp_libs D)) (dp_ttl D)"
    by (simp add: its_handler libs(1))
  from remote_run_end [OF this, of 0 e req fresh_response "sy_srv \<sigma>"] assms(4)
  have whole: "(remote_step (dp_libs D) (dp_ttl D) (dp_handler D) e req fresh_response ^^ 10)
      (At Arrived, sy_srv \<sigma>) = (At (Replied rsp), srv)" by simp
  have "reachable D entry again ?\<sigma>1"
    by (rule Next [OF assms(1)], rule Arrive [OF assms(2,3)])
  from Serve_run [OF this, of c e req "At Arrived" 10 "At (Replied rsp)" srv] whole
  have "reachable D entry again ?\<sigma>2" by simp
  then have "reachable D entry again (?\<sigma>2\<lparr>sy_conns := (sy_conns ?\<sigma>2)(c := None),
      sy_replies := sy_replies ?\<sigma>2 @ [(req, rsp)]\<rparr>)"
    by (rule Next, intro Reply [of _ c e req rsp]) simp
  then show ?thesis using assms(2) by (simp add: fun_upd_idem)
qed

lemma call_run:
  assumes "reachable D entry again \<sigma>" "idle \<sigma>" "dp_workers D ch = Some w"
    and "sy_offset \<sigma> ch = Some i" "i < length (queue D w \<sigma>)"
    and "ReadOne (dp_complaint D) (w_consumer w) (Inr (msg_value (queue D w \<sigma> ! i), int i)) = Inr n"
    and "process store_log_repo w e n (worker_view \<sigma>) = (Ret None, s)"
  shows "reachable D entry again (put_worker s (\<sigma>\<lparr>sy_offset := (sy_offset \<sigma>)(ch \<mapsto> Suc i)\<rparr>))"
proof -
  let ?\<sigma>1 = "\<sigma>\<lparr>sy_offset := (sy_offset \<sigma>)(ch \<mapsto> Suc i), sy_jobs := (sy_jobs \<sigma>)(ch \<mapsto> (e, n, Checking))\<rparr>"
  let ?\<sigma>2 = "put_worker s (?\<sigma>1\<lparr>sy_jobs := (\<lambda>_. None)(ch \<mapsto> (e, n, Done (Ret None)))\<rparr>)"
  have "reachable D entry again ?\<sigma>1"
    using assms(2) by (intro Next [OF assms(1)] Take [OF assms(3) _ _ assms(4,5,6)]) (simp_all add: idle_def crashed_def)
  moreover have "(worker_step store_log_repo w e n ^^ step_bound w) (Checking, worker_view ?\<sigma>1) = (Done (Ret None), s)"
    using process_run_end [where R = store_log_repo and w = w and e = e and n = n and k = 0
        and s = "worker_view ?\<sigma>1"] assms(7) by (simp add: worker_view_def)
  ultimately have "reachable D entry again ?\<sigma>2"
    using assms(2) by (intro Work_run [OF assms(3), where k = "step_bound w" and pc = Checking]) (simp_all add: idle_def)
  then have "reachable D entry again (?\<sigma>2\<lparr>sy_jobs := (sy_jobs ?\<sigma>2)(ch := None)\<rparr>)"
    by (rule Next, intro Finish [OF assms(3), of _ e n]) (simp_all add: crashed_def)
  moreover have "?\<sigma>2\<lparr>sy_jobs := (sy_jobs ?\<sigma>2)(ch := None)\<rparr> =
      put_worker s (\<sigma>\<lparr>sy_offset := (sy_offset \<sigma>)(ch \<mapsto> Suc i)\<rparr>)"
    using assms(2) by (simp add: put_worker_def idle_def fun_eq_iff)
  ultimately show ?thesis by simp
qed

text \<open>The next message of a group can always be handed over, on that group's channel.\<close>

lemma head_delivered:
  assumes "reachable D entry again \<sigma>" "idle \<sigma>" "dp_workers D ch = Some w"
    and "sy_offset \<sigma> ch = Some i" "i < length (queue D w \<sigma>)"
    and "ReadOne (dp_complaint D) (w_consumer w) (Inr (msg_value (queue D w \<sigma> ! i), int i)) = Inr n"
    and "uuid_in (notif_id n) = Some k" "\<not> sent_in (logs (sy_db \<sigma>)) k"
    and "recipient ch n \<noteq> []" "\<not> token_panics ch n"
    and "calm e" "uuid_in (pe_log_id e) = Some lid" "lid \<notin> dlog_id ` set (logs (sy_db \<sigma>))"
  shows "\<exists>\<sigma>'. reachable D entry again \<sigma>' \<and> idle \<sigma>' \<and> sy_offset \<sigma>' = (sy_offset \<sigma>)(ch \<mapsto> Suc i) \<and>
    srv_broker (sy_srv \<sigma>') = srv_broker (sy_srv \<sigma>) \<and> sent_in (logs (sy_db \<sigma>')) k \<and>
    (\<forall>x. FindByID NoFault x (sy_db \<sigma>') = FindByID NoFault x (sy_db \<sigma>)) \<and>
    (\<forall>c \<in> set all_channels. sends_on c k (sy_out \<sigma>') = sends_on c k (sy_out \<sigma>) + (if c = ch then 1 else 0))"
proof -
  obtain S where S: "senders NewLogger ch = Some S" "Channel S = ch" "ch \<in> set all_channels"
    and W: "worker_contract store_log_repo store_ok logs stored_in uuid_in S
       (\<lambda>n. recipient ch n \<noteq> []) (token_panics ch) (failure ch) (receipt ch) w"
    using wired_worker [OF assms(3)] by blast
  have ok: "store_ok (ws_db (worker_view \<sigma>))"
    using reachable_base [OF assms(1)] by (simp add: base_ok_def)
  obtain j where "uuid_in (notif_id n) = Some j" "Some j \<in> set (topic_ids D \<sigma>)"
    using read_note [OF assms(6) queue_topic [OF assms(5)] reachable_topic [OF assms(1)]] by blast
  with assms(7) reachable_topic [OF assms(1)] have known: "stored_in (ws_db (worker_view \<sigma>)) k"
    by (auto simp: topic_ok_def)
  have e: "pe_exists e = NoFault" "pe_insert e = NoFault" "pe_update e = NoFault"
    using assms(11) by (simp_all add: calm_def)
  have pg: "pg_text (Channel S)" using senders_pg_text [OF S(1)] S(2) by simp
  have "\<not> sent_in (logs (ws_db (worker_view \<sigma>))) k" "lid \<notin> dlog_id ` set (logs (ws_db (worker_view \<sigma>)))"
    using assms(8,13) by simp_all
  from worker_contract.process_delivers [OF W ok e assms(7) known this(1) assms(12) this(2) pg assms(9,10)]
  obtain s where s: "process store_log_repo w e n (worker_view \<sigma>) = (Ret None, s)"
      "logs (ws_db s) = logs (sy_db \<sigma>) @
        [(stored_dlog lid k (pending_log w e n))\<lparr>dlog_status := StatusSent, dlog_error_message := []\<rparr>]"
      "receipts (ws_out s) = receipts (sy_out \<sigma>) @ [receipt ch n]"
    by auto
  have "(worker_step store_log_repo w e n ^^ step_bound w) (Checking, worker_view \<sigma>) = (Done (Ret None), s)"
    using process_run_end [where R = store_log_repo and w = w and e = e and n = n and k = 0
        and s = "worker_view \<sigma>"] s(1) by simp
  from steps_found [OF assms(3) _ this] ok
  have found: "FindByID NoFault x (ws_db s) = FindByID NoFault x (sy_db \<sigma>)" for x by simp
  have "sent_in (logs (ws_db s)) k" using s(2) by (simp add: stored_dlog_def)
  moreover have "sends_on c k (ws_out s) = sends_on c k (sy_out \<sigma>) + (if c = ch then 1 else 0)"
    if "c \<in> set all_channels" for c
    using sends_on_receipt [OF s(3) S(3) that, of k] assms(7) by auto
  moreover note call_run [OF assms(1-6) s(1)]
  ultimately show ?thesis
    using assms(2) found
    by (intro exI [of _ "put_worker s (\<sigma>\<lparr>sy_offset := (sy_offset \<sigma>)(ch \<mapsto> Suc i)\<rparr>)"])
      (simp add: idle_def)
qed

end

subsection \<open>A deployment, and a queued notification\<close>

definition example_deployment :: "(string keyspace, broker) deployment" where
  "example_deployment =
     \<lparr>dp_libs = ex_libs, dp_handler = ex_handler, dp_ttl = 5 * Minute, dp_advance = ks_advance, dp_topic = broker_log,
      dp_complaint = id,
      dp_workers = start_workers id \<lparr>kafka_broker_addr = [], kafka_routing = default_routing\<rparr>\<rparr>"

lemma start_workers_wired:
  assumes "start_workers quote cfg ch = Some w"
  shows "\<exists>c S. senders NewLogger ch = Some S \<and> w = worker_New c S NewLogger"
  using assms by (auto simp: start_workers_def split: option.splits sum.splits)

interpretation example: deployed ks_ops ks_map ks_now ks_advance "5 * Minute" broker_put broker_log
  example_deployment default_producer "NewLimiter 100 Hour" NewLogger
  by (unfold_locales)
     (simp_all add: example_deployment_def ex_handler_def start_workers_wired)

text \<open>Alice wants email only; she has a phone, though.\<close>

definition db_muted :: database where
  "db_muted = snd (exec_stmt [SText alice, SBool True, SBool False, SBool False]
     (InsertInto ''user_preferences'' [''user_id'', ''email_enabled'', ''sms_enabled'', ''push_enabled'']
        [Param 1, Param 2, Param 3, Param 4]) db_alice)"

definition alice_user :: user where
  "alice_user = projr (FindUserByID NoFault alice db_muted)"

definition muted_note :: notification where
  "muted_note = new_notification (ex_env note1) ex_asked alice_user"

definition muted_start :: "(string keyspace, broker) system" where
  "muted_start =
     \<lparr>sy_srv = ex_server db_muted, sy_out = [], sy_metrics = (\<lambda>_. 0), sy_conns = (\<lambda>_. None), sy_replies = [],
      sy_offset = (\<lambda>_. Some 0), sy_jobs = (\<lambda>_. None)\<rparr>"

lemma store_ok_muted: "store_ok db_muted"
  unfolding db_muted_def by (rule store_ok_exec [OF store_ok_alice]) simp_all

lemma muted_prefs:
  "FindPreferences NoFault alice db_muted =
     Inr \<lparr>prefs_user_id = alice, prefs_email_enabled = True, prefs_sms_enabled = False,
          prefs_push_enabled = False\<rparr>"
  by code_simp

lemma muted_user: "FindUserByID NoFault alice db_muted = Inr alice_user"
proof -
  have "(case FindUserByID NoFault alice db_muted of Inr u \<Rightarrow> True | Inl e \<Rightarrow> False)" by code_simp
  then show ?thesis by (cases "FindUserByID NoFault alice db_muted") (simp_all add: alice_user_def)
qed

lemma muted_contents:
  "notifs db_muted = []" "fst (Save NoFault muted_note db_muted) = None"
  "logs (snd (Save NoFault muted_note db_muted)) = []" "recipient ChannelSMS muted_note \<noteq> []"
  by code_simp+

lemma muted_note_fields: "notif_id muted_note = note1" "notif_channel muted_note = ChannelEmail"
  by (simp_all add: muted_note_def new_notification_def)

lemma start_workers_sms:
  "\<exists>w. dp_workers example_deployment ChannelSMS = Some w \<and>
     rc_topic (cons_reader (w_consumer w)) = ''notifications''"
  by (simp add: example_deployment_def start_workers_def senders_at NewConsumer_def topic_route_def
      worker_New_def)

lemma muted_reachable: "reachable example_deployment ks_map again muted_start"
  by (rule Start)
     (simp add: initial_def muted_start_def store_ok_muted ex_coherent example_deployment_def muted_contents)

lemma muted_accepted:
  obtains rsp s' m where "SendNotification ex_libs ex_handler (ex_env note1) (ex_request ChannelEmail)
      fresh_response (ex_server db_muted) = (rsp, s')" "status_of rsp = 202"
    "srv_db s' = snd (Save NoFault muted_note db_muted)" "broker_log (srv_broker s') = [m]"
    "msg_topic m = ''notifications''" "unmarshal_notification (msg_value m) = Some muted_note"
proof -
  have saved: "Save NoFault (new_notification (ex_env note1) ex_asked alice_user) db_muted =
      (None, snd (Save NoFault muted_note db_muted))"
    using muted_contents(2) by (simp add: prod_eq_iff muted_note_def)
  have "isChannelEnabled ChannelEmail \<lparr>prefs_user_id = alice, prefs_email_enabled = True,
      prefs_sms_enabled = False, prefs_push_enabled = False\<rparr>" by (simp add: isChannelEnabled_def)
  from ex_accepts [OF store_ok_muted muted_user muted_prefs this saved] that show thesis
    by (auto simp: muted_note_def)
qed

lemma muted_queued:
  "\<exists>\<sigma> m. reachable example_deployment ks_map again \<sigma> \<and> sy_jobs \<sigma> = (\<lambda>_. None) \<and>
     sy_offset \<sigma> = (\<lambda>_. Some 0) \<and> sy_out \<sigma> = [] \<and> logs (sy_db \<sigma>) = [] \<and>
     FindPreferences NoFault alice (sy_db \<sigma>) = FindPreferences NoFault alice db_muted \<and>
     (\<exists>n. FindByID NoFault note1 (sy_db \<sigma>) = Inr n) \<and> broker_log (srv_broker (sy_srv \<sigma>)) = [m] \<and> msg_topic m = ''notifications'' \<and>
     unmarshal_notification (msg_value m) = Some muted_note"
proof -
  obtain rsp s' m where
    req: "SendNotification ex_libs ex_handler (ex_env note1) (ex_request ChannelEmail)
      fresh_response (ex_server db_muted) = (rsp, s')"
    and s': "srv_db s' = snd (Save NoFault muted_note db_muted)" "broker_log (srv_broker s') = [m]"
      "msg_topic m = ''notifications''" "unmarshal_notification (msg_value m) = Some muted_note"
    using muted_accepted by blast
  from muted_reachable have "reachable example_deployment ks_map again
      (muted_start\<lparr>sy_srv := s', sy_replies := sy_replies muted_start @ [(ex_request ChannelEmail, rsp)]\<rparr>)"
    by (rule example.request_run [where e = "ex_env note1" and req = "ex_request ChannelEmail" and rsp = rsp])
       (simp_all add: example_deployment_def muted_start_def req no_rows_fault_def)
  moreover have "same_people db_muted (srv_db s')"
    using same_people_writes(1) [OF store_ok_muted] s'(1) by simp
  then have "FindPreferences NoFault alice (srv_db s') = FindPreferences NoFault alice db_muted"
    using same_people_lookups(2) [OF store_ok_muted] store_ok_Save [OF store_ok_muted] s'(1) by metis
  moreover have "nrepo_save store_notif_repo NoFault muted_note db_muted = (None, srv_db s')"
    using muted_contents(2) s'(1) by (simp add: store_notif_repo_def prod_eq_iff)
  from store_notifs.save_ok [OF store_ok_muted this]
  have "\<exists>n. FindByID NoFault note1 (srv_db s') = Inr n"
    by (auto simp: store_notif_repo_def muted_note_fields)
  ultimately show ?thesis
    using s' muted_contents(3) by (intro exI [of _ "muted_start\<lparr>sy_srv := s',
        sy_replies := sy_replies muted_start @ [(ex_request ChannelEmail, rsp)]\<rparr>"] exI [of _ m])
      (simp add: muted_start_def)
qed

text \<open>The SMS worker, the first to read it, delivers it; then the email worker takes it and the process dies.\<close>

lemma muted_delivered:
  obtains \<sigma> m where "reachable example_deployment ks_map again \<sigma>" "sy_jobs \<sigma> = (\<lambda>_. None)"
    "sy_offset \<sigma> = (\<lambda>_. Some 0)(ChannelSMS \<mapsto> 1)" "broker_log (srv_broker (sy_srv \<sigma>)) = [m]"
    "msg_topic m = ''notifications''" "unmarshal_notification (msg_value m) = Some muted_note"
    "sent_in (logs (sy_db \<sigma>)) note1" "\<exists>n. FindByID NoFault note1 (sy_db \<sigma>) = Inr n"
    "\<forall>c \<in> set all_channels. sends_on c note1 (sy_out \<sigma>) = (if c = ChannelSMS then 1 else 0)"
proof -
  obtain \<sigma> m where \<sigma>: "reachable example_deployment ks_map again \<sigma>" "sy_jobs \<sigma> = (\<lambda>_. None)"
      "sy_offset \<sigma> = (\<lambda>_. Some 0)" "sy_out \<sigma> = []" "logs (sy_db \<sigma>) = []"
      "broker_log (srv_broker (sy_srv \<sigma>)) = [m]" "msg_topic m = ''notifications''"
      "unmarshal_notification (msg_value m) = Some muted_note"
      "\<exists>n. FindByID NoFault note1 (sy_db \<sigma>) = Inr n"
    using muted_queued by blast
  obtain w where w: "dp_workers example_deployment ChannelSMS = Some w"
      "rc_topic (cons_reader (w_consumer w)) = ''notifications''"
    using start_workers_sms by blast
  have q: "queue example_deployment w \<sigma> = [m]"
    using \<sigma>(6,7) w(2) by (simp add: queue_def example_deployment_def)
  have read: "ReadOne (dp_complaint example_deployment) (w_consumer w)
      (Inr (msg_value (queue example_deployment w \<sigma> ! 0), int 0)) = Inr muted_note"
    using \<sigma>(8) q by (simp add: ReadOne_def)
  have tok: "\<not> token_panics ChannelSMS muted_note" by (simp add: token_panics_def channel_defs)
  have idle: "example.idle \<sigma>" using \<sigma>(2) by (simp add: example.idle_def)
  have off: "sy_offset \<sigma> ChannelSMS = Some 0" using \<sigma>(3) by simp
  have len: "0 < length (queue example_deployment w \<sigma>)" using q by simp
  have fresh: "uuid_in (notif_id muted_note) = Some note1" "\<not> sent_in (logs (sy_db \<sigma>)) note1"
      "uuid_in (pe_log_id (calm_env log1)) = Some log1" "log1 \<notin> dlog_id ` set (logs (sy_db \<sigma>))"
    using \<sigma>(5) uuid_examples by (simp_all add: muted_note_fields)
  have none: "sends_on c note1 (sy_out \<sigma>) = 0" for c using \<sigma>(4) by (simp add: sends_on_def)
  from example.head_delivered [OF \<sigma>(1) idle w(1) off len read fresh(1,2) muted_contents(4) tok _ fresh(3,4)]
  show thesis using \<sigma> none by (auto simp: example.idle_def intro: that)
qed

lemma start_workers_email:
  "\<exists>w. dp_workers example_deployment ChannelEmail = Some w \<and>
     rc_topic (cons_reader (w_consumer w)) = ''notifications''"
  by (simp add: example_deployment_def start_workers_def senders_at NewConsumer_def topic_route_def
      worker_New_def)

lemma muted_crashed:
  obtains \<sigma> where "reachable example_deployment ks_map again \<sigma>"
    "topic_ids example_deployment \<sigma> = [Some note1]" "sent_in (logs (sy_db \<sigma>)) note1"
    "sends_on ChannelSMS note1 (sy_out \<sigma>) = 1" "sy_offset \<sigma> ChannelEmail = Some 1"
    "sy_jobs \<sigma> = (\<lambda>_. None)"
proof -
  obtain \<sigma> m where \<sigma>: "reachable example_deployment ks_map again \<sigma>" "sy_jobs \<sigma> = (\<lambda>_. None)"
      "sy_offset \<sigma> = (\<lambda>_. Some 0)(ChannelSMS \<mapsto> 1)" "broker_log (srv_broker (sy_srv \<sigma>)) = [m]"
      "msg_topic m = ''notifications''" "unmarshal_notification (msg_value m) = Some muted_note"
      "sent_in (logs (sy_db \<sigma>)) note1" "\<exists>n. FindByID NoFault note1 (sy_db \<sigma>) = Inr n"
      "\<forall>c \<in> set all_channels. sends_on c note1 (sy_out \<sigma>) = (if c = ChannelSMS then 1 else 0)"
    by (rule muted_delivered [of again])
  obtain w where w: "dp_workers example_deployment ChannelEmail = Some w"
      "rc_topic (cons_reader (w_consumer w)) = ''notifications''"
    using start_workers_email by blast
  have q: "queue example_deployment w \<sigma> = [m]"
    using \<sigma>(4,5) w(2) by (simp add: queue_def example_deployment_def)
  have ids: "topic_ids example_deployment \<sigma> = [Some note1]"
    using \<sigma>(4,6) uuid_examples
    by (simp add: topic_ids_def msg_id_def example_deployment_def muted_note_fields)
  have sms: "sends_on ChannelSMS note1 (sy_out \<sigma>) = 1" using \<sigma>(9) by (simp add: all_channels_def)
  let ?\<sigma>1 = "\<sigma>\<lparr>sy_offset := (sy_offset \<sigma>)(ChannelEmail \<mapsto> Suc 0),
      sy_jobs := (sy_jobs \<sigma>)(ChannelEmail \<mapsto> (calm_env log1, muted_note, Checking))\<rparr>"
  have "reachable example_deployment ks_map again ?\<sigma>1"
    by (rule Next [OF \<sigma>(1)], rule Take [OF w(1)])
       (use \<sigma>(2,3,6) q in \<open>simp_all add: crashed_def ReadOne_def channel_defs\<close>)
  then have "reachable example_deployment ks_map again (?\<sigma>1\<lparr>sy_jobs := \<lambda>_. None\<rparr>)"
    by (rule Next) (rule Crash)
  then show thesis by (rule that) (use \<sigma>(7) ids sms in \<open>simp_all add: topic_ids_def\<close>)
qed

end
