(* ===== verification/Admission.thy ===== *)
theory Admission
  imports System
begin

section \<open>The limit under concurrent requests\<close>

text \<open>
  \<open>INCR\<close> is atomic, so the limit of one user on one channel holds however the commands of concurrent
  requests interleave.  A request holds a permit from the command that granted it until its reply; the
  lemmas follow the number of permits and of accepted requests against the counter in Redis.
\<close>

definition asks :: "string \<Rightarrow> channel \<Rightarrow> request \<Rightarrow> bool" where
  "asks u c req \<longleftrightarrow>
     (case decode_send_request (rq_body req) of
        None \<Rightarrow> False
      | Some r \<Rightarrow> sr_user_id r = u \<and> sr_channel r = c)"

definition accepted :: "string \<Rightarrow> channel \<Rightarrow> (request \<times> response) list \<Rightarrow> nat" where
  "accepted u c rs = length (filter (\<lambda>(req, rsp). asks u c req \<and> status_of rsp = 202) rs)"

lemma accepted_simps [simp]:
  "accepted u c [] = 0" "accepted u c (xs @ ys) = accepted u c xs + accepted u c ys"
  "accepted u c [(req, rsp)] = (if asks u c req \<and> status_of rsp = 202 then 1 else 0)"
  by (simp_all add: accepted_def)

text \<open>The run of \<open>n\<close> steps through states where \<open>P\<close> holds.\<close>

inductive within ::
    "('r, 'k) deployment \<Rightarrow> bool \<Rightarrow> (('r, 'k) system \<Rightarrow> bool) \<Rightarrow> ('r, 'k) system \<Rightarrow> nat \<Rightarrow> ('r, 'k) system \<Rightarrow> bool"
  for D again P \<sigma> where
  Here: "within D again P \<sigma> 0 \<sigma>"
| Step: "within D again P \<sigma> n \<sigma>1 \<Longrightarrow> sys_step D again \<sigma>1 \<sigma>2 \<Longrightarrow> P \<sigma>2 \<Longrightarrow> within D again P \<sigma> (Suc n) \<sigma>2"

lemma within_reachable:
  "within D again P \<sigma> n \<sigma>' \<Longrightarrow> reachable D entry again \<sigma> \<Longrightarrow> reachable D entry again \<sigma>'"
  by (induction rule: within.induct) (auto intro: reachable.Next)

lemma within_holds: "within D again P \<sigma> n \<sigma>' \<Longrightarrow> P \<sigma> \<Longrightarrow> P \<sigma>'"
  by (induction rule: within.induct) simp_all

text \<open>
  Time within \<open>len\<close> of \<open>t0\<close>, and no failing command of the limiter for this user on this channel.
\<close>

definition in_window ::
    "('r \<Rightarrow> int) \<Rightarrow> int \<Rightarrow> int \<Rightarrow> string \<Rightarrow> channel \<Rightarrow> ('r, 'k) system \<Rightarrow> bool" where
  "in_window clock t0 len u c \<sigma> \<longleftrightarrow>
     t0 \<le> clock (srv_redis (sy_srv \<sigma>)) \<and> clock (srv_redis (sy_srv \<sigma>)) < t0 + len \<and>
     (\<forall>k e req pc. sy_conns \<sigma> k = Some (e, req, pc) \<longrightarrow> asks u c req \<longrightarrow>
        ae_incr e = NoFault \<and> ae_expire e = NoFault)"

definition pending :: "string \<Rightarrow> channel \<Rightarrow> ('r, 'k) system \<Rightarrow> bool" where
  "pending u c \<sigma> \<longleftrightarrow> (\<exists>k e req pc. sy_conns \<sigma> k = Some (e, req, pc) \<and> asks u c req)"

text \<open>A request of this user on this channel that may still be accepted.\<close>

fun holding :: "int \<Rightarrow> remote_pc \<Rightarrow> bool" where
  "holding lim (Limiting r a) = (1 \<le> lim)"
| "holding lim (At Arrived) = False"
| "holding lim (At (Replied x)) = (status_of x = 202)"
| "holding lim pc = True"

definition permit ::
    "int \<Rightarrow> string \<Rightarrow> channel \<Rightarrow> (cache_faults api_env \<times> request \<times> remote_pc) option \<Rightarrow> bool" where
  "permit lim u c x = (case x of None \<Rightarrow> False | Some (e, req, pc) \<Rightarrow> asks u c req \<and> holding lim pc)"

lemma permit_simps [simp]:
  "permit lim u c None = False"
  "permit lim u c (Some (e, req, pc)) \<longleftrightarrow> asks u c req \<and> holding lim pc"
  by (simp_all add: permit_def)

definition permits ::
    "int \<Rightarrow> string \<Rightarrow> channel \<Rightarrow> (nat \<Rightarrow> (cache_faults api_env \<times> request \<times> remote_pc) option) \<Rightarrow> int" where
  "permits lim u c conns = int (card {k. permit lim u c (conns k)})"

lemma permits_none [simp]: "permits lim u c (\<lambda>_. None) = 0"
  by (simp add: permits_def)

lemma permits_upd:
  assumes "finite (dom conns)"
  shows "permits lim u c (conns(k := x)) =
    permits lim u c conns - (if permit lim u c (conns k) then 1 else 0) + (if permit lim u c x then 1 else 0)"
proof -
  have fin: "finite {k. permit lim u c (conns k)}"
    using assms by (rule rev_finite_subset) (auto simp: permit_def split: option.splits)
  have upd: "{k'. permit lim u c ((conns(k := x)) k')} =
      (if permit lim u c x then insert k {k. permit lim u c (conns k)} else {k. permit lim u c (conns k)} - {k})"
    by auto
  have "int (card (S - {k})) = int (card S) - (if k \<in> S then 1 else 0)" if "finite S" for S
    using that card_Suc_Diff1 [of S k] by (cases "k \<in> S") auto
  then show ?thesis
    using fin unfolding permits_def upd by (auto simp: card_insert_if)
qed

fun counting :: "remote_pc \<Rightarrow> bool" where
  "counting (At Arrived) = True"
| "counting (Limiting r a) = True"
| "counting pc = False"

lemma permits_nonneg: "0 \<le> permits lim u c conns"
  by (simp add: permits_def)

subsection \<open>The counter\<close>

text \<open>
  The counter of a window that ends at \<open>t\<close>: not there yet, or a positive number of at most \<open>n\<close> that does
  not expire before \<open>t\<close>.
\<close>

definition counter_ok :: "int \<Rightarrow> nat \<Rightarrow> 'b entry option \<Rightarrow> bool" where
  "counter_ok t n x \<longleftrightarrow>
     (case x of
        None \<Rightarrow> True
      | Some (Num m, exp) \<Rightarrow> 0 < m \<and> m \<le> int n \<and> (\<forall>d. exp = Some d \<longrightarrow> t \<le> d)
      | Some (Blob b, exp) \<Rightarrow> False)"

lemma counter_simps [simp]:
  "counter_ok t n None"
  "counter_ok t n (Some (Num m, exp)) \<longleftrightarrow> 0 < m \<and> m \<le> int n \<and> (\<forall>d. exp = Some d \<longrightarrow> t \<le> d)"
  "\<not> counter_ok t n (Some (Blob b, exp))"
  by (simp_all add: counter_ok_def)

lemma counter_cases:
  assumes "counter_ok t n x"
  obtains "x = None" | m exp where "x = Some (Num m, exp)" "0 < m" "m \<le> int n" "\<forall>d. exp = Some d \<longrightarrow> t \<le> d"
proof (cases x)
  case (Some y)
  with assms show thesis using that(2) by (cases y; cases "fst y") auto
qed (use that(1) in simp)

lemma counter_later: "counter_ok t n x \<Longrightarrow> n \<le> n' \<Longrightarrow> counter_ok t n' x"
  by (erule counter_cases) auto

lemma at_after_allow:
  assumes "at (after_allow lg fresh_response r ans s) = (pc', s')"
  shows "holding lim pc' \<longleftrightarrow> fst ans" "srv_redis s' = srv_redis s"
proof -
  obtain q s1 where q: "after_allow lg fresh_response r ans s = (q, s1)" by fastforce
  have "holding lim (At q) \<longleftrightarrow> fst ans"
    using q by (auto simp: after_allow_def Let_def split: prod.splits if_splits)
  moreover have "srv_redis s1 = srv_redis s" using after_simps(3) [of lg fresh_response r ans s] q by simp
  ultimately show "holding lim pc' \<longleftrightarrow> fst ans" "srv_redis s' = srv_redis s" using assms q by auto
qed

context deployed
begin

lemma limit_counter:
  fixes r
  defines "k \<equiv> rate_key (sr_user_id r) (sr_channel r)"
  assumes run: "limit_step (dp_libs D) (dp_handler D) e fresh_response r a s = (pc', s')"
    and a: "a = Counting \<or> a = Expiring 1 \<and> entry (srv_redis s) k \<noteq> None"
    and calm: "ae_incr e = NoFault" "ae_expire e = NoFault" and ws: "whole_seconds (window l)"
    and cnt: "counter_ok t n (entry (srv_redis s) k)" "int n < max_int64"
      "t \<le> clock (srv_redis s) + sint (window l)"
  shows "counter_ok t (Suc n) (entry (srv_redis s') k) \<and> entry (srv_redis s') k \<noteq> None \<and>
    quota (limit l) (entry (srv_redis s') k) + (if holding (limit l) pc' then 1 else 0) =
    quota (limit l) (entry (srv_redis s) k) + (if a = Expiring 1 \<and> 1 \<le> limit l then 1 else 0)"
proof -
  have h: "h_limiter (dp_handler D) = l" "lib_redis (dp_libs D) = R" by (simp_all add: its_handler libs)
  show ?thesis
    using a
  proof (elim disjE conjE)
    assume a: "a = Counting"
    from cnt(1) show ?thesis
    proof (cases rule: counter_cases)
      case 1
      obtain r1 where "r_incr R NoFault k (srv_redis s) = (Inr 1, r1)"
          "entry r1 = (entry (srv_redis s))(k \<mapsto> (Num 1, None))"
        using incr_new [OF 1] by blast
      with 1 a run calm h show ?thesis by (auto simp: limit_step_def k_def)
    next
      case (2 m exp)
      then have "m < max_int64" using cnt(2) by simp
      then obtain r1 where "r_incr R NoFault k (srv_redis s) = (Inr (m + 1), r1)"
          "entry r1 = (entry (srv_redis s))(k \<mapsto> (Num (m + 1), exp))"
        using incr_num [OF 2(1)] by blast
      with 2 a run calm h have "at (after_allow (request_log (dp_handler D)) fresh_response r
            (m + 1 \<le> limit l, None) (s\<lparr>srv_redis := r1\<rparr>)) = (pc', s')"
          "entry r1 k = Some (Num (m + 1), exp)"
        by (auto simp: limit_step_def k_def)
      from at_after_allow [OF this(1)] this(2)
      have "holding (limit l) pc' = (m + 1 \<le> limit l)" "entry (srv_redis s') k = Some (Num (m + 1), exp)"
        by simp_all
      with 2 a show ?thesis by simp
    qed
  next
    assume a: "a = Expiring 1" and some: "entry (srv_redis s) k \<noteq> None"
    from cnt(1) some obtain m exp where e: "entry (srv_redis s) k = Some (Num m, exp)" "0 < m" "m \<le> int n"
      by (cases rule: counter_cases) auto
    obtain r2 where "r_expire R NoFault k (window l) (srv_redis s) = (None, r2)"
        "entry r2 = (entry (srv_redis s))(k \<mapsto> (Num m, Some (clock (srv_redis s) + sint (window l))))"
      using expire_set [OF e(1) ws] by blast
    with a run calm h have "at (after_allow (request_log (dp_handler D)) fresh_response r
          (1 \<le> limit l, None) (s\<lparr>srv_redis := r2\<rparr>)) = (pc', s')"
        "entry r2 k = Some (Num m, Some (clock (srv_redis s) + sint (window l)))"
      by (auto simp: limit_step_def k_def)
    from at_after_allow [OF this(1)] this(2)
    have "holding (limit l) pc' = (1 \<le> limit l)"
        "entry (srv_redis s') k = Some (Num m, Some (clock (srv_redis s) + sint (window l)))"
      by simp_all
    with e a cnt(3) show ?thesis by simp
  qed
qed

lemma limit_keys:
  assumes "limit_step (dp_libs D) (dp_handler D) e fresh_response r a s = (pc', s')"
    and "a = Counting \<or> a = Expiring 1"
  shows "clock (srv_redis s') = clock (srv_redis s)"
    "k \<noteq> rate_key (sr_user_id r) (sr_channel r) \<Longrightarrow> entry (srv_redis s') k = entry (srv_redis s) k"
proof -
  have R: "lib_redis (dp_libs D) = R" by (simp add: libs)
  have "\<exists>a' r1. allow_step R (h_limiter (dp_handler D)) (ae_incr e) (ae_expire e) (sr_user_id r)
      (sr_channel r) (a, srv_redis s) = (a', r1) \<and> srv_redis s' = r1"
    using assms
  proof (cases rule: limit_step_cases)
    case (first r1)
    then show ?thesis by (auto simp: R)
  next
    case (decided ans)
    then show ?thesis by (auto simp: R)
  qed
  then show "clock (srv_redis s') = clock (srv_redis s)"
    "k \<noteq> rate_key (sr_user_id r) (sr_channel r) \<Longrightarrow> entry (srv_redis s') k = entry (srv_redis s) k"
    using allow_step_frame by metis+
qed

text \<open>Only the limiter's own commands change a counter, and only that of the request's user and channel.\<close>

lemma serve_keys:
  assumes ok: "store_ok (srv_db s)" and coh: "coherent (srv_db s) (entry (srv_redis s))"
    and sane: "\<not> no_rows_fault (db_fault (ae_prefs e))" and vet: "carried (srv_db s) req pc"
    and run: "remote_step (dp_libs D) (dp_ttl D) (dp_handler D) e req fresh_response (pc, s) = (pc', s')"
    and colon: "CHR '':'' \<notin> set c"
  shows "clock (srv_redis s') = clock (srv_redis s) \<and>
    (\<not> asks u c req \<or> \<not> counting pc \<longrightarrow> entry (srv_redis s') (rate_key u c) = entry (srv_redis s) (rate_key u c)) \<and>
    (\<not> counting pc \<longrightarrow> \<not> counting pc' \<and> (holding lim pc' \<longrightarrow> holding lim pc))"
proof -
  have limit: ?thesis if lim: "limit_step (dp_libs D) (dp_handler D) e fresh_response r a s = (pc', s')"
      "a = Counting \<or> a = Expiring 1" and r: "check_request req fresh_response = Inr r" and "counting pc" for r a
  proof -
    have "sr_channel r \<in> set validChannels" "decode_send_request (rq_body req) = Some r"
      using r by (auto simp: check_request_def split: option.splits if_splits)
    then have "CHR '':'' \<notin> set (sr_channel r)" "asks u c req \<longleftrightarrow> sr_user_id r = u \<and> sr_channel r = c"
      by (auto simp: asks_def validChannels_def channel_defs)
    then have "rate_key u c \<noteq> rate_key (sr_user_id r) (sr_channel r)" if "\<not> asks u c req"
      using that rate_key_inj colon by metis
    then show ?thesis using limit_keys [OF lim] that(4) by blast
  qed
  have look: ?thesis if "lookup_step (dp_libs D) ttl (dp_handler D) e fresh_response r q s = (pc', s')"
      "sure (FindUserByID NoFault (sr_user_id r) (srv_db s)) q" "holding lim pc" "\<not> counting pc" for r q
    using libs(1) ok coh that(2,1)
    by (cases rule: lookup_step_cases) (use that(3,4) in auto)
  have choose: ?thesis if "prefer_step (dp_libs D) ttl (dp_handler D) e fresh_response r u' q s = (pc', s')"
      "sure (FindPreferences NoFault (sr_user_id r) (srv_db s)) q" "holding lim pc" "\<not> counting pc" for r u' q
  proof -
    have fresh: "rsp_sent fresh_response = None" by simp
    from libs(1) ok coh that(2) sane fresh that(1) show ?thesis
      by (cases rule: prefer_step_cases) (use that(3,4) in auto)
  qed
  note run = run [unfolded its_handler(2)]
  show ?thesis
  proof (cases pc)
    case (At q)
    show ?thesis
    proof (cases q)
      case Arrived
      show ?thesis
      proof (cases "check_request req fresh_response")
        case (Inl x)
        with At Arrived run show ?thesis by (auto simp: remote_simps)
      next
        case (Inr r)
        with At Arrived run show ?thesis by (intro limit [of r Counting]) (simp_all add: remote_simps)
      qed
    next
      case (Finding r)
      with At run vet show ?thesis by (intro look [of r Getting]) (simp_all add: remote_simps)
    next
      case (Choosing r u')
      with At run vet show ?thesis by (intro choose [of r u' Getting]) (simp_all add: remote_simps)
    next
      case (Saving r u')
      then obtain q' where q': "pc' = At q'"
          "request_step (dp_libs D) (dp_handler D) e req fresh_response (q, s) = (q', s')"
        using run At by (auto simp: remote_simps at_def split: prod.splits)
      from q'(2) have "srv_redis s' = srv_redis s \<and> q' \<noteq> Arrived"
        using Saving by (auto simp: request_steps Let_def split: prod.splits option.splits)
      then show ?thesis using At Saving q'(1) by (cases q') auto
    next
      case (Publishing r u')
      then obtain q' where q': "pc' = At q'"
          "request_step (dp_libs D) (dp_handler D) e req fresh_response (q, s) = (q', s')"
        using run At by (auto simp: remote_simps at_def split: prod.splits)
      from q'(2) have "srv_redis s' = srv_redis s \<and> q' \<noteq> Arrived"
        using Publishing by (auto simp: request_steps Let_def split: prod.splits option.splits)
      then show ?thesis using At Publishing q'(1) by (cases q') auto
    next
      case (Replied x)
      with At run show ?thesis by (simp add: remote_simps)
    qed
  next
    case (Limiting r a)
    with run vet show ?thesis by (intro limit [of r a]) (simp_all add: remote_simps)
  next
    case (Looking r q)
    with run vet show ?thesis by (intro look [of r q]) (simp_all add: remote_simps)
  next
    case (Preferring r u' q)
    with run vet show ?thesis by (intro choose [of r u' q]) (simp_all add: remote_simps)
  qed
qed

text \<open>What holds at every step of a window that ends at \<open>t\<close>.\<close>

definition admission ::
    "string \<Rightarrow> channel \<Rightarrow> int \<Rightarrow> int \<Rightarrow> nat \<Rightarrow> ('r, 'k) system \<Rightarrow> int \<Rightarrow> bool" where
  "admission u c t0 t n \<sigma> bound \<longleftrightarrow>
     (let x = entry (srv_redis (sy_srv \<sigma>)) (rate_key u c) in
      t0 \<le> clock (srv_redis (sy_srv \<sigma>)) \<and> counter_ok t n x \<and> finite (dom (sy_conns \<sigma>)) \<and>
      (\<forall>k e req pc. sy_conns \<sigma> k = Some (e, req, pc) \<longrightarrow> asks u c req \<longrightarrow>
         ae_incr e = NoFault \<and> ae_expire e = NoFault \<and> (counting pc \<longrightarrow> pc = At Arrived \<or> x \<noteq> None)) \<and>
      int (accepted u c (sy_replies \<sigma>)) + permits (limit l) u c (sy_conns \<sigma>) + quota (limit l) x \<le> bound)"

lemma limiting_request:
  assumes "remote_step (dp_libs D) (dp_ttl D) (dp_handler D) e req fresh_response (pc, s) = (pc', s')"
    and "carried (srv_db s) req pc" "counting pc" "asks u c req"
  obtains (rejected) x where "pc = At Arrived" "pc' = At (Replied x)" "status_of x \<noteq> 202" "s' = s"
  | (counted) r a where "limit_step (dp_libs D) (dp_handler D) e fresh_response r a s = (pc', s')"
      "rate_key (sr_user_id r) (sr_channel r) = rate_key u c"
      "a = Counting \<and> pc = At Arrived \<or> a = Expiring 1 \<and> pc = Limiting r a"
      "holding (limit l) pc \<longleftrightarrow> a = Expiring 1 \<and> 1 \<le> limit l"
proof -
  have key: "rate_key (sr_user_id r) (sr_channel r) = rate_key u c"
    if "check_request req fresh_response = Inr r" for r
    using assms(4) check_request_decodes [OF that] by (simp add: asks_def)
  show thesis
  proof (cases pc)
    case (At q)
    then have arrived: "q = Arrived" using assms(3) by (cases q) simp_all
    show thesis
    proof (cases "check_request req fresh_response")
      case (Inl x)
      then have "status_of x \<noteq> 202" by (auto simp: check_request_def split: option.splits if_splits)
      with Inl At arrived assms(1) show thesis by (intro rejected [of x]) (simp_all add: remote_simps)
    next
      case (Inr r)
      with At arrived assms(1) key [OF Inr] show thesis
        by (intro counted [of r Counting]) (simp_all add: remote_simps)
    qed
  next
    case (Limiting r a)
    with assms(1,2) key [of r] show thesis
      by (intro counted [of r a]) (simp_all add: remote_simps)
  qed (use assms(3) in simp_all)
qed

text \<open>A call of another request, or of one that is past the limiter.\<close>

lemma serve_aside:
  assumes at: "sy_conns \<sigma> k = Some (e, req, pc)"
    and run: "remote_step (dp_libs D) (dp_ttl D) (dp_handler D) e req fresh_response (pc, sy_srv \<sigma>) = (pc', srv)"
    and \<sigma>': "\<sigma>' = \<sigma>\<lparr>sy_srv := srv, sy_conns := (sy_conns \<sigma>)(k \<mapsto> (e, req, pc'))\<rparr>"
    and base: "base_ok \<sigma>" and inv: "admission u c t0 t n \<sigma> b" and now: "t0 \<le> clock (srv_redis (sy_srv \<sigma>'))"
    and calm: "\<And>k e req pc. sy_conns \<sigma>' k = Some (e, req, pc) \<Longrightarrow> asks u c req \<Longrightarrow>
      ae_incr e = NoFault \<and> ae_expire e = NoFault"
    and aside: "\<not> (asks u c req \<and> counting pc)" and colon: "CHR '':'' \<notin> set c"
  shows "admission u c t0 t (Suc n) \<sigma>' b"
proof -
  note old = inv [unfolded admission_def Let_def]
  have ok: "store_ok (sy_db \<sigma>)" "coherent (sy_db \<sigma>) (entry (srv_redis (sy_srv \<sigma>)))"
    using base by (simp_all add: base_ok_def)
  have "conn_ok \<sigma> (e, req, pc)" using base at by (simp add: base_ok_def conns_ok_def)
  then have vet: "\<not> no_rows_fault (db_fault (ae_prefs e))" "carried (sy_db \<sigma>) req pc"
    by (auto simp: conn_ok_def)
  note keys = serve_keys [OF ok vet run colon, of u "limit l"]
  from aside keys have same: "entry (srv_redis srv) (rate_key u c) = entry (srv_redis (sy_srv \<sigma>)) (rate_key u c)"
    by blast
  have fin: "finite (dom (sy_conns \<sigma>))" "finite (dom (sy_conns \<sigma>'))" using old by (simp_all add: \<sigma>')
  have "permits (limit l) u c (sy_conns \<sigma>') \<le> permits (limit l) u c (sy_conns \<sigma>)"
    using permits_upd [OF fin(1), of "limit l" u c k "Some (e, req, pc')"] aside keys by (auto simp: \<sigma>' at)
  moreover have "ae_incr e' = NoFault \<and> ae_expire e' = NoFault \<and>
      (counting pc1 \<longrightarrow> pc1 = At Arrived \<or> entry (srv_redis srv) (rate_key u c) \<noteq> None)"
    if "sy_conns \<sigma>' k' = Some (e', req', pc1)" "asks u c req'" for k' e' req' pc1
    using that old calm [OF that] aside keys same by (auto simp: \<sigma>' split: if_splits)
  moreover have "counter_ok t (Suc n) (entry (srv_redis (sy_srv \<sigma>)) (rate_key u c))"
    by (rule counter_later [of t n]) (use old in blast, simp)
  ultimately show ?thesis
    using old now fin(2) same by (auto simp: admission_def Let_def \<sigma>')
qed

text \<open>A command of the limiter for this user and channel.\<close>

lemma serve_counted:
  assumes at: "sy_conns \<sigma> k = Some (e, req, pc)"
    and run: "remote_step (dp_libs D) (dp_ttl D) (dp_handler D) e req fresh_response (pc, sy_srv \<sigma>) = (pc', srv)"
    and \<sigma>': "\<sigma>' = \<sigma>\<lparr>sy_srv := srv, sy_conns := (sy_conns \<sigma>)(k \<mapsto> (e, req, pc'))\<rparr>"
    and base: "base_ok \<sigma>" and inv: "admission u c t0 t n \<sigma> b" and now: "t0 \<le> clock (srv_redis (sy_srv \<sigma>'))"
    and calm: "\<And>k e req pc. sy_conns \<sigma>' k = Some (e, req, pc) \<Longrightarrow> asks u c req \<Longrightarrow>
      ae_incr e = NoFault \<and> ae_expire e = NoFault"
    and asked: "counting pc" "asks u c req" and ws: "whole_seconds (window l)" and n: "int n < max_int64"
    and t: "t \<le> t0 + sint (window l)"
  shows "admission u c t0 t (Suc n) \<sigma>' b"
proof -
  note old = inv [unfolded admission_def Let_def]
  let ?x = "entry (srv_redis (sy_srv \<sigma>)) (rate_key u c)"
  have vet: "carried (sy_db \<sigma>) req pc"
    using base at by (fastforce simp: base_ok_def conns_ok_def conn_ok_def)
  have quiet: "ae_incr e = NoFault" "ae_expire e = NoFault" using old at asked(2) by blast+
  have fin: "finite (dom (sy_conns \<sigma>))" "finite (dom (sy_conns \<sigma>'))" using old by (simp_all add: \<sigma>')
  note upd = permits_upd [OF fin(1), of "limit l" u c k "Some (e, req, pc')"]
  from run vet asked show ?thesis
  proof (cases rule: limiting_request)
    case (rejected x)
    have "counter_ok t (Suc n) ?x" by (rule counter_later [of t n]) (use old in blast, simp)
    with rejected old upd fin calm show ?thesis
      by (auto simp: admission_def Let_def \<sigma>' at split: if_splits)
  next
    case (counted r a)
    have a: "a = Counting \<or> a = Expiring 1 \<and> ?x \<noteq> None"
      using counted(3) old at asked by fastforce
    have "t \<le> clock (srv_redis (sy_srv \<sigma>)) + sint (window l)" using old t by simp
    from limit_counter [OF counted(1), unfolded counted(2), OF a quiet ws _ n this] old
    have new: "counter_ok t (Suc n) (entry (srv_redis srv) (rate_key u c))"
        "entry (srv_redis srv) (rate_key u c) \<noteq> None"
        "quota (limit l) (entry (srv_redis srv) (rate_key u c)) + (if holding (limit l) pc' then 1 else 0) =
         quota (limit l) ?x + (if holding (limit l) pc then 1 else 0)"
      using counted(4) by simp_all
    have "permits (limit l) u c (sy_conns \<sigma>') + quota (limit l) (entry (srv_redis srv) (rate_key u c)) =
        permits (limit l) u c (sy_conns \<sigma>) + quota (limit l) ?x"
      using upd new(3) asked(2) by (simp add: \<sigma>' at)
    then show ?thesis
      using old new(1,2) now fin(2) calm by (auto simp: admission_def Let_def \<sigma>' split: if_splits)
  qed
qed

lemma step_admission:
  assumes step: "sys_step D again \<sigma> \<sigma>'" and base: "base_ok \<sigma>" and inv: "admission u c t0 t n \<sigma> b"
    and ws: "whole_seconds (window l)" and colon: "CHR '':'' \<notin> set c" and n: "int n < max_int64"
    and t: "t \<le> t0 + sint (window l)"
    and now: "t0 \<le> clock (srv_redis (sy_srv \<sigma>'))" "clock (srv_redis (sy_srv \<sigma>')) < t"
    and calm: "\<And>k e req pc. sy_conns \<sigma>' k = Some (e, req, pc) \<Longrightarrow> asks u c req \<Longrightarrow>
      ae_incr e = NoFault \<and> ae_expire e = NoFault"
  shows "admission u c t0 t (Suc n) \<sigma>' b"
proof -
  note old = inv [unfolded admission_def Let_def]
  have fin: "finite (dom (sy_conns \<sigma>))" using old by simp
  have later: "counter_ok t (Suc n) (entry (srv_redis (sy_srv \<sigma>)) (rate_key u c))"
    by (rule counter_later [of t n]) (use old in blast, simp)
  have frame: ?thesis if "srv_redis (sy_srv \<sigma>') = srv_redis (sy_srv \<sigma>)" "sy_conns \<sigma>' = sy_conns \<sigma>"
      "sy_replies \<sigma>' = sy_replies \<sigma>"
    using old later that by (simp add: admission_def)
  show ?thesis
    using step
  proof cases
    case (Arrive k e req)
    with old later calm [of k e req] permits_upd [OF fin, of "limit l" u c k] show ?thesis
      by (auto simp: admission_def Let_def split: if_splits)
  next
    case (Serve k e req pc pc' srv)
    show ?thesis
    proof (cases "asks u c req \<and> counting pc")
      case False
      show ?thesis by (rule serve_aside [OF Serve(2,3,1) base inv now(1) _ False colon]) (rule calm)
    next
      case True
      show ?thesis
        by (rule serve_counted [OF Serve(2,3,1) base inv now(1) _ True [THEN conjunct2] True [THEN conjunct1] ws n t])
          (rule calm)
    qed
  next
    case (Reply k e req rsp)
    have "permits (limit l) u c (sy_conns \<sigma>') = permits (limit l) u c (sy_conns \<sigma>) -
        (if asks u c req \<and> status_of rsp = 202 then 1 else 0)"
      using permits_upd [OF fin, of "limit l" u c k None] by (simp add: Reply)
    with old later show ?thesis by (auto simp: admission_def Let_def Reply split: if_splits)
  next
    case Outage
    with old later permits_nonneg [of "limit l" u c "sy_conns \<sigma>"] show ?thesis
      by (simp add: admission_def Let_def)
  next
    case (Tick dt)
    let ?x = "entry (srv_redis (sy_srv \<sigma>)) (rate_key u c)"
    have "clock (srv_redis (sy_srv \<sigma>)) + dt < t" using now(2) by (simp add: Tick advance_clock its_time)
    then have "\<not> expired (clock (srv_redis (sy_srv \<sigma>)) + dt) y" if "?x = Some y" for y
      using old that by (cases y; cases "fst y") (auto simp: expired_def split: option.splits)
    then have "entry (srv_redis (sy_srv \<sigma>')) (rate_key u c) = ?x"
      by (simp add: Tick its_time advance_entry split: option.split)
    with old later now(1) show ?thesis by (simp add: admission_def Let_def Tick)
  qed (rule frame; simp)+
qed

lemma reachable_finite: "reachable D entry again \<sigma> \<Longrightarrow> finite (dom (sy_conns \<sigma>))"
proof (induction rule: reachable.induct)
  case (Next \<sigma> \<sigma>')
  from Next(2,3) show ?case by cases (simp_all del: fun_upd_apply)
qed (simp add: initial_def)

lemma within_admission:
  assumes "within D again (in_window clock (clock (srv_redis (sy_srv \<sigma>))) (sint (window l)) u c) \<sigma> n \<sigma>'"
    and "reachable D entry again \<sigma>" "\<not> pending u c \<sigma>"
    and "whole_seconds (window l)" "CHR '':'' \<notin> set c" "int n < max_int64"
    and "entry (srv_redis (sy_srv \<sigma>)) (rate_key u c) = None"
  shows "admission u c (clock (srv_redis (sy_srv \<sigma>)))
    (clock (srv_redis (sy_srv \<sigma>)) + sint (window l)) n \<sigma>'
    (int (accepted u c (sy_replies \<sigma>)) + max 0 (limit l))"
  using assms(1,6)
proof (induction rule: within.induct)
  case Here
  have "{k. permit (limit l) u c (sy_conns \<sigma> k)} = {}"
    using assms(3) by (auto simp: permit_def pending_def split: option.splits)
  then have "permits (limit l) u c (sy_conns \<sigma>) = 0" by (simp add: permits_def)
  then show ?case
    using assms(3,7) reachable_finite [OF assms(2)] by (auto simp: admission_def Let_def pending_def)
next
  case (Step n \<sigma>1 \<sigma>2)
  have "base_ok \<sigma>1" by (rule reachable_base [OF within_reachable [OF Step.hyps(1) assms(2)]])
  from step_admission [OF Step.hyps(2) this Step.IH assms(4,5)] Step.hyps(3) Step.prems
  show ?case by (auto simp: in_window_def)
qed

lemma Serve_within:
  assumes "within D again (in_window clock t0 len u c) \<sigma>0 n \<sigma>" "reachable D entry again \<sigma>0"
    and "in_window clock t0 len u c \<sigma>" "sy_conns \<sigma> k = Some (e, req, pc)" "CHR '':'' \<notin> set c"
    and "(remote_step (dp_libs D) (dp_ttl D) (dp_handler D) e req fresh_response ^^ j) (pc, sy_srv \<sigma>) = (pc', srv)"
  shows "within D again (in_window clock t0 len u c) \<sigma>0 (j + n)
    (\<sigma>\<lparr>sy_srv := srv, sy_conns := (sy_conns \<sigma>)(k \<mapsto> (e, req, pc'))\<rparr>)"
  using assms(1,3,4,6)
proof (induction j arbitrary: pc \<sigma> n)
  case 0
  then have "\<sigma>\<lparr>sy_srv := srv, sy_conns := (sy_conns \<sigma>)(k \<mapsto> (e, req, pc'))\<rparr> = \<sigma>"
    by (simp add: fun_upd_idem)
  with 0(1) show ?case by (simp del: fun_upd_apply)
next
  case (Suc j)
  obtain pc1 s1 where one:
    "remote_step (dp_libs D) (dp_ttl D) (dp_handler D) e req fresh_response (pc, sy_srv \<sigma>) = (pc1, s1)" by fastforce
  let ?\<sigma>1 = "\<sigma>\<lparr>sy_srv := s1, sy_conns := (sy_conns \<sigma>)(k \<mapsto> (e, req, pc1))\<rparr>"
  have base: "base_ok \<sigma>" by (rule reachable_base [OF within_reachable [OF Suc.prems(1) assms(2)]])
  then have "conn_ok \<sigma> (e, req, pc)" using Suc.prems(3) by (simp add: base_ok_def conns_ok_def)
  with base have "clock (srv_redis s1) = clock (srv_redis (sy_srv \<sigma>))"
    using serve_keys [OF _ _ _ _ one assms(5)] by (auto simp: base_ok_def conn_ok_def)
  with Suc.prems(2,3) have window: "in_window clock t0 len u c ?\<sigma>1"
    by (auto simp: in_window_def)
  have next_run: "within D again (in_window clock t0 len u c) \<sigma>0 (Suc n) ?\<sigma>1"
    by (rule within.Step [OF Suc.prems(1) Serve [OF Suc.prems(3) one] window])
  have "(remote_step (dp_libs D) (dp_ttl D) (dp_handler D) e req fresh_response ^^ j) (pc1, sy_srv ?\<sigma>1) = (pc', srv)"
    using Suc.prems(4) one by (simp add: funpow_swap1)
  from Suc.IH [OF next_run window _ this] show ?case by (simp cong: if_cong)
qed

end

text \<open>
  C4 (bounds).  The rate limit holds end to end and under concurrency: in a run of the whole system
  through one window, whatever requests of all users arrive and however their Redis commands, the
  workers' calls, crashes and the passing of time interleave, at most \<open>limit\<close> more requests of one user
  id on one channel are answered 202, if there was no live counter and none of them under way when the
  window opened and no \<open>INCR\<close> or \<open>EXPIRE\<close> of theirs fails (the limiter fails open); the cache's use of the
  same Redis does not disturb the count.
\<close>

theorem accepted_within_limit:
  assumes "deployed R entry clock advance ttl put topic_log D p l lg" "reachable D entry again \<sigma>"
    and "whole_seconds (window l)" "CHR '':'' \<notin> set c" "int n < max_int64"
    and "entry (srv_redis (sy_srv \<sigma>)) (rate_key u c) = None" "\<not> pending u c \<sigma>"
    and "within D again (in_window clock (clock (srv_redis (sy_srv \<sigma>))) (sint (window l)) u c) \<sigma> n \<sigma>'"
  shows "int (accepted u c (sy_replies \<sigma>')) \<le> int (accepted u c (sy_replies \<sigma>)) + max 0 (limit l)"
  using deployed.within_admission [OF assms(1,8,2,7,3-6)] permits_nonneg [of "limit l" u c "sy_conns \<sigma>'"]
    quota_nonneg [of "limit l" "entry (srv_redis (sy_srv \<sigma>')) (rate_key u c)"]
  unfolding deployed.admission_def [OF assms(1)] Let_def by linarith

lemma muted_window:
  "in_window ks_now (ks_now (srv_redis (sy_srv muted_start))) (sint (window (NewLimiter 100 Hour))) =
   in_window ks_now (ks_now (ks_empty show_int)) (sint Hour)"
  by (simp add: muted_start_def NewLimiter_def)

theorem accepted_within_limit_witness:
  "\<exists>n \<sigma>. within example_deployment False (in_window ks_now (ks_now (ks_empty show_int)) (sint Hour) alice ChannelEmail)
      muted_start n \<sigma> \<and> sy_conns \<sigma> 1 \<noteq> None \<and>
    accepted alice ChannelEmail (sy_replies \<sigma>) = 1 \<and> accepted alice ChannelEmail (sy_replies \<sigma>) \<le> 100"
proof -
  let ?e = "ex_env note1" and ?q = "ex_request ChannelEmail" and ?D = example_deployment
  let ?P = "in_window ks_now (ks_now (ks_empty show_int)) (sint Hour) alice ChannelEmail"
  let ?c1 = "(\<lambda>_. None)(0 \<mapsto> (?e, ?q, At Arrived))"
  let ?\<sigma>1 = "muted_start\<lparr>sy_conns := ?c1\<rparr>"
  let ?\<sigma>2 = "muted_start\<lparr>sy_conns := ?c1(1 \<mapsto> (?e, ?q, At Arrived))\<rparr>"
  obtain rsp srv where req: "SendNotification ex_libs ex_handler ?e ?q fresh_response (ex_server db_muted) = (rsp, srv)"
      "status_of rsp = 202"
    using muted_accepted by blast
  let ?\<sigma>3 = "?\<sigma>2\<lparr>sy_srv := srv, sy_conns := (sy_conns ?\<sigma>2)(0 \<mapsto> (?e, ?q, At (Replied rsp)))\<rparr>"
  let ?\<sigma>4 = "?\<sigma>3\<lparr>sy_conns := (sy_conns ?\<sigma>3)(0 := None), sy_replies := [(?q, rsp)]\<rparr>"
  have P: "?P muted_start" "?P ?\<sigma>1" "?P ?\<sigma>2"
    by (simp_all add: in_window_def muted_start_def Hour_def split: if_split)
  have start: "reachable ?D ks_map False muted_start" by (rule muted_reachable)
  have "within ?D False ?P muted_start (Suc 0) ?\<sigma>1"
    using Arrive [of muted_start 0 ?e ?D False ?q]
    by (intro within.Step [where P = ?P, OF within.Here _ P(2)]) (simp add: muted_start_def no_rows_fault_def)
  then have two: "within ?D False ?P muted_start (Suc (Suc 0)) ?\<sigma>2"
    using Arrive [of ?\<sigma>1 1 ?e ?D False ?q]
    by (intro within.Step [where P = ?P, OF _ _ P(3)]) (simp_all add: muted_start_def no_rows_fault_def)
  have parts: "dp_libs ?D = ex_libs" "dp_ttl ?D = 5 * Minute" "dp_handler ?D = ex_handler"
      "sy_srv ?\<sigma>2 = ex_server db_muted" "h_user_cache ex_handler = NewUserCache (lib_redis ex_libs) (5 * Minute)"
    by (simp_all add: example_deployment_def muted_start_def)
  have run: "(remote_step (dp_libs ?D) (dp_ttl ?D) (dp_handler ?D) ?e ?q fresh_response ^^ (10 + 0)) (At Arrived, sy_srv ?\<sigma>2) =
      (At (Replied rsp), srv)"
    unfolding parts(1-4) remote_run_end [OF parts(5)] req(1) by (rule prod.case)
  have "sy_conns ?\<sigma>2 0 = Some (?e, ?q, At Arrived)" "CHR '':'' \<notin> set ChannelEmail"
    by (simp_all add: ChannelEmail_def)
  from example.Serve_within [OF two start P(3) this run]
  have three: "within ?D False ?P muted_start ((10 + 0) + Suc (Suc 0)) ?\<sigma>3" .
  have "ks_now (ks_empty show_int) \<le> ks_now (srv_redis srv)"
      "ks_now (srv_redis srv) < ks_now (ks_empty show_int) + sint Hour"
    using within_holds [OF three P(1)] by (simp_all add: in_window_def)
  then have "?P ?\<sigma>4" by (simp add: in_window_def split: if_split)
  then have four: "within ?D False ?P muted_start (Suc ((10 + 0) + Suc (Suc 0))) ?\<sigma>4"
    using Reply [of ?\<sigma>3 0 ?e ?q rsp ?D False] by (intro within.Step [where P = ?P, OF three]) (simp_all add: muted_start_def)
  have "int (accepted alice ChannelEmail (sy_replies ?\<sigma>4)) \<le>
      int (accepted alice ChannelEmail (sy_replies muted_start)) + max 0 (limit (NewLimiter 100 Hour))"
    by (rule accepted_within_limit [OF example.deployed_axioms start _ _ _ _ _ four [folded muted_window]])
       (simp_all add: muted_start_def pending_def whole_seconds_def NewLimiter_def Hour_def ChannelEmail_def
         max_int64_def ks_empty_def)
  moreover have "accepted alice ChannelEmail (sy_replies ?\<sigma>4) = 1"
    using req(2) by (simp add: accepted_def asks_def ex_decodes)
  ultimately show ?thesis using four by (intro exI [of _ "Suc ((10 + 0) + Suc (Suc 0))"] exI [of _ ?\<sigma>4]) simp
qed

end
