(* ===== verification/Replies.thy ===== *)
theory Replies
  imports System
begin

section \<open>What an accepted request promises\<close>

text \<open>
  The answers of the running system against its database and its topic.  The lemmas carry what a request
  has established from call to call, while other requests and the workers change the same tables.
\<close>

text \<open>A notification for this user's contact data on a channel he wants, with its row in the table.\<close>

definition fit :: "database \<Rightarrow> notification \<Rightarrow> bool" where
  "fit db n \<longleftrightarrow>
     (\<exists>u prefs i.
        FindUserByID NoFault (notif_user_id n) db = Inr u \<and>
        FindPreferences NoFault (notif_user_id n) db = Inr prefs \<and>
        isChannelEnabled (notif_channel n) prefs \<and>
        notif_recipient_email n = user_email u \<and> notif_recipient_phone n = user_phone u \<and>
        notif_recipient_token n = user_device_token u \<and>
        uuid_in (notif_id n) = Some i \<and> stored_notif i (user_id u) n \<in> set (notifs db))"

definition asked_for :: "request \<Rightarrow> notification \<Rightarrow> bool" where
  "asked_for req n \<longleftrightarrow>
     (\<exists>r. decode_send_request (rq_body req) = Some r \<and> notif_user_id n = sr_user_id r \<and>
        notif_channel n = sr_channel r \<and> notif_template_id n = sr_template_id r \<and>
        notif_payload n = sr_payload r)"

definition promised :: "database \<Rightarrow> request \<Rightarrow> response \<Rightarrow> bool" where
  "promised db req rsp \<longleftrightarrow>
     (\<exists>n. asked_for req n \<and> fit db n \<and> rsp_body rsp = queued_body (notif_id n))"

definition wanted :: "database \<Rightarrow> send_request \<Rightarrow> user \<Rightarrow> bool" where
  "wanted db r u \<longleftrightarrow>
     FindUserByID NoFault (sr_user_id r) db = Inr u \<and>
     (\<exists>prefs. FindPreferences NoFault (sr_user_id r) db = Inr prefs \<and>
        isChannelEnabled (sr_channel r) prefs)"

text \<open>What a request under way has established.\<close>

fun promising :: "database \<Rightarrow> cache_faults api_env \<Rightarrow> request \<Rightarrow> remote_pc \<Rightarrow> bool" where
  "promising db e req (Preferring r u q) = (FindUserByID NoFault (sr_user_id r) db = Inr u)"
| "promising db e req (At (Choosing r u)) = (FindUserByID NoFault (sr_user_id r) db = Inr u)"
| "promising db e req (At (Saving r u)) = wanted db r u"
| "promising db e req (At (Publishing r u)) = fit db (new_notification e r u)"
| "promising db e req (At (Replied x)) = (status_of x = 202 \<longrightarrow> promised db req x)"
| "promising db e req pc = True"

subsection \<open>Nothing of this is lost\<close>

definition extends :: "database \<Rightarrow> database \<Rightarrow> bool" where
  "extends db db' \<longleftrightarrow> store_ok db \<and> store_ok db' \<and> same_people db db' \<and>
     set (notifs db) \<subseteq> set (notifs db')"

lemma extends_people:
  assumes "extends db db'"
  shows "FindUserByID NoFault i db' = FindUserByID NoFault i db"
    "FindPreferences NoFault i db' = FindPreferences NoFault i db"
  using assms same_people_lookups unfolding extends_def by blast+

lemma fit_mono: "extends db db' \<Longrightarrow> fit db n \<Longrightarrow> fit db' n"
  using extends_people [of db db'] unfolding fit_def extends_def by fastforce

lemma promised_mono: "extends db db' \<Longrightarrow> promised db req rsp \<Longrightarrow> promised db' req rsp"
  unfolding promised_def using fit_mono by blast

lemma promising_mono: "extends db db' \<Longrightarrow> promising db e req pc \<Longrightarrow> promising db' e req pc"
  using extends_people [of db db'] fit_mono [of db db'] promised_mono [of db db']
  by (cases "(db, e, req, pc)" rule: promising.cases) (auto simp: wanted_def)

subsection \<open>One call\<close>

context deployed
begin

lemma early_promising:
  assumes ok: "store_ok (srv_db s)" and coh: "coherent (srv_db s) (entry (srv_redis s))"
    and sane: "\<not> no_rows_fault (db_fault (ae_prefs e))" and vet: "carried (srv_db s) req pc"
    and run: "remote_step (dp_libs D) (dp_ttl D) (dp_handler D) e req fresh_response (pc, s) = (pc', s')"
    and pr: "promising (srv_db s) e req pc" and early: "\<not> late pc"
  shows "promising (srv_db s) e req pc'"
proof -
  have limit: ?thesis if "limit_step (dp_libs D) (dp_handler D) e fresh_response r a s = (pc', s')"
      "a = Counting \<or> a = Expiring 1" for r a
    using limit_effect [OF coh that(2,1)] by auto
  have look: ?thesis if "lookup_step (dp_libs D) ttl (dp_handler D) e fresh_response r q s = (pc', s')"
      "sure (FindUserByID NoFault (sr_user_id r) (srv_db s)) q" for r q
    using libs(1) ok coh that(2,1)
    by (cases rule: lookup_step_cases) auto
  have choose: ?thesis if "prefer_step (dp_libs D) ttl (dp_handler D) e fresh_response r u q s = (pc', s')"
      "sure (FindPreferences NoFault (sr_user_id r) (srv_db s)) q"
      "FindUserByID NoFault (sr_user_id r) (srv_db s) = Inr u" for r u q
  proof -
    have fresh: "rsp_sent fresh_response = None" by simp
    from libs(1) ok coh that(2) sane fresh that(1) show ?thesis
      by (cases rule: prefer_step_cases) (use that(3) in \<open>auto simp: wanted_def\<close>)
  qed
  note run = run [unfolded its_handler(2)]
  show ?thesis
  proof (cases pc)
    case (At q)
    show ?thesis
    proof (cases q)
      case Arrived
      show ?thesis
      proof (cases "check_request req fresh_response")
        case (Inl x)
        then have "status_of x \<noteq> 202" by (auto simp: check_request_def split: option.splits if_splits)
        with Inl At Arrived run show ?thesis by (auto simp: remote_simps)
      next
        case (Inr r)
        with At Arrived run show ?thesis by (intro limit [of r Counting]) (simp_all add: remote_simps)
      qed
    next
      case (Finding r)
      with At run show ?thesis by (intro look [of r Getting]) (simp_all add: remote_simps)
    next
      case (Choosing r u)
      with At run pr show ?thesis by (intro choose [of r u Getting]) (simp_all add: remote_simps)
    qed (use At run pr early in \<open>auto simp: remote_simps\<close>)
  next
    case (Limiting r a)
    with run vet show ?thesis by (intro limit [of r a]) (simp_all add: remote_simps)
  next
    case (Looking r q)
    with run vet show ?thesis by (intro look [of r q]) (simp_all add: remote_simps)
  next
    case (Preferring r u q)
    with run vet pr show ?thesis by (intro choose [of r u q]) (simp_all add: remote_simps)
  qed
qed

lemma saved_promising:
  assumes ok: "store_ok (srv_db s)" and w: "wanted (srv_db s) r u"
    and run: "request_step (dp_libs D) (dp_handler D) e req fresh_response (Saving r u, s) = (q', s')"
  shows "promising (srv_db s') e req (At q') \<and> srv_broker s' = srv_broker s"
proof -
  let ?n = "new_notification e r u"
  obtain x d where save: "nrepo_save store_notif_repo (ae_save e) ?n (srv_db s) = (x, d)" by fastforce
  then have saved: "Save (ae_save e) ?n (srv_db s) = (x, d)" by (simp add: store_notif_repo_def)
  show ?thesis
  proof (cases x)
    case None
    then obtain i v where row: "uuid_in (notif_id ?n) = Some i" "uuid_in (notif_user_id ?n) = Some v"
        "notifs d = notifs (srv_db s) @ [stored_notif i v ?n]"
      using store_notifs.save_ok [OF ok] save by blast
    have d: "store_ok d" "same_people (srv_db s) d"
      using store_ok_Save [OF ok] same_people_writes(1) [OF ok] saved by (metis snd_conv)+
    obtain prefs where people: "FindUserByID NoFault (sr_user_id r) d = Inr u"
        "FindPreferences NoFault (sr_user_id r) d = Inr prefs" "isChannelEnabled (sr_channel r) prefs"
      using w same_people_lookups [OF ok d] unfolding wanted_def by auto
    have "user_id u = v" using FindUserByID_user [OF d(1) people(1)] row(2) by (simp add: new_notification_def)
    with row people have "fit d ?n" by (auto simp: fit_def new_notification_def)
    with None save run show ?thesis
      by (auto simp: request_steps Let_def api.parts)
  next
    case (Some err)
    with save run show ?thesis
      by (auto simp: request_steps Let_def api.parts)
  qed
qed

lemma published_promising:
  assumes pr: "fit (srv_db s) (new_notification e r u)"
    and vet: "decode_send_request (rq_body req) = Some r" "api.found_user r u"
    and run: "request_step (dp_libs D) (dp_handler D) e req fresh_response (Publishing r u, s) = (q', s')"
  shows "promising (srv_db s') e req (At q') \<and> (\<forall>m \<in> set (topic_log (srv_broker s')).
    m \<in> set (topic_log (srv_broker s)) \<or>
    (\<exists>n. unmarshal_notification (msg_value m) = Some n \<and> fit (srv_db s') n))"
proof -
  let ?n = "new_notification e r u"
  obtain x k where pub: "Publish (lib_quote (dp_libs D)) (lib_tz (dp_libs D)) put (h_producer (dp_handler D))
      (ae_sent_at e) ?n (srv_broker s) = (x, k)" by fastforce
  with run have s': "srv_db s' = srv_db s" "srv_broker s' = k"
    by (auto simp: request_steps Let_def api.parts split: option.splits)
  have "asked_for req ?n" using vet(1) by (simp add: asked_for_def new_notification_def)
  moreover have "q' = Replied y \<longrightarrow> status_of y = 202 \<longrightarrow> rsp_body y = queued_body (notif_id ?n)" for y
    using run pub by (auto simp: request_steps Let_def api.parts queued_body_def writeJSON_def split: option.splits)
  moreover have "\<exists>y. q' = Replied y"
    using run pub by (auto simp: request_steps Let_def api.parts split: option.splits)
  ultimately have prom: "promising (srv_db s') e req (At q')"
    using pr s'(1) by (auto simp: promised_def)
  have "user_utf8 u" using FindUserByID_user vet(2) unfolding api.found_user_def by blast
  moreover obtain i where i: "uuid_in (ae_id e) = Some i" using pr by (auto simp: fit_def new_notification_def)
  ultimately obtain j m where m: "topic_log k = topic_log (srv_broker s) @ replicate j m"
      "0 < j \<longrightarrow> (\<forall>complaint c off. ReadOne complaint c (Inr (msg_value m, off)) = Inr ?n)"
    using published_message [OF kafka_writer_axioms new_notification_utf8 [OF vet(1) _ i] libs(3)] pub
    by (metis snd_conv)
  have "unmarshal_notification (msg_value m) = Some ?n" if "0 < j"
    using m(2) that by (auto simp: ReadOne_def split: option.splits)
  with m(1) prom pr s' show ?thesis by auto
qed

lemma serve_promising:
  assumes ok: "store_ok (srv_db s)" and coh: "coherent (srv_db s) (entry (srv_redis s))"
    and sane: "\<not> no_rows_fault (db_fault (ae_prefs e))" and vet: "carried (srv_db s) req pc"
    and run: "remote_step (dp_libs D) (dp_ttl D) (dp_handler D) e req fresh_response (pc, s) = (pc', s')"
    and pr: "promising (srv_db s) e req pc"
  shows "promising (srv_db s') e req pc'"
    "m \<in> set (topic_log (srv_broker s')) \<Longrightarrow> m \<in> set (topic_log (srv_broker s)) \<or>
       (\<exists>n. unmarshal_notification (msg_value m) = Some n \<and> fit (srv_db s') n)"
proof -
  have "promising (srv_db s') e req pc' \<and> (\<forall>m \<in> set (topic_log (srv_broker s')).
      m \<in> set (topic_log (srv_broker s)) \<or>
      (\<exists>n. unmarshal_notification (msg_value m) = Some n \<and> fit (srv_db s') n))"
  proof (cases "late pc")
    case False
    with serve_early [OF ok coh sane vet run] early_promising [OF ok coh sane vet run pr] show ?thesis by auto
  next
    case True
    then obtain q where q: "pc = At q" "(\<exists>r u. q = Saving r u) \<or> (\<exists>r u. q = Publishing r u)"
      using lateE by blast
    then obtain q' where q': "pc' = At q'"
        "request_step (dp_libs D) (dp_handler D) e req fresh_response (q, s) = (q', s')"
      using run by (auto simp: remote_simps at_def split: prod.splits)
    from q(2) show ?thesis
    proof (elim disjE exE)
      fix r u assume "q = Saving r u"
      with saved_promising [OF ok] q' pr q(1) show ?thesis by simp
    next
      fix r u assume "q = Publishing r u"
      with published_promising [of s e r u req q' s'] q' pr vet q(1) show ?thesis by auto
    qed
  qed
  then show "promising (srv_db s') e req pc'"
    "m \<in> set (topic_log (srv_broker s')) \<Longrightarrow> m \<in> set (topic_log (srv_broker s)) \<or>
       (\<exists>n. unmarshal_notification (msg_value m) = Some n \<and> fit (srv_db s') n)" by blast+
qed

subsection \<open>The running system\<close>

definition intake_ok :: "('r, 'k) system \<Rightarrow> bool" where
  "intake_ok \<sigma> \<longleftrightarrow>
     (\<forall>c e req pc. sy_conns \<sigma> c = Some (e, req, pc) \<longrightarrow> promising (sy_db \<sigma>) e req pc) \<and>
     (\<forall>m \<in> set (sy_topic \<sigma>). \<exists>n. unmarshal_notification (msg_value m) = Some n \<and> fit (sy_db \<sigma>) n) \<and>
     (\<forall>(req, rsp) \<in> set (sy_replies \<sigma>). status_of rsp = 202 \<longrightarrow> promised (sy_db \<sigma>) req rsp)"

lemma step_extends:
  assumes "sys_step D again \<sigma> \<sigma>'" "base_ok \<sigma>"
  shows "extends (sy_db \<sigma>) (sy_db \<sigma>')"
  using step_grows [OF assms] step_people [OF assms] assms(2) step_base [OF assms]
  by (auto simp: extends_def base_ok_def)

lemma intake_keep:
  assumes "intake_ok \<sigma>" "extends (sy_db \<sigma>) (sy_db \<sigma>')"
    and "\<And>c e req pc. sy_conns \<sigma>' c = Some (e, req, pc) \<Longrightarrow>
      sy_conns \<sigma> c = Some (e, req, pc) \<or> promising (sy_db \<sigma>') e req pc"
    and "\<And>m. m \<in> set (sy_topic \<sigma>') \<Longrightarrow> m \<in> set (sy_topic \<sigma>) \<or>
      (\<exists>n. unmarshal_notification (msg_value m) = Some n \<and> fit (sy_db \<sigma>') n)"
    and "\<And>req rsp. (req, rsp) \<in> set (sy_replies \<sigma>') \<Longrightarrow> (req, rsp) \<in> set (sy_replies \<sigma>) \<or>
      (status_of rsp = 202 \<longrightarrow> promised (sy_db \<sigma>) req rsp)"
  shows "intake_ok \<sigma>'"
  unfolding intake_ok_def
proof (intro conjI allI impI ballI)
  fix c e req pc assume "sy_conns \<sigma>' c = Some (e, req, pc)"
  with assms(1,3) promising_mono [OF assms(2)] show "promising (sy_db \<sigma>') e req pc"
    unfolding intake_ok_def by blast
next
  fix m assume "m \<in> set (sy_topic \<sigma>')"
  with assms(1,4) fit_mono [OF assms(2)]
  show "\<exists>n. unmarshal_notification (msg_value m) = Some n \<and> fit (sy_db \<sigma>') n"
    unfolding intake_ok_def by blast
next
  fix x assume "x \<in> set (sy_replies \<sigma>')"
  with assms(1,5) promised_mono [OF assms(2)]
  show "case x of (req, rsp) \<Rightarrow> status_of rsp = 202 \<longrightarrow> promised (sy_db \<sigma>') req rsp"
    unfolding intake_ok_def by (cases x) blast
qed

lemma step_intake:
  assumes "sys_step D again \<sigma> \<sigma>'" "base_ok \<sigma>" "intake_ok \<sigma>"
  shows "intake_ok \<sigma>'"
proof -
  note keep = intake_keep [OF assms(3) step_extends [OF assms(1,2)]]
  show ?thesis
    using assms(1)
  proof cases
    case (Serve c e req pc pc' srv)
    have ok: "store_ok (sy_db \<sigma>)" "coherent (sy_db \<sigma>) (entry (srv_redis (sy_srv \<sigma>)))"
      using assms(2) by (simp_all add: base_ok_def)
    have "conn_ok \<sigma> (e, req, pc)" using assms(2) Serve(2) by (simp add: base_ok_def conns_ok_def)
    then have vet: "\<not> no_rows_fault (db_fault (ae_prefs e))" "carried (sy_db \<sigma>) req pc"
      by (auto simp: conn_ok_def)
    have pr: "promising (sy_db \<sigma>) e req pc" using assms(3) Serve(2) unfolding intake_ok_def by blast
    note served = serve_promising [OF ok vet Serve(3) pr]
    show ?thesis
      by (rule keep) (use served in \<open>auto simp: Serve(1) split: if_splits\<close>)
  next
    case (Reply c e req rsp)
    then have "status_of rsp = 202 \<longrightarrow> promised (sy_db \<sigma>) req rsp"
      using assms(3) unfolding intake_ok_def by fastforce
    with Reply show ?thesis by (intro keep) (auto split: if_splits)
  qed (rule keep; auto split: if_splits)+
qed

lemma reachable_intake:
  assumes "reachable D entry again \<sigma>"
  shows "intake_ok \<sigma>"
  using assms
proof induction
  case (Start \<sigma>)
  then show ?case by (simp add: intake_ok_def initial_def its_topic)
next
  case (Next \<sigma> \<sigma>')
  then show ?case using step_intake reachable_base by blast
qed

end

text \<open>
  C3 (safety).  Whatever is queued or accepted is fit for delivery, in every state the running system can
  reach: a message on the topic reads back as a notification for an existing user, with the contact
  data the database has for him, on a channel his preferences enable, and its row is in the table; a
  request answered 202 was answered with the id of such a notification for the user, channel,
  template and payload it asked for.
\<close>

theorem queued_and_accepted_fit:
  assumes "deployed R entry clock advance ttl put topic_log D p l lg" "reachable D entry again \<sigma>"
  shows "(\<forall>m \<in> set (topic_log (srv_broker (sy_srv \<sigma>))).
      \<exists>n. unmarshal_notification (msg_value m) = Some n \<and> fit (sy_db \<sigma>) n) \<and>
    (\<forall>(req, rsp) \<in> set (sy_replies \<sigma>). status_of rsp = 202 \<longrightarrow>
      (\<exists>n. asked_for req n \<and> fit (sy_db \<sigma>) n \<and> rsp_body rsp = queued_body (notif_id n)))"
  using deployed.reachable_intake [OF assms]
  unfolding deployed.intake_ok_def [OF assms(1)] promised_def by blast

theorem queued_and_accepted_fit_witness:
  "\<exists>(\<sigma> :: (string keyspace, broker) system) m rsp n. reachable example_deployment ks_map True \<sigma> \<and>
    broker_log (srv_broker (sy_srv \<sigma>)) = [m] \<and> fit (sy_db \<sigma>) muted_note \<and>
    sy_replies \<sigma> = [(ex_request ChannelEmail, rsp)] \<and> rsp_body rsp = queued_body (notif_id n) \<and>
    fit (sy_db \<sigma>) n"
proof -
  obtain rsp s' m where
    req: "SendNotification ex_libs ex_handler (ex_env note1) (ex_request ChannelEmail)
      fresh_response (ex_server db_muted) = (rsp, s')" "status_of rsp = 202"
    and s': "broker_log (srv_broker s') = [m]" "unmarshal_notification (msg_value m) = Some muted_note"
    using muted_accepted by blast
  let ?\<sigma> = "muted_start\<lparr>sy_srv := s', sy_replies := sy_replies muted_start @ [(ex_request ChannelEmail, rsp)]\<rparr>"
  have reach: "reachable example_deployment ks_map True ?\<sigma>"
    by (rule example.request_run [OF muted_reachable, where e = "ex_env note1"])
       (simp_all add: example_deployment_def muted_start_def req no_rows_fault_def)
  have "sy_replies ?\<sigma> = [(ex_request ChannelEmail, rsp)]" by (simp add: muted_start_def)
  with queued_and_accepted_fit [OF example.deployed_axioms reach] reach req(2) s' show ?thesis
    by (intro exI [of _ ?\<sigma>]) auto
qed

end
