(* ===== verification/Staleness.thy ===== *)
theory Staleness
  imports Cache
begin

section \<open>How long the cache may be behind the database\<close>

text \<open>
  An administrator changes users or preferences behind the program's back; the cache then gives out
  the old values until their entries expire.  A history is any sequence of lookups, calls of the
  limiter and passing of time, with any faults.
\<close>

datatype cache_op =
  Lookup cache_faults string
| LookupPrefs cache_faults string
| Limit limiter fault fault string channel
| Wait nat

fun cache_step ::
    "('r, string) redis_ops \<Rightarrow> duration \<Rightarrow> (int \<Rightarrow> 'r \<Rightarrow> 'r) \<Rightarrow> database \<Rightarrow> cache_op \<Rightarrow> 'r \<Rightarrow> 'r" where
  "cache_step R ttl adv db (Lookup f i) r = snd (UserCache_FindByID R ttl f i db r)"
| "cache_step R ttl adv db (LookupPrefs f i) r = snd (UserCache_FindPreferences R ttl f i db r)"
| "cache_step R ttl adv db (Limit l f1 f2 u c) r = snd (Allow R l f1 f2 u c r)"
| "cache_step R ttl adv db (Wait dt) r = adv (int dt) r"

definition cache_run ::
    "('r, string) redis_ops \<Rightarrow> duration \<Rightarrow> (int \<Rightarrow> 'r \<Rightarrow> 'r) \<Rightarrow> database \<Rightarrow> cache_op list \<Rightarrow> 'r \<Rightarrow> 'r" where
  "cache_run R ttl adv db = fold (cache_step R ttl adv db)"

fun waited :: "cache_op list \<Rightarrow> int" where
  "waited [] = 0"
| "waited (Wait dt # xs) = int dt + waited xs"
| "waited (x # xs) = waited xs"

definition sane_ops :: "cache_op list \<Rightarrow> bool" where
  "sane_ops xs \<longleftrightarrow> (\<forall>f i. LookupPrefs f i \<in> set xs \<longrightarrow> \<not> no_rows_fault (db_fault f))"

text \<open>
  What is cached under the keys \<open>K\<close>: live entries of at most \<open>len\<close> to go, each with the value \<open>new\<close>
  gives, or with the value \<open>old\<close> gave and gone by \<open>dl\<close>.
\<close>

definition aged ::
    "(string \<Rightarrow> string) \<Rightarrow> ('v \<Rightarrow> string) \<Rightarrow> (string \<Rightarrow> go_error + 'v) \<Rightarrow> (string \<Rightarrow> go_error + 'v)
       \<Rightarrow> int \<Rightarrow> int \<Rightarrow> int \<Rightarrow> (string \<rightharpoonup> string entry) \<Rightarrow> bool" where
  "aged K enc old new dl len now e \<longleftrightarrow>
     (\<forall>i v t. e (K i) = Some (v, t) \<longrightarrow>
        (\<exists>x d. v = Blob (enc x) \<and> t = Some d \<and> now < d \<and> d \<le> now + len \<and>
           (new i = Inr x \<or> old i = Inr x \<and> d \<le> dl)))"

lemma aged_put:
  assumes "aged K enc old new dl len now e" "inj K" "new i = Inr x" "0 < len"
  shows "aged K enc old new dl len now (e(K i \<mapsto> (Blob (enc x), Some (now + len))))"
  using assms by (auto simp: aged_def inj_eq)

lemma aged_wait:
  assumes "aged K enc old new dl len now e" "0 \<le> dt"
    and "\<And>k. e' k = (case e k of None \<Rightarrow> None | Some x \<Rightarrow> if expired (now + dt) x then None else Some x)"
  shows "aged K enc old new dl len (now + dt) e'"
  unfolding aged_def
proof (intro allI impI)
  fix i v t assume "e' (K i) = Some (v, t)"
  then have e: "e (K i) = Some (v, t)" "\<not> expired (now + dt) (v, t)"
    using assms(3) [of "K i"] by (auto split: option.splits if_splits)
  from assms(1) e(1) obtain x d where "v = Blob (enc x)" "t = Some d" "d \<le> now + len"
      "new i = Inr x \<or> old i = Inr x \<and> d \<le> dl"
    unfolding aged_def by blast
  with e(2) assms(2) show "\<exists>x d. v = Blob (enc x) \<and> t = Some d \<and> now + dt < d \<and> d \<le> now + dt + len \<and>
      (new i = Inr x \<or> old i = Inr x \<and> d \<le> dl)"
    by (auto simp: expired_def)
qed

text \<open>The database changes: what was new is old, and gone after the time to live.\<close>

lemma aged_change:
  "aged K enc old old dl len now e \<Longrightarrow> aged K enc old new (now + len) len now e"
  unfolding aged_def by blast

lemma inj_keys: "inj user_key" "inj prefs_key"
  by (auto intro!: injI)

text \<open>Both kinds of entries at once.\<close>

abbreviation users_aged :: "database \<Rightarrow> database \<Rightarrow> int \<Rightarrow> int \<Rightarrow> int \<Rightarrow> (string \<rightharpoonup> string entry) \<Rightarrow> bool" where
  "users_aged old new \<equiv>
     aged user_key marshal_user (\<lambda>i. FindUserByID NoFault i old) (\<lambda>i. FindUserByID NoFault i new)"

abbreviation prefs_aged :: "database \<Rightarrow> database \<Rightarrow> int \<Rightarrow> int \<Rightarrow> int \<Rightarrow> (string \<rightharpoonup> string entry) \<Rightarrow> bool" where
  "prefs_aged old new \<equiv>
     aged prefs_key marshal_prefs (\<lambda>i. FindPreferences NoFault i old) (\<lambda>i. FindPreferences NoFault i new)"

text \<open>Once the old values are gone the cache agrees with the database; until then it has either.\<close>

lemma aged_new:
  assumes "aged K enc old new dl len now e" "dl \<le> now" "e (K i) = Some (v, t)"
  shows "\<exists>x. v = Blob (enc x) \<and> new i = Inr x"
proof -
  obtain x d where "v = Blob (enc x)" "now < d" "new i = Inr x \<or> old i = Inr x \<and> d \<le> dl"
    using assms(1,3) unfolding aged_def by blast
  with assms(2) show ?thesis by auto
qed

lemma aged_coherent:
  assumes "users_aged old new dl len now e" "prefs_aged old new dl len now e" "dl \<le> now"
  shows "coherent new e"
  unfolding coherent_def using aged_new [OF assms(1,3)] aged_new [OF assms(2,3)] by blast

context user_cache_server
begin

lemma ttl_pos: "0 < sint ttl"
  using ttl_whole by (simp add: whole_seconds_def)

lemma step_aged:
  assumes "users_aged old new dl (sint ttl) (clock r) (entry r)"
    and "prefs_aged old new dl (sint ttl) (clock r) (entry r)" "sane_ops [x]"
  shows "users_aged old new dl (sint ttl) (clock (cache_step R ttl advance new x r))
      (entry (cache_step R ttl advance new x r))"
    and "prefs_aged old new dl (sint ttl) (clock (cache_step R ttl advance new x r))
      (entry (cache_step R ttl advance new x r))"
    and "clock (cache_step R ttl advance new x r) = clock r + waited [x]"
proof -
  let ?r = "cache_step R ttl advance new x r"
  have "users_aged old new dl (sint ttl) (clock ?r) (entry ?r) \<and>
    prefs_aged old new dl (sint ttl) (clock ?r) (entry ?r) \<and> clock ?r = clock r + waited [x]"
  proof (cases x)
    case (Lookup f i)
    have "?r = r \<or> (\<exists>u. FindUserByID NoFault i new = Inr u \<and>
        ?r = snd (r_set R (set_fault f) (user_key i) (marshal_user u) ttl r))"
      by (auto simp: Lookup UserCache_FindByID_def Let_def split: option.split sum.split)
        (metis FindUserByID_fault)+
    then show ?thesis
    proof (elim disjE exE conjE)
      fix u assume u: "FindUserByID NoFault i new = Inr u"
        and r: "?r = snd (r_set R (set_fault f) (user_key i) (marshal_user u) ttl r)"
      have c: "clock ?r = clock r" unfolding r by (rule set_clock)
      from set_entry [of "set_fault f" "user_key i" "marshal_user u" r, folded r] show ?thesis
      proof
        assume e: "entry ?r = entry r"
        show ?thesis unfolding e c using assms by (simp add: Lookup)
      next
        assume e: "entry ?r = (entry r)(user_key i \<mapsto> (Blob (marshal_user u), Some (clock r + sint ttl)))"
        have "prefs_aged old new dl (sint ttl) (clock r) (entry ?r)"
          using assms(2) unfolding e by (simp add: aged_def)
        then show ?thesis
          using aged_put [OF assms(1) inj_keys(1) u ttl_pos] unfolding e c by (simp add: Lookup)
      qed
    qed (use assms in \<open>simp add: Lookup\<close>)
  next
    case (LookupPrefs f i)
    have "?r = r \<or> (\<exists>p. FindPreferences NoFault i new = Inr p \<and>
        ?r = snd (r_set R (set_fault f) (prefs_key i) (marshal_prefs p) ttl r))"
      using assms(3)
      by (auto simp: LookupPrefs sane_ops_def UserCache_FindPreferences_def Let_def
          split: option.split sum.split)
        (metis FindPreferences_fault)+
    then show ?thesis
    proof (elim disjE exE conjE)
      fix p assume p: "FindPreferences NoFault i new = Inr p"
        and r: "?r = snd (r_set R (set_fault f) (prefs_key i) (marshal_prefs p) ttl r)"
      have c: "clock ?r = clock r" unfolding r by (rule set_clock)
      from set_entry [of "set_fault f" "prefs_key i" "marshal_prefs p" r, folded r] show ?thesis
      proof
        assume e: "entry ?r = entry r"
        show ?thesis unfolding e c using assms by (simp add: LookupPrefs)
      next
        assume e: "entry ?r = (entry r)(prefs_key i \<mapsto> (Blob (marshal_prefs p), Some (clock r + sint ttl)))"
        have "users_aged old new dl (sint ttl) (clock r) (entry ?r)"
          using assms(1) unfolding e by (simp add: aged_def)
        then show ?thesis
          using aged_put [OF assms(2) inj_keys(2) p ttl_pos] unfolding e c by (simp add: LookupPrefs)
      qed
    qed (use assms in \<open>simp add: LookupPrefs\<close>)
  next
    case (Limit l f1 f2 u c)
    have "entry ?r (user_key i) = entry r (user_key i)" "entry ?r (prefs_key i) = entry r (prefs_key i)" for i
      by (simp_all add: Limit Allow_frame rate_key_other)
    moreover have "clock ?r = clock r" by (simp add: Limit Allow_clock)
    ultimately show ?thesis
      using assms(1,2) unfolding aged_def by (simp add: Limit)
  next
    case (Wait dt)
    then show ?thesis
      using aged_wait [OF assms(1), of "int dt"] aged_wait [OF assms(2), of "int dt"] advance_entry
      by (simp add: advance_clock)
  qed
  then show "users_aged old new dl (sint ttl) (clock ?r) (entry ?r)"
    "prefs_aged old new dl (sint ttl) (clock ?r) (entry ?r)" "clock ?r = clock r + waited [x]" by blast+
qed

lemma run_aged:
  assumes "users_aged old new dl (sint ttl) (clock r) (entry r)"
    and "prefs_aged old new dl (sint ttl) (clock r) (entry r)" "sane_ops xs"
  shows "users_aged old new dl (sint ttl) (clock (cache_run R ttl advance new xs r))
      (entry (cache_run R ttl advance new xs r)) \<and>
    prefs_aged old new dl (sint ttl) (clock (cache_run R ttl advance new xs r))
      (entry (cache_run R ttl advance new xs r)) \<and>
    clock (cache_run R ttl advance new xs r) = clock r + waited xs"
  using assms
proof (induction xs arbitrary: r)
  case (Cons x xs)
  have sane: "sane_ops [x]" "sane_ops xs" using Cons.prems(3) by (auto simp: sane_ops_def)
  have w: "waited (x # xs) = waited [x] + waited xs" by (cases x) simp_all
  have run: "cache_run R ttl advance new (x # xs) r = cache_run R ttl advance new xs (cache_step R ttl advance new x r)"
    by (simp add: cache_run_def)
  note IH = Cons.IH [OF step_aged(1,2) [OF Cons.prems(1,2) sane(1)] sane(2), folded run]
  show ?case
    using IH step_aged(3) [OF Cons.prems(1,2) sane(1)] unfolding w add.assoc [symmetric] by metis
qed (simp add: cache_run_def)

lemma aged_user:
  assumes "store_ok old" "store_ok new" "users_aged old new dl len (clock r) (entry r)"
    and "fst (UserCache_FindByID R ttl f i new r) = Inr u"
  shows "FindUserByID NoFault i new = Inr u \<or> FindUserByID NoFault i old = Inr u"
proof (cases "case r_get R (get_fault f) (user_key i) r of Inr data \<Rightarrow> unmarshal_user data | Inl err \<Rightarrow> None")
  case None
  then have "FindUserByID (db_fault f) i new = Inr u"
    using assms(4) by (auto simp: UserCache_FindByID_def Let_def split: sum.splits)
  then show ?thesis using FindUserByID_fault by metis
next
  case (Some u')
  then have u': "u' = u" using assms(4) by (simp add: UserCache_FindByID_def)
  from Some obtain data where data: "r_get R (get_fault f) (user_key i) r = Inr data" "unmarshal_user data = Some u"
    by (auto simp: u' split: sum.splits)
  then have f: "get_fault f = NoFault" using get_fault by (cases "get_fault f") simp_all
  from data(1) f obtain v t where e: "entry r (user_key i) = Some (v, t)"
    using get_missing [of r "user_key i"] by (cases "entry r (user_key i)") auto
  then obtain x where x: "v = Blob (marshal_user x)"
      "FindUserByID NoFault i new = Inr x \<or> FindUserByID NoFault i old = Inr x"
    using assms(3) unfolding aged_def by blast
  then have "user_utf8 x" using FindUserByID_user [OF assms(1)] FindUserByID_user [OF assms(2)] by blast
  then have "unmarshal_user (marshal_user x) = Some x" by (simp add: unmarshal_marshal_user fix_user_valid)
  with get_blob [OF e [unfolded x(1)]] data f have "x = u" by simp
  with x(2) show ?thesis by blast
qed

lemma aged_prefs:
  assumes "store_ok old" "store_ok new" "prefs_aged old new dl len (clock r) (entry r)"
    and "fst (UserCache_FindPreferences R ttl f i new r) = Inr p" "\<not> no_rows_fault (db_fault f)"
  shows "FindPreferences NoFault i new = Inr p \<or> FindPreferences NoFault i old = Inr p"
proof (cases "case r_get R (get_fault f) (prefs_key i) r of Inr data \<Rightarrow> unmarshal_prefs data | Inl err \<Rightarrow> None")
  case None
  then have "FindPreferences (db_fault f) i new = Inr p"
    using assms(4) by (auto simp: UserCache_FindPreferences_def Let_def split: sum.splits)
  then show ?thesis using FindPreferences_fault assms(5) by metis
next
  case (Some p')
  then have p': "p' = p" using assms(4) by (simp add: UserCache_FindPreferences_def)
  from Some obtain data where data: "r_get R (get_fault f) (prefs_key i) r = Inr data" "unmarshal_prefs data = Some p"
    by (auto simp: p' split: sum.splits)
  then have f: "get_fault f = NoFault" using get_fault by (cases "get_fault f") simp_all
  from data(1) f obtain v t where e: "entry r (prefs_key i) = Some (v, t)"
    using get_missing [of r "prefs_key i"] by (cases "entry r (prefs_key i)") auto
  then obtain x where x: "v = Blob (marshal_prefs x)"
      "FindPreferences NoFault i new = Inr x \<or> FindPreferences NoFault i old = Inr x"
    using assms(3) unfolding aged_def by blast
  then have "fix_prefs x = x" using FindPreferences_prefs [OF assms(1)] FindPreferences_prefs [OF assms(2)] by blast
  then have "unmarshal_prefs (marshal_prefs x) = Some x" by (simp add: unmarshal_marshal_prefs)
  with get_blob [OF e [unfolded x(1)]] data f have "x = p" by simp
  with x(2) show ?thesis by blast
qed

text \<open>A history on the old database, the change, a history on the new one.\<close>

lemma change_aged:
  fixes old new :: database
  assumes "\<forall>i. entry r (user_key i) = None \<and> entry r (prefs_key i) = None" "sane_ops xs" "sane_ops ys"
  defines "r' \<equiv> cache_run R ttl advance new ys (cache_run R ttl advance old xs r)"
  shows "users_aged old new (clock r' - waited ys + sint ttl) (sint ttl) (clock r') (entry r') \<and>
    prefs_aged old new (clock r' - waited ys + sint ttl) (sint ttl) (clock r') (entry r')"
proof -
  let ?r = "cache_run R ttl advance old xs r"
  have "users_aged old old 0 (sint ttl) (clock r) (entry r)" "prefs_aged old old 0 (sint ttl) (clock r) (entry r)"
    using assms(1) by (simp_all add: aged_def)
  from run_aged [OF this assms(2)]
  have "users_aged old new (clock ?r + sint ttl) (sint ttl) (clock ?r) (entry ?r)"
    "prefs_aged old new (clock ?r + sint ttl) (sint ttl) (clock ?r) (entry ?r)"
    using aged_change by blast+
  note late = run_aged [OF this assms(3), folded r'_def]
  have "clock ?r + sint ttl = clock r' - waited ys + sint ttl"
    using late [THEN conjunct2, THEN conjunct2] by linarith
  with late show ?thesis by metis
qed

end

text \<open>
  C30 (bounds).  A change of users or preferences behind the program's back is seen at the latest when
  the time to live is over, for every user at once and whatever is looked up in between: after any
  history on the old database that started with nothing cached, and any history on the new one, a
  lookup answers with a value of the new or of the old database; once the time waited since the
  change reaches the time to live the cache agrees with the new one, so that without a fault of the
  query the answer is the new database's.  (No lookup is under way at the change.)
\<close>

theorem cache_staleness_bound:
  assumes "user_cache_server R entry clock advance ttl" "store_ok old" "store_ok new"
    and "\<forall>i. entry r (user_key i) = None \<and> entry r (prefs_key i) = None"
    and "sane_ops xs" "sane_ops ys" "\<not> no_rows_fault (db_fault f)"
    and "r' = cache_run R ttl advance new ys (cache_run R ttl advance old xs r)"
  shows "(\<forall>u. fst (UserCache_FindByID R ttl f i new r') = Inr u \<longrightarrow>
            FindUserByID NoFault i new = Inr u \<or> FindUserByID NoFault i old = Inr u) \<and>
         (\<forall>p. fst (UserCache_FindPreferences R ttl f i new r') = Inr p \<longrightarrow>
            FindPreferences NoFault i new = Inr p \<or> FindPreferences NoFault i old = Inr p) \<and>
         (sint ttl \<le> waited ys \<longrightarrow>
            coherent new (entry r') \<and>
            (db_fault f = NoFault \<longrightarrow>
               fst (UserCache_FindByID R ttl f i new r') = FindUserByID NoFault i new \<and>
               fst (UserCache_FindPreferences R ttl f i new r') = FindPreferences NoFault i new))"
proof -
  note ucs = assms(1)
  note aged = user_cache_server.change_aged [OF ucs assms(4-6), where old = old and new = new, folded assms(8)]
  have "coherent new (entry r') \<and> (db_fault f = NoFault \<longrightarrow>
      fst (UserCache_FindByID R ttl f i new r') = FindUserByID NoFault i new \<and>
      fst (UserCache_FindPreferences R ttl f i new r') = FindPreferences NoFault i new)"
    if "sint ttl \<le> waited ys"
  proof -
    have coh: "coherent new (entry r')"
      by (rule aged_coherent [OF conjunct1 [OF aged] conjunct2 [OF aged]]) (use that in simp)
    from user_cache_server.find_user_step [OF ucs assms(3) coh, of f i]
      user_cache_server.find_prefs_step [OF ucs assms(3) coh assms(7), of i] coh
    show ?thesis by auto
  qed
  then show ?thesis
    using user_cache_server.aged_user [OF ucs assms(2,3) conjunct1 [OF aged], of f i]
      user_cache_server.aged_prefs [OF ucs assms(2,3) conjunct2 [OF aged] _ assms(7), of i]
    by (intro conjI) simp_all
qed

theorem cache_staleness_bound_witness:
  "fst (UserCache_FindByID ks_ops (5 * Minute) no_cache_fault alice migrated
      (cache_run ks_ops (5 * Minute) ks_advance migrated
         [Wait 200000000000, Lookup no_cache_fault alice, Wait 100000000000]
         (cache_run ks_ops (5 * Minute) ks_advance db_alice [Lookup no_cache_fault alice]
            (ks_empty show_int)))) = FindUserByID NoFault alice migrated"
proof -
  let ?xs = "[Lookup no_cache_fault alice]"
  let ?ys = "[Wait 200000000000, Lookup no_cache_fault alice, Wait 100000000000]"
  have empty: "\<forall>i. ks_map (ks_empty show_int) (user_key i) = None \<and> ks_map (ks_empty show_int) (prefs_key i) = None"
    by (simp add: ks_empty_def)
  have sane: "sane_ops ?xs" "sane_ops ?ys" "\<not> no_rows_fault (db_fault no_cache_fault)"
    and calm: "db_fault no_cache_fault = NoFault" and waited: "sint (5 * Minute) \<le> waited ?ys"
    by (simp_all add: sane_ops_def no_rows_fault_def no_cache_fault_def Minute_def)
  from cache_staleness_bound [OF cache_on_keyspace store_ok_alice store_ok_migrated empty sane refl, of alice] waited calm
  show ?thesis by blast
qed

end
