(* ===== verification/Startup.thy ===== *)
theory Startup
  imports Middleware Admission Replies Staleness Config
begin

section \<open>The two programs\<close>

text \<open>
  \<^verbatim>\<open>cmd/server/main.go\<close>, \<^verbatim>\<open>cmd/worker/main.go\<close> and \<open>New\<close> of \<^verbatim>\<open>internal/store/postgres.go\<close>: the order
  in which the programs acquire what they need, the errors that end them, and the deferred closings.
  A run is the list of events it causes, with the database and the standard output; what the
  environment decides is a record: the answers of the libraries, and how the wait ends (\<open>be_listen\<close>: the
  listener fails first; \<open>be_panic\<close>: a worker's panic ends the process; else a signal).  A \<open>defer\<close> is the
  closing event after the rest of the function.  What the started workers and the server do between
  start and end is the subject of \<open>System\<close>.
\<close>

datatype resource = Pool | RedisClient string string int | KafkaWriter | KafkaReader channel

datatype boot_event =
  Opened resource | Closed resource | Listening string duration duration | Drained

record pool_config =
  max_conns :: "32 word"
  min_conns :: "32 word"
  max_conn_lifetime :: duration

record boot_env =
  be_env :: environment
  be_fraction :: "string \<Rightarrow> nat \<Rightarrow> nat"
  be_parse :: "string \<Rightarrow> go_error + pool_config"
  be_create :: "pool_config \<Rightarrow> error"
  be_ping :: error
  be_migrate :: fault
  be_redis_ping :: error
  be_listen :: error
  be_signal :: string
  be_panic :: "string option"
  be_shutdown :: error
  be_close :: "channel \<Rightarrow> error"

record boot =
  bt_db :: database
  bt_out :: stdout
  bt_events :: "boot_event list"

definition boot_event :: "boot_event \<Rightarrow> boot \<Rightarrow> boot" where
  "boot_event ev b = b\<lparr>bt_events := bt_events b @ [ev]\<rparr>"

definition boot_log :: "logger \<Rightarrow> level \<Rightarrow> string \<Rightarrow> attrs \<Rightarrow> boot \<Rightarrow> boot" where
  "boot_log lg lv msg as b = b\<lparr>bt_out := emit lg lv msg as (bt_out b)\<rparr>"

text \<open>The pool's limits are 32-bit: \<open>int32\<close> of the configured integers keeps their low bits.\<close>

definition store_New :: "boot_env \<Rightarrow> postgres_config \<Rightarrow> boot \<Rightarrow> (go_error + pool_config) \<times> boot" where
  "store_New E cfg b =
     (case be_parse E (pg_dsn cfg) of
        Inl err \<Rightarrow> (Inl (Wrapf ''store: parse DSN: '' err []), b)
      | Inr pc0 \<Rightarrow>
          (let pc = pc0\<lparr>max_conns := word_of_int (pg_max_open_conns cfg),
                        min_conns := word_of_int (pg_max_idle_conns cfg),
                        max_conn_lifetime := pg_conn_max_lifetime cfg\<rparr>
           in case be_create E pc of
                Some err \<Rightarrow> (Inl (Wrapf ''store: create pool: '' err []), b)
              | None \<Rightarrow>
                  (case be_ping E of
                     Some err \<Rightarrow>
                       (Inl (Wrapf ''store: ping database: '' err []), boot_event (Opened Pool) b)
                   | None \<Rightarrow> (Inr pc, boot_event (Opened Pool) b))))"

definition store_Close :: "boot \<Rightarrow> boot" where "store_Close b = boot_event (Closed Pool) b"

definition producer_Close :: "boot \<Rightarrow> boot" where "producer_Close b = boot_event (Closed KafkaWriter) b"

definition consumer_Close :: "boot_env \<Rightarrow> consumer \<Rightarrow> boot \<Rightarrow> error \<times> boot" where
  "consumer_Close E c b = (be_close E (cons_channel c), boot_event (Closed (KafkaReader (cons_channel c))) b)"

definition worker_Close :: "boot_env \<Rightarrow> worker \<Rightarrow> boot \<Rightarrow> error \<times> boot" where
  "worker_Close E w b = consumer_Close E (w_consumer w) b"

subsection \<open>The API server\<close>

definition serve_http :: "logger \<Rightarrow> boot_env \<Rightarrow> server_config \<Rightarrow> boot \<Rightarrow> error \<times> boot" where
  "serve_http log E cfg b =
     (let addr = '':'' @ srv_port cfg;
          b1 = boot_event (Listening addr (srv_read_timeout cfg) (srv_write_timeout cfg))
                 (boot_log log LevelInfo ''api server starting'' [(''addr'', addr)] b)
      in case be_listen E of
           Some err \<Rightarrow> (Some (Wrapf ''server listen: '' err []), b1)
         | None \<Rightarrow>
             (let b2 = boot_log log LevelInfo ''shutdown signal received'' [(''signal'', be_signal E)] b1
              in case be_shutdown E of
                   Some err \<Rightarrow> (Some (Wrapf ''graceful shutdown: '' err []), b2)
                 | None \<Rightarrow> (None, boot_log log LevelInfo ''server shut down cleanly'' [] (boot_event Drained b2))))"

definition redis_client :: "redis_config \<Rightarrow> resource" where
  "redis_client cfg = RedisClient (rd_addr cfg) (rd_password cfg) (rd_db cfg)"

definition run_with_redis :: "logger \<Rightarrow> boot_env \<Rightarrow> config \<Rightarrow> boot \<Rightarrow> error \<times> boot" where
  "run_with_redis log E cfg b =
     (let b1 = boot_event (Opened KafkaWriter) (boot_log log LevelInfo ''connected to redis'' [] b);
          (err, b2) = serve_http log E (cfg_server cfg) b1
      in (err, producer_Close b2))"

definition run_with_store :: "logger \<Rightarrow> boot_env \<Rightarrow> config \<Rightarrow> boot \<Rightarrow> error \<times> boot" where
  "run_with_store log E cfg b =
     (let b1 = boot_log log LevelInfo ''connected to postgres'' [] b in
      case Migrate (be_migrate E) (bt_db b1) of
        (Some err, d) \<Rightarrow> (Some (Wrapf ''run migrations: '' err []), b1\<lparr>bt_db := d\<rparr>)
      | (None, d) \<Rightarrow>
          (let b2 = boot_event (Opened (redis_client (cfg_redis cfg)))
                      (boot_log log LevelInfo ''migrations applied'' [] (b1\<lparr>bt_db := d\<rparr>))
           in case be_redis_ping E of
                Some err \<Rightarrow> (Some (Wrapf ''connect to redis: '' err []), b2)
              | None \<Rightarrow>
                  (let (err, b3) = run_with_redis log E cfg b2 in (err, boot_event (Closed (redis_client (cfg_redis cfg))) b3))))"

definition run_server :: "logger \<Rightarrow> boot_env \<Rightarrow> boot \<Rightarrow> error \<times> boot" where
  "run_server log E b =
     (case Load (be_fraction E) (be_env E) of
        Inl err \<Rightarrow> (Some (Wrapf ''load config: '' err []), b)
      | Inr cfg \<Rightarrow>
          (case store_New E (cfg_postgres cfg) b of
             (Inl err, b1) \<Rightarrow> (Some (Wrapf ''connect to postgres: '' err []), b1)
           | (Inr pool, b1) \<Rightarrow>
               (let (err, b2) = run_with_store log E cfg b1 in (err, store_Close b2))))"

text \<open>\<open>main\<close>, with the exit code.\<close>

definition main_server :: "boot_env \<Rightarrow> boot \<Rightarrow> int \<times> boot" where
  "main_server E b =
     (let log = NewLogger in
      case run_server log E b of
        (None, b') \<Rightarrow> (0, b')
      | (Some err, b') \<Rightarrow>
          (1, boot_log log LevelError ''server exited with error'' [(''error'', error_text err)] b'))"

text \<open>The dependencies that \<open>run\<close> wires into the router.\<close>

definition server_router ::
    "(database, 'r, 'k) server chi \<Rightarrow> (string \<Rightarrow> bool) \<Rightarrow> ('r, 'k) libs \<Rightarrow> config \<Rightarrow> logger
       \<Rightarrow> string \<Rightarrow> int \<Rightarrow> cache_faults api_env \<Rightarrow> (database, 'r, 'k) server http_handler" where
  "server_router X accepts L cfg log =
     NewRouter X accepts L
       (server_handler (lib_redis L) (rd_cache_ttl (cfg_redis cfg)) (NewProducer (cfg_kafka cfg))
          (NewLimiter 100 Hour) log) log"

subsection \<open>The worker program\<close>

text \<open>The loop over the map of senders; Go visits the entries in any order.\<close>

fun start_fleet ::
    "(string \<Rightarrow> string) \<Rightarrow> logger \<Rightarrow> kafka_config \<Rightarrow> (channel \<times> sender) list \<Rightarrow> worker list \<Rightarrow> boot
       \<Rightarrow> error \<times> worker list \<times> boot" where
  "start_fleet quote log cfg [] ws b = (None, ws, b)"
| "start_fleet quote log cfg ((ch, S) # rest) ws b =
     (case NewConsumer quote cfg ch of
        Inl err \<Rightarrow> (Some (Wrapf (''create consumer for '' @ ch @ '': '') err []), ws, b)
      | Inr c \<Rightarrow>
          start_fleet quote log cfg rest (ws @ [worker_New c S log])
            (boot_log log LevelInfo ''starting worker'' [(''channel'', ch)]
              (boot_event (Opened (KafkaReader ch)) b)))"

definition worker_channel :: "worker \<Rightarrow> channel" where
  "worker_channel w = cons_channel (w_consumer w)"

fun stop_fleet :: "logger \<Rightarrow> worker list \<Rightarrow> boot \<Rightarrow> boot" where
  "stop_fleet log [] b = b"
| "stop_fleet log (w # ws) b =
     stop_fleet log ws (boot_log log LevelInfo ''worker stopped'' [(''channel'', worker_channel w)] b)"

fun close_fleet :: "logger \<Rightarrow> boot_env \<Rightarrow> worker list \<Rightarrow> boot \<Rightarrow> boot" where
  "close_fleet log E [] b = b"
| "close_fleet log E (w # ws) b =
     (case worker_Close E w b of
        (None, b1) \<Rightarrow> close_fleet log E ws b1
      | (Some err, b1) \<Rightarrow>
          close_fleet log E ws
            (boot_log log LevelError ''error closing worker'' [(''error'', error_text err)] b1))"

definition run_fleet ::
    "(string \<Rightarrow> string) \<Rightarrow> (channel \<times> sender) list \<Rightarrow> logger \<Rightarrow> boot_env \<Rightarrow> kafka_config \<Rightarrow> boot
       \<Rightarrow> error go \<times> boot" where
  "run_fleet quote order log E cfg b =
     (case start_fleet quote log cfg order [] b of
        (Some err, ws, b1) \<Rightarrow> (Ret (Some err), b1)
      | (None, ws, b1) \<Rightarrow>
          (let b2 = boot_log log LevelInfo ''all workers started'' [(''count'', show_int (int (length ws)))] b1
           in case be_panic E of
                Some p \<Rightarrow> (Panicked p, b2)
              | None \<Rightarrow>
                  (let b3 = boot_log log LevelInfo ''shutdown signal received, stopping workers...'' [] b2;
                       b4 = close_fleet log E ws (stop_fleet log ws b3)
                   in (Ret None, boot_log log LevelInfo ''all workers shut down cleanly'' [] b4))))"

definition run_worker ::
    "(string \<Rightarrow> string) \<Rightarrow> (channel \<times> sender) list \<Rightarrow> logger \<Rightarrow> boot_env \<Rightarrow> boot \<Rightarrow> error go \<times> boot" where
  "run_worker quote order log E b =
     (case Load (be_fraction E) (be_env E) of
        Inl err \<Rightarrow> (Ret (Some (Wrapf ''load config: '' err [])), b)
      | Inr cfg \<Rightarrow>
          (case store_New E (cfg_postgres cfg) b of
             (Inl err, b1) \<Rightarrow> (Ret (Some (Wrapf ''connect to postgres: '' err [])), b1)
           | (Inr pool, b1) \<Rightarrow>
               (case run_fleet quote order log E (cfg_kafka cfg)
                       (boot_log log LevelInfo ''worker: connected to postgres'' [] b1) of
                  (Ret err, b2) \<Rightarrow> (Ret err, store_Close b2)
                | (Panicked p, b2) \<Rightarrow> (Panicked p, b2))))"

definition main_worker ::
    "(string \<Rightarrow> string) \<Rightarrow> (channel \<times> sender) list \<Rightarrow> boot_env \<Rightarrow> boot \<Rightarrow> int \<times> boot" where
  "main_worker quote order E b =
     (let log = NewLogger in
      case run_worker quote order log E b of
        (Ret None, b') \<Rightarrow> (0, b')
      | (Ret (Some err), b') \<Rightarrow>
          (1, boot_log log LevelError ''worker exited with error'' [(''error'', error_text err)] b')
      | (Panicked p, b') \<Rightarrow> (2, b'))"

subsection \<open>Events\<close>

definition opens :: "boot_event list \<Rightarrow> resource list" where
  "opens evs = List.map_filter (\<lambda>ev. case ev of Opened r \<Rightarrow> Some r | _ \<Rightarrow> None) evs"

definition closes :: "boot_event list \<Rightarrow> resource list" where
  "closes evs = List.map_filter (\<lambda>ev. case ev of Closed r \<Rightarrow> Some r | _ \<Rightarrow> None) evs"

lemma events_simps [simp]:
  "opens [] = []" "closes [] = []"
  "opens (xs @ ys) = opens xs @ opens ys" "closes (xs @ ys) = closes xs @ closes ys"
  "opens (Opened r # xs) = r # opens xs" "opens (Closed r # xs) = opens xs"
  "opens (Listening a t u # xs) = opens xs" "opens (Drained # xs) = opens xs"
  "closes (Closed r # xs) = r # closes xs" "closes (Opened r # xs) = closes xs"
  "closes (Listening a t u # xs) = closes xs" "closes (Drained # xs) = closes xs"
  by (simp_all add: opens_def closes_def List.map_filter_def)

lemma events_map [simp]:
  "opens (map (\<lambda>x. Opened (f x)) xs) = map f xs" "closes (map (\<lambda>x. Opened (f x)) xs) = []"
  "closes (map (\<lambda>x. Closed (f x)) xs) = map f xs" "opens (map (\<lambda>x. Closed (f x)) xs) = []"
  by (induction xs) simp_all

lemma boot_simps [simp]:
  "bt_events (boot_event ev b) = bt_events b @ [ev]" "bt_db (boot_event ev b) = bt_db b"
  "bt_events (boot_log lg lv msg as b) = bt_events b" "bt_db (boot_log lg lv msg as b) = bt_db b"
  "bt_events (store_Close b) = bt_events b @ [Closed Pool]" "bt_db (store_Close b) = bt_db b"
  "bt_events (producer_Close b) = bt_events b @ [Closed KafkaWriter]" "bt_db (producer_Close b) = bt_db b"
  by (simp_all add: boot_event_def boot_log_def store_Close_def producer_Close_def)

lemma store_New_events:
  assumes "store_New E cfg b = (x, b')"
  shows "bt_db b' = bt_db b \<and> (\<exists>pc. x = Inr pc \<and> be_ping E = None \<and> bt_events b' = bt_events b @ [Opened Pool]) \<or>
    bt_db b' = bt_db b \<and> (\<exists>err. x = Inl err \<and>
       (bt_events b' = bt_events b \<or> be_ping E \<noteq> None \<and> bt_events b' = bt_events b @ [Opened Pool]))"
  using assms by (auto simp: store_New_def Let_def split: sum.splits option.splits)

text \<open>What the rest of the server's \<open>run\<close> does once the Store is there.\<close>

lemma run_with_store_events:
  assumes "run_with_store log E cfg b = (err, b')"
  obtains (unmigrated) x where "Migrate (be_migrate E) (bt_db b) = (Some x, bt_db b')" "err \<noteq> None"
      "bt_events b' = bt_events b"
  | (no_redis) "Migrate (be_migrate E) (bt_db b) = (None, bt_db b')" "be_redis_ping E \<noteq> None" "err \<noteq> None"
      "bt_events b' = bt_events b @ [Opened (redis_client (cfg_redis cfg))]"
  | (served) evs where "Migrate (be_migrate E) (bt_db b) = (None, bt_db b')" "be_redis_ping E = None"
      "err = None \<longleftrightarrow> be_listen E = None \<and> be_shutdown E = None"
      "bt_events b' = bt_events b @ [Opened (redis_client (cfg_redis cfg)), Opened KafkaWriter,
         Listening ('':'' @ srv_port (cfg_server cfg)) (srv_read_timeout (cfg_server cfg))
           (srv_write_timeout (cfg_server cfg))] @ evs @ [Closed KafkaWriter, Closed (redis_client (cfg_redis cfg))]"
      "evs = (if err = None then [Drained] else [])"
proof (cases "Migrate (be_migrate E) (bt_db b)")
  case (Pair x d)
  show thesis
  proof (cases x)
    case None
    show thesis
    proof (cases "be_redis_ping E")
      case redis: None
      with None Pair assms show thesis
        by (intro served)
           (auto simp: run_with_store_def run_with_redis_def serve_http_def Let_def
             simp del: emit_NewLogger split: option.splits prod.splits)
    next
      case (Some y)
      with None Pair assms show thesis
        by (intro no_redis) (auto simp: run_with_store_def Let_def)
    qed
  next
    case (Some y)
    with Pair assms show thesis by (intro unmigrated) (auto simp: run_with_store_def Let_def)
  qed
qed

lemma map_of_values: "map_of (map (\<lambda>(k, x). (k, f k x)) xs) k = map_option (f k) (map_of xs k)"
  by (induction xs) auto

lemma start_fleet_ok:
  assumes "\<forall>(ch, S) \<in> set order. \<exists>c. NewConsumer quote cfg ch = Inr c \<and> cons_channel c = ch"
  shows "\<exists>b'. start_fleet quote log cfg order ws b =
      (None, ws @ map (\<lambda>(ch, S). worker_New (projr (NewConsumer quote cfg ch)) S log) order, b') \<and>
    bt_events b' = bt_events b @ map (\<lambda>x. Opened (KafkaReader (fst x))) order \<and> bt_db b' = bt_db b"
  using assms
proof (induction order arbitrary: ws b)
  case (Cons x order)
  obtain ch S where x: "x = (ch, S)" by fastforce
  then obtain c where c: "NewConsumer quote cfg ch = Inr c" using Cons.prems by auto
  have "\<forall>(ch, S) \<in> set order. \<exists>c. NewConsumer quote cfg ch = Inr c \<and> cons_channel c = ch"
    using Cons.prems by simp
  from Cons.IH [OF this, of "ws @ [worker_New c S log]"
      "boot_log log LevelInfo ''starting worker'' [(''channel'', ch)] (boot_event (Opened (KafkaReader ch)) b)"]
  show ?case by (auto simp: x c)
qed simp

lemma stop_fleet_events [simp]:
  "bt_events (stop_fleet log ws b) = bt_events b" "bt_db (stop_fleet log ws b) = bt_db b"
  by (induction ws arbitrary: b) simp_all

lemma close_fleet_events [simp]:
  "bt_events (close_fleet log E ws b) = bt_events b @ map (\<lambda>w. Closed (KafkaReader (worker_channel w))) ws"
  "bt_db (close_fleet log E ws b) = bt_db b"
  by (induction ws arbitrary: b)
     (simp_all add: worker_Close_def consumer_Close_def worker_channel_def split: option.split)

subsection \<open>Properties\<close>

text \<open>What a failed ping leaves open: the pool, or the Redis client.\<close>

definition left_open :: "boot_env \<Rightarrow> config \<Rightarrow> resource \<Rightarrow> bool" where
  "left_open E cfg r \<longleftrightarrow> r = Pool \<and> be_ping E \<noteq> None \<or>
     r = redis_client (cfg_redis cfg) \<and> be_redis_ping E \<noteq> None"

lemma left_open_simps [simp]:
  "left_open E cfg Pool \<longleftrightarrow> be_ping E \<noteq> None" "\<not> left_open E cfg KafkaWriter"
  "left_open E cfg (redis_client (cfg_redis cfg)) \<longleftrightarrow> be_redis_ping E \<noteq> None"
  by (simp_all add: left_open_def redis_client_def)

text \<open>
  C21 (error).  The server exits with 0 exactly when the Store was reached, the schema migrated, Redis
  answered, the listener stayed up until a signal came and the shutdown was clean; it listens, on the
  configured port, only on a migrated database and a Redis that answered; and it closes in reverse
  order all it opened, except a pool or a Redis client whose ping failed, which stays open.
\<close>

theorem main_server_outcome:
  assumes "Load (be_fraction E) (be_env E) = Inr cfg" "main_server E b = (code, b')"
  shows "(code = 0 \<longleftrightarrow>
      (\<exists>pc b1. store_New E (cfg_postgres cfg) b = (Inr pc, b1)) \<and>
      fst (Migrate (be_migrate E) (bt_db b)) = None \<and> be_redis_ping E = None \<and> be_listen E = None \<and>
      be_shutdown E = None) \<and>
    (\<exists>evs. bt_events b' = bt_events b @ evs \<and>
      (\<forall>addr rd wr. Listening addr rd wr \<in> set evs \<longrightarrow>
         addr = '':'' @ srv_port (cfg_server cfg) \<and>
         Migrate (be_migrate E) (bt_db b) = (None, bt_db b') \<and> be_redis_ping E = None) \<and>
      closes evs = rev (filter (\<lambda>r. \<not> left_open E cfg r) (opens evs)))"
proof -
  obtain x b1 where new: "store_New E (cfg_postgres cfg) b = (x, b1)" by fastforce
  obtain err b2 where run: "run_server NewLogger E b = (err, b2)" by fastforce
  have main: "code = (if err = None then 0 else 1)" "bt_events b' = bt_events b2" "bt_db b' = bt_db b2"
    using assms(2) run by (auto simp: main_server_def Let_def split: option.splits)
  show ?thesis
  proof (cases x)
    case (Inl e)
    with run new assms(1) have "err \<noteq> None" "b2 = b1" by (auto simp: run_server_def)
    with main Inl new store_New_events [OF new] show ?thesis by auto
  next
    case (Inr pc)
    obtain b3 where rest: "run_with_store NewLogger E cfg b1 = (err, b3)" "b2 = store_Close b3"
      using run new assms(1) Inr by (auto simp: run_server_def Let_def split: prod.splits)
    have b1: "bt_db b1 = bt_db b" "bt_events b1 = bt_events b @ [Opened Pool]" "be_ping E = None"
      using store_New_events [OF new] Inr by auto
    from rest(1) show ?thesis
      by (cases rule: run_with_store_events) (use main rest(2) b1 new Inr in auto)
  qed
qed

definition example_boot_env :: boot_env where
  "example_boot_env =
     \<lparr>be_env = (\<lambda>_. []), be_fraction = (\<lambda>ds n. 0),
      be_parse = (\<lambda>dsn. Inr \<lparr>max_conns = 4, min_conns = 0, max_conn_lifetime = 0\<rparr>),
      be_create = (\<lambda>pc. if sint (max_conns pc) < 1 then Some (Opaque ''max size must be at least 1'') else None),
      be_ping = None, be_migrate = NoFault, be_redis_ping = None, be_listen = None,
      be_signal = ''interrupt'', be_panic = None, be_shutdown = None, be_close = (\<lambda>_. None)\<rparr>"

definition fresh_boot :: boot where
  "fresh_boot = \<lparr>bt_db = empty_database, bt_out = [], bt_events = []\<rparr>"

lemma example_boot_simps [simp]:
  "be_ping example_boot_env = None" "be_migrate example_boot_env = NoFault"
  "be_redis_ping example_boot_env = None" "be_listen example_boot_env = None"
  "be_panic example_boot_env = None" "be_shutdown example_boot_env = None"
  "bt_db fresh_boot = empty_database" "bt_events fresh_boot = []"
  by (simp_all add: example_boot_env_def fresh_boot_def)

lemma example_loaded: "\<exists>cfg. Load (be_fraction example_boot_env) (be_env example_boot_env) = Inr cfg \<and>
    pg_max_open_conns (cfg_postgres cfg) = 25 \<and> srv_port (cfg_server cfg) = ''8080'' \<and>
    kafka_routing (cfg_kafka cfg) = default_routing"
  by (simp add: Load_def example_boot_env_def getInt_def getEnv_def)

lemma example_new:
  assumes "pg_max_open_conns cfg = 25"
  shows "\<exists>pc. store_New example_boot_env cfg b = (Inr pc, boot_event (Opened Pool) b)"
  by (simp add: store_New_def example_boot_env_def Let_def assms)

text \<open>A clean run, and one in which Redis does not answer: its client is never closed.\<close>

theorem main_server_outcome_witness:
  "(\<exists>b'. main_server example_boot_env fresh_boot = (0, b') \<and>
      closes (bt_events b') = rev (opens (bt_events b'))) \<and>
   (\<exists>b' cfg. Load (be_fraction example_boot_env) (be_env example_boot_env) = Inr cfg \<and>
      main_server (example_boot_env\<lparr>be_redis_ping := Some (Opaque ''refused'')\<rparr>) fresh_boot = (1, b') \<and>
      redis_client (cfg_redis cfg) \<notin> set (closes (bt_events b')))"
proof -
  obtain code b' where run: "main_server example_boot_env fresh_boot = (code, b')" by fastforce
  obtain cfg where cfg: "Load (be_fraction example_boot_env) (be_env example_boot_env) = Inr cfg"
      "pg_max_open_conns (cfg_postgres cfg) = 25" using example_loaded by blast
  have all: "\<not> left_open example_boot_env cfg r" for r by (simp add: left_open_def)
  from main_server_outcome [OF cfg(1) run] example_new [OF cfg(2), of fresh_boot] migrate_empty run
  have "\<exists>b'. main_server example_boot_env fresh_boot = (0, b') \<and>
      closes (bt_events b') = rev (opens (bt_events b'))"
    by (auto simp: all)
  let ?E = "example_boot_env\<lparr>be_redis_ping := Some (Opaque ''refused'')\<rparr>"
  obtain code' b'' where refused: "main_server ?E fresh_boot = (code', b'')" by fastforce
  from cfg(1) have "Load (be_fraction ?E) (be_env ?E) = Inr cfg" by simp
  note bad = main_server_outcome [OF this refused]
  then have "code' = 1" using refused by (auto simp: main_server_def Let_def split: prod.splits option.splits)
  moreover from bad have "redis_client (cfg_redis cfg) \<notin> set (closes (bt_events b''))" by auto
  ultimately show ?thesis using refused cfg(1)
    \<open>\<exists>b'. main_server example_boot_env fresh_boot = (0, b') \<and> closes (bt_events b') = rev (opens (bt_events b'))\<close>
    by blast
qed

text \<open>
  C22 (functional).  The worker program, on the default routing: in whatever order Go visits the map of
  senders, one worker per channel is started, each with that channel's own sender and consumer group
  (the workers of the system model); on a signal it closes every reader and then the pool, and
  exits with 0 whatever the closings answer; a panic of one worker ends the process with code 2 and
  nothing is closed.
\<close>

theorem main_worker_outcome:
  assumes "Load (be_fraction E) (be_env E) = Inr cfg"
    and "store_New E (cfg_postgres cfg) b = (Inr pc, b1)"
    and "distinct (map fst order)" "set order = {(ch, S). senders NewLogger ch = Some S}"
    and "main_worker quote order E b = (code, b')"
  shows "\<exists>ws b2 evs.
    start_fleet quote NewLogger (cfg_kafka cfg) order []
      (boot_log NewLogger LevelInfo ''worker: connected to postgres'' [] b1) = (None, ws, b2) \<and>
    map_of (map (\<lambda>w. (worker_channel w, w)) ws) = start_workers quote (cfg_kafka cfg) \<and>
    bt_events b' = bt_events b @ evs \<and> bt_db b' = bt_db b \<and>
    opens evs = Pool # map KafkaReader (map fst order) \<and>
    (case be_panic E of
       None \<Rightarrow> code = 0 \<and> closes evs = map KafkaReader (map fst order) @ [Pool]
     | Some p \<Rightarrow> code = 2 \<and> closes evs = [])"
proof -
  let ?log = NewLogger and ?k = "cfg_kafka cfg"
  let ?start = "boot_log ?log LevelInfo ''worker: connected to postgres'' [] b1"
  have routing: "kafka_routing ?k = default_routing" using assms(1) by (auto simp: Load_def)
  have consumer: "\<exists>c. NewConsumer quote ?k ch = Inr c \<and> cons_channel c = ch" if "senders ?log ch = Some S" for ch S
    using that by (cases rule: senders_cases) (simp_all add: NewConsumer_def routing)
  then have "\<forall>(ch, S) \<in> set order. \<exists>c. NewConsumer quote ?k ch = Inr c \<and> cons_channel c = ch"
    using assms(4) by auto
  from start_fleet_ok [OF this, of ?log "[]" ?start] obtain b2 where b2:
    "start_fleet quote ?log ?k order [] ?start =
       (None, map (\<lambda>(ch, S). worker_New (projr (NewConsumer quote ?k ch)) S ?log) order, b2)"
    "bt_events b2 = bt_events ?start @ map (\<lambda>x. Opened (KafkaReader (fst x))) order" "bt_db b2 = bt_db ?start"
    by auto
  define ws where "ws = map (\<lambda>(ch, S). worker_New (projr (NewConsumer quote ?k ch)) S ?log) order"
  have own: "worker_channel (worker_New (projr (NewConsumer quote ?k ch)) S ?log) = ch"
    if "(ch, S) \<in> set order" for ch S
    using that assms(4) consumer [of ch S] by (auto simp: worker_channel_def worker_New_def)
  then have closed: "map (\<lambda>w. Closed (KafkaReader (worker_channel w))) ws =
      map (\<lambda>x. Closed (KafkaReader (fst x))) order" by (auto simp: ws_def)
  have new: "bt_db b1 = bt_db b" "bt_events b1 = bt_events b @ [Opened Pool]"
    using store_New_events [OF assms(2)] by auto
  have keyed: "map (\<lambda>w. (worker_channel w, w)) ws =
      map (\<lambda>(ch, S). (ch, worker_New (projr (NewConsumer quote ?k ch)) S ?log)) order"
    using own by (auto simp: ws_def)
  have fleet: "map_of (map (\<lambda>w. (worker_channel w, w)) ws) = start_workers quote ?k"
  proof
    fix ch
    have "map_of order ch = senders ?log ch"
    proof (cases "senders ?log ch")
      case None
      then show ?thesis using assms(4) by (auto simp: map_of_eq_None_iff)
    next
      case (Some S)
      then have "(ch, S) \<in> set order" using assms(4) by simp
      with assms(3) Some show ?thesis by simp
    qed
    then show "map_of (map (\<lambda>w. (worker_channel w, w)) ws) ch = start_workers quote ?k ch"
      using consumer [of ch] unfolding keyed start_workers_def map_of_values
      by (cases "senders ?log ch") auto
  qed
  note started = b2(1) [folded ws_def]
  have "\<exists>evs. bt_events b' = bt_events b @ evs \<and> bt_db b' = bt_db b \<and>
    opens evs = Pool # map KafkaReader (map fst order) \<and>
    (case be_panic E of
       None \<Rightarrow> code = 0 \<and> closes evs = map KafkaReader (map fst order) @ [Pool]
     | Some p \<Rightarrow> code = 2 \<and> closes evs = [])"
    using assms(1,2,5) new b2(2,3) started closed
    by (cases "be_panic E")
       (auto simp: main_worker_def run_worker_def run_fleet_def Let_def comp_def simp del: emit_NewLogger)
  with started fleet show ?thesis by blast
qed

theorem main_worker_outcome_witness:
  "\<exists>b'. main_worker id [(ChannelSMS, NewSMSSender NewLogger), (ChannelIOS, NewAPNSSender NewLogger),
      (ChannelEmail, NewEmailSender NewLogger), (ChannelAndroid, NewFCMSender NewLogger)]
      example_boot_env fresh_boot = (0, b') \<and>
    closes (bt_events b') = [KafkaReader ChannelSMS, KafkaReader ChannelIOS, KafkaReader ChannelEmail,
      KafkaReader ChannelAndroid, Pool]"
proof -
  let ?o = "[(ChannelSMS, NewSMSSender NewLogger), (ChannelIOS, NewAPNSSender NewLogger),
      (ChannelEmail, NewEmailSender NewLogger), (ChannelAndroid, NewFCMSender NewLogger)]"
  obtain code b' where run: "main_worker id ?o example_boot_env fresh_boot = (code, b')" by fastforce
  obtain cfg where cfg: "Load (be_fraction example_boot_env) (be_env example_boot_env) = Inr cfg"
      "pg_max_open_conns (cfg_postgres cfg) = 25" using example_loaded by blast
  obtain pc where "store_New example_boot_env (cfg_postgres cfg) fresh_boot =
      (Inr pc, boot_event (Opened Pool) fresh_boot)" using example_new [OF cfg(2)] by blast
  moreover have "distinct (map fst ?o)" by (simp add: channel_defs)
  moreover have "set ?o = {(ch, S). senders NewLogger ch = Some S}"
    using senders_at [of NewLogger] by (auto elim: senders_cases)
  ultimately show ?thesis using main_worker_outcome [OF cfg(1) _ _ _ run] run by fastforce
qed

end
