(* ===== verification/Spec2Isabelle.thy ===== *)
theory Spec2Isabelle
  imports Startup
begin

text \<open>
  A model of the notification system under \<^verbatim>\<open>src/\<close>: an HTTP API (\<^verbatim>\<open>cmd/server\<close>) that accepts, stores and
  queues notifications, and a worker process (\<^verbatim>\<open>cmd/worker\<close>) that reads them from Kafka and delivers them,
  one goroutine and one sender per channel.

  \<^bold>\<open>How the parts interact.\<close>  \<open>POST /api/v1/notify\<close> passes \<open>RequestID\<close>, \<open>Logger\<close> and \<open>Recoverer\<close> and reaches
  \<open>SendNotification\<close>: decode and validate, ask the limiter (Redis), find the user and the preferences
  (cache in Redis in front of Postgres), insert the notification, write it to the topic, answer 202.
  Each of the four consumer groups reads every message of the topic; its worker checks that no delivery
  log of the notification says \<open>sent\<close>, inserts a pending log, sends with retries and updates the log.
  API and workers share the database and the topic and nothing else.

  \<^bold>\<open>The theories, in the order of the dependencies.\<close>

  \<^item> \<open>Prelude\<close>: Go's errors with \<open>%w\<close>, outcomes that may panic, the faults of a remote call, \<open>Itoa\<close>; the
    simplification rules the others share.  \<open>Logger\<close> (\<^verbatim>\<open>pkg/logger\<close>): loggers with attributes, contexts,
    the lines printed.  \<open>Metrics\<close> (\<^verbatim>\<open>pkg/metrics\<close>): one constructor per declared series.
  \<^item> \<open>Utf8\<close>, \<open>Json\<close>, \<open>Jsontext\<close>, \<open>Rfc3339\<close>, \<open>Http\<close>: what the program uses of Go's standard library, with the
    bytes it produces and accepts.
  \<^item> \<open>Domain\<close> (\<^verbatim>\<open>internal/domain\<close>): the structs and string types.  \<open>Wire\<close>: their JSON form and the round trip
    between \<open>json.Marshal\<close> and \<open>json.Unmarshal\<close>.
  \<^item> \<open>Sql\<close>, \<open>Integrity\<close>: the fragment of SQL the Store uses and the integrity each statement keeps.  \<open>Store\<close>
    (\<^verbatim>\<open>internal/store/postgres.go\<close>): schema, queries and methods.  \<open>Repository\<close>: the tables as lists of
    structs.  \<open>Contracts\<close>: the interfaces of \<^verbatim>\<open>internal/domain/repository.go\<close> as locales with the Store as
    their instance.  \<open>Persistence\<close>: the Store's properties.
  \<^item> \<open>Redis\<close>: the four commands used, as a locale.  \<open>Ratelimit\<close> (\<^verbatim>\<open>internal/ratelimit\<close>): \<open>Allow\<close> and histories of
    calls.  \<open>Cache\<close> (\<^verbatim>\<open>internal/store/cache.go\<close>): both lookups, \<open>UserRepository\<close> as a locale with cache and
    Store as instances, coherence of the cache with the database.  \<open>Staleness\<close>: histories of lookups around a
    change of the database.
  \<^item> \<open>Config\<close> (\<^verbatim>\<open>internal/config\<close>), \<open>Kafka\<close> (\<^verbatim>\<open>internal/kafka\<close>), \<open>Retry\<close> (\<^verbatim>\<open>internal/retry\<close>), \<open>Sender\<close>
    (\<^verbatim>\<open>internal/sender\<close>, with the interface \<open>Sender\<close> as a locale and the five senders as instances).
  \<^item> \<open>Api\<close> (\<^verbatim>\<open>internal/api/handler.go\<close>): the three handlers.  \<open>Intake\<close>: what \<open>SendNotification\<close> guarantees on the
    interfaces alone, and on the server's own wiring.  \<open>Commands\<close>: limiter and cache one remote call at a time.
    \<open>Requests\<close>: the handler one component call (\<open>request_step\<close>) and one remote call (\<open>remote_step\<close>) at a time.
    \<open>Middleware\<close> (\<^verbatim>\<open>middleware.go\<close>, \<^verbatim>\<open>router.go\<close>): the chain and the routes.
  \<^item> \<open>Worker\<close> (\<^verbatim>\<open>internal/worker\<close>): \<open>process\<close> and \<open>Run\<close> on the interfaces alone.  \<open>Delivery\<close>: the four workers on
    the Store.  \<open>Steps\<close>: \<open>process\<close> one remote call at a time.
  \<^item> \<open>System\<close>: the running system as a step relation.  \<open>Admission\<close>: the rate limit under concurrent requests.
    \<open>Replies\<close>: what is queued and answered, against the database.  \<open>Startup\<close>: \<open>main\<close> and \<open>run\<close> of both programs.  This
    theory: the properties of the whole.

  \<^bold>\<open>Conventions.\<close>  A struct is a record, a string is its list of bytes, an error is \<open>None\<close> or \<open>Some\<close> of a Go
  error, a call that may panic returns \<open>Ret\<close> or \<open>Panicked\<close>.  State is passed and returned: the database,
  Redis, the broker, the standard output, the metrics.  A call of a remote service takes a fault: none, refused,
  or carried out with the reply lost; every property quantifies over them unless it says otherwise.
  Durations are 64-bit words in nanoseconds, times are integers in nanoseconds, SQL integers are checked
  against 32 bits.

  \<^bold>\<open>The running system.\<close>  A state holds the API's state, the requests under way (each at a point of
  \<open>remote_step\<close>: between any two of its calls of Redis, Postgres and Kafka), the answers given, the offsets of the groups, the calls under way (each at a point of \<open>worker_step\<close>) and the
  worker process's output.  A step is the arrival of a request, one of its calls, its reply, the passing of time
  in Redis, a group's first join, the reading of a message, one of a worker's calls, its end, the loss of the
  worker process or of the API with everything under way, or, where the property allows it, the setting back of
  an offset.  The invariants are proved by induction over these steps from \<open>base_ok\<close> (integrity, coherence, and
  that a request between insert and write owns its id), \<open>topic_ok\<close>, \<open>jobs_ok\<close>, \<open>sends_ok\<close> and \<open>count_ok\<close>.  That the
  steps of one call without interruption are the call is \<open>process_refined\<close> and \<open>remote_refined\<close>.  \<open>admission\<close>
  adds the counter in Redis and the permits of the requests under way, \<open>intake_ok\<close> what each request has
  established before its next call.

  \<^bold>\<open>Bounds.\<close>  No definition uses fuel.  \<open>do_loop\<close> terminates because the distance of the attempt to the limit
  falls; \<open>step_bound\<close> is the number of attempts plus four (check, insert, the loop's exit, update); a request
  takes at most five component calls and ten remote calls (two of the limiter, three of each lookup, the
  insert, the write); \<open>rank\<close> counts them down, so a request ends whatever the others do between its calls.
  The loop \<open>Run\<close> consumes the list of the reader's answers and is blocked at its end.

  \<^bold>\<open>Parameters and what is assumed of them.\<close>  Code outside the repository is an argument, with its documented
  behaviour in a locale: Redis (\<open>redis_server\<close>), \<open>WriteMessages\<close> (\<open>kafka_writer\<close>: a call appends at
  most ten copies of its message, one per attempt, and nothing else, whatever it returns), chi (\<open>chi_router\<close>: static paths).  Further arguments without assumptions: the
  verb \<open>%q\<close>, the error text of the JSON decoder, the label check of the metrics library, the floating
  point part of \<open>ParseDuration\<close> and of the back-off beyond 64 bits, and the answers of pgxpool and the listener
  at start.  Each locale has an executable instance, on which the witnesses run.  Postgres is not a
  parameter: its statements are in the source, and \<open>Sql\<close> gives them their meaning.  One hypothesis is about the
  environment: a lost connection does not produce an error equal to \<open>pgx.ErrNoRows\<close>.

  \<^bold>\<open>What the properties show.\<close>  For the whole: accounting, at most one hand-over per channel and copy on the
  topic, progress, statuses that stay pending.  For the API: nothing queued or accepted that is not stored and
  wanted and a limit on accepted requests, both under concurrent requests, an answer after ten calls whatever
  the others do, survival of a Redis outage, replies on every branch, panics contained.  For the workers: what
  each call records and sends, runs that deliver exactly once and at most once, the two ways this fails.  For
  the parts: integrity, round trips, cache transparency and staleness, retry counts, routing,
  configuration, the order of startup and shutdown.  Several properties state weaknesses of the code as
  it is: a short device token ends the worker process, a lost update delivers twice, a lost \<open>EXPIRE\<close> locks a
  user out, a NULL column hides a user, any group delivers any message on its own channel.

  \<^bold>\<open>Not modelled.\<close>  The SDK calls of the providers (comments in the source; a hand-over is the log line the sender
  prints), the HTTP server's parsing and timeouts, histogram buckets and help texts of the metrics, the pages that
  chi and the metrics library serve, Kafka's balancing inside a group and its retention (the copies of one write are put on the topic
  together, when the call is made), connection pooling
  beyond its limits, context deadlines as such (they are faults of the calls they end).  The order of log lines of
  different goroutines is that of the steps.  Docker, Prometheus and module files are not programs of the
  system.
\<close>

section \<open>Properties of the whole system\<close>

text \<open>
  C1 (invariant).  In every state the running system can reach, whatever the interleaving of requests
  and workers, the faults, the crashes and the re-reads: the database keeps its integrity; every
  message on the topic is a notification that is in the database, put there by one write only, so that
  messages with the same id are the same message, at most ten of them (the attempts of the writer);
  and whatever was handed over on a channel had been published and has a delivery log of that channel.
\<close>

theorem system_accounts:
  assumes "deployed R entry clock advance ttl put topic_log D p l lg" "reachable D entry again \<sigma>"
  shows "store_ok (sy_db \<sigma>) \<and>
    (\<forall>x \<in> set (topic_ids D \<sigma>). \<exists>k. x = Some k \<and> stored_in (sy_db \<sigma>) k) \<and>
    (\<forall>x. count_list (topic_ids D \<sigma>) x \<le> 10) \<and>
    (\<forall>m \<in> set (dp_topic D (srv_broker (sy_srv \<sigma>))). \<forall>m' \<in> set (dp_topic D (srv_broker (sy_srv \<sigma>))).
       msg_id m = msg_id m' \<longrightarrow> m = m') \<and>
    (\<forall>ch \<in> set all_channels. \<forall>k. 0 < sends_on ch k (sy_out \<sigma>) \<longrightarrow>
       Some k \<in> set (topic_ids D \<sigma>) \<and>
       (\<exists>d \<in> set (logs (sy_db \<sigma>)). dlog_notification_id d = k \<and> dlog_channel d = ch))"
proof -
  have topic: "topic_ids D \<sigma> = map msg_id (topic_log (srv_broker (sy_srv \<sigma>)))" "dp_topic D = topic_log"
    using deployed.its_topic [OF assms(1)] by (simp_all add: topic_ids_def)
  have base: "store_ok (sy_db \<sigma>)"
    using deployed.reachable_base [OF assms] by (simp add: deployed.base_ok_def [OF assms(1)])
  have "deployed.topic_ok topic_log D \<sigma>" by (rule deployed.reachable_topic [OF assms])
  note once = this [unfolded deployed.topic_ok_def [OF assms(1)] written_once_def, folded topic(1)]
  have "deployed.sends_ok D \<sigma>" using deployed.reachable_sound [OF assms] by blast
  then have "\<forall>ch \<in> set all_channels. \<forall>k. 0 < sends_on ch k (sy_out \<sigma>) \<longrightarrow>
      covered (sy_db \<sigma>) ch k \<and> Some k \<in> set (topic_ids D \<sigma>)"
    by (simp add: deployed.sends_ok_def [OF assms(1)])
  with base once show ?thesis unfolding covered_def topic(2) by blast
qed

text \<open>Here the SMS worker has handed over a notification and another worker has died on the same message.\<close>

theorem system_accounts_witness:
  "\<exists>\<sigma> :: (string keyspace, broker) system. reachable example_deployment ks_map True \<sigma> \<and>
    topic_ids example_deployment \<sigma> = [Some note1] \<and> stored_in (sy_db \<sigma>) note1 \<and>
    sends_on ChannelSMS note1 (sy_out \<sigma>) = 1 \<and>
    (\<exists>d \<in> set (logs (sy_db \<sigma>)). dlog_notification_id d = note1 \<and> dlog_channel d = ChannelSMS)"
proof -
  obtain \<sigma> where \<sigma>: "reachable example_deployment ks_map True \<sigma>"
      "topic_ids example_deployment \<sigma> = [Some note1]" "sends_on ChannelSMS note1 (sy_out \<sigma>) = 1"
    by (rule muted_crashed [of True])
  have "ChannelSMS \<in> set all_channels" by (simp add: all_channels_def)
  with system_accounts [OF example.deployed_axioms \<sigma>(1)] \<sigma>(3)
  have "\<exists>d \<in> set (logs (sy_db \<sigma>)). dlog_notification_id d = note1 \<and> dlog_channel d = ChannelSMS" by simp
  moreover from system_accounts [OF example.deployed_axioms \<sigma>(1)] \<sigma>(2) have "stored_in (sy_db \<sigma>) note1" by simp
  ultimately show ?thesis using \<sigma> by blast
qed

text \<open>
  C2 (bounds).  As long as no consumer group is set back, a channel hands over a notification at most
  once for each copy on the topic, even if workers crash at any point and whatever their database calls
  answer: once if the write needed one attempt, never more than ten times.
\<close>

theorem once_per_copy:
  assumes "deployed R entry clock advance ttl put topic_log D p l lg" "reachable D entry False \<sigma>"
    and "ch \<in> set all_channels"
  shows "sends_on ch k (sy_out \<sigma>) \<le> count_list (topic_ids D \<sigma>) (Some k) \<and> sends_on ch k (sy_out \<sigma>) \<le> 10"
proof -
  have "topic_ids D \<sigma> = map msg_id (topic_log (srv_broker (sy_srv \<sigma>)))"
    using deployed.its_topic [OF assms(1)] by (simp add: topic_ids_def)
  moreover have "deployed.topic_ok topic_log D \<sigma>" by (rule deployed.reachable_topic [OF assms(1,2)])
  ultimately have "count_list (topic_ids D \<sigma>) (Some k) \<le> 10"
    by (simp add: deployed.topic_ok_def [OF assms(1)] written_once_def)
  with deployed.reachable_count [OF assms, of k] show ?thesis by simp
qed

theorem once_per_copy_witness:
  "\<exists>\<sigma> :: (string keyspace, broker) system. reachable example_deployment ks_map False \<sigma> \<and>
    sy_offset \<sigma> ChannelEmail = Some 1 \<and> sy_jobs \<sigma> = (\<lambda>_. None) \<and>
    sends_on ChannelSMS note1 (sy_out \<sigma>) = 1 \<and>
    sends_on ChannelSMS note1 (sy_out \<sigma>) \<le> count_list (topic_ids example_deployment \<sigma>) (Some note1) \<and>
    count_list (topic_ids example_deployment \<sigma>) (Some note1) = 1"
proof -
  obtain \<sigma> where \<sigma>: "reachable example_deployment ks_map False \<sigma>"
      "topic_ids example_deployment \<sigma> = [Some note1]" "sends_on ChannelSMS note1 (sy_out \<sigma>) = 1"
      "sy_offset \<sigma> ChannelEmail = Some 1" "sy_jobs \<sigma> = (\<lambda>_. None)"
    by (rule muted_crashed [of False])
  have "ChannelSMS \<in> set all_channels" by (simp add: all_channels_def)
  from once_per_copy [OF example.deployed_axioms \<sigma>(1) this, of note1] \<sigma> show ?thesis by auto
qed

text \<open>
  C20 (invariant).  Nothing ever updates a notification's status: in every reachable state, whatever
  has been delivered, a status request that is answered 200 is answered with the notification it asked
  for and \<open>pending\<close>, and it changes nothing.
\<close>

theorem status_stays_pending:
  assumes "deployed R entry clock advance ttl put topic_log D p l lg" "reachable D entry again \<sigma>"
    and "GetNotificationStatus (dp_libs D) (dp_handler D) e req fresh_response (sy_srv \<sigma>) = (rsp, s')"
  shows "s' = sy_srv \<sigma> \<and>
    (status_of rsp = 200 \<longrightarrow>
       (\<exists>n \<in> set (notifs (sy_db \<sigma>)). uuid_in (Query_Get (rq_query req) ''id'') = Some (notif_id n) \<and>
          rsp_body rsp = json_text (status_response_json
          \<lparr>stat_notification_id = notif_id n, stat_channel = notif_channel n,
           stat_status = StatusPending,
           stat_created_at = format_rfc3339 (lib_tz (dp_libs D)) (notif_created_at n)\<rparr>) @ [CHR 0x0A]))"
proof -
  have ok: "store_ok (sy_db \<sigma>)" "\<forall>n \<in> set (notifs (sy_db \<sigma>)). notif_status n = StatusPending"
    using deployed.reachable_base [OF assms(1,2)] deployed.reachable_topic [OF assms(1,2)]
    by (simp_all add: deployed.base_ok_def [OF assms(1)] deployed.topic_ok_def [OF assms(1)])
  have repo: "h_notif_repo (dp_handler D) = store_notif_repo"
    using deployed.its_handler [OF assms(1)] by simp
  have found: "uuid_in i = Some (notif_id n) \<and> n \<in> set (notifs (sy_db \<sigma>))"
    if "nrepo_find store_notif_repo f i (sy_db \<sigma>) = Inr n" for f i n
    using store_notifs.find_ok [OF ok(1) that] by blast
  show ?thesis
    using assms(3) ok(2) found
    by (auto simp: GetNotificationStatus_def Let_def repo split: if_splits sum.splits)
qed

text \<open>Here the notification asked for has been delivered, and its delivery log says so.\<close>

theorem status_stays_pending_witness:
  "\<exists>(\<sigma> :: (string keyspace, broker) system) rsp (n :: notification). reachable example_deployment ks_map True \<sigma> \<and>
    sent_in (logs (sy_db \<sigma>)) note1 \<and>
    GetNotificationStatus ex_libs ex_handler (ex_env note1)
      ((ex_request ChannelEmail)\<lparr>rq_query := ''id='' @ note1\<rparr>) fresh_response (sy_srv \<sigma>) = (rsp, sy_srv \<sigma>) \<and>
    status_of rsp = 200 \<and> notif_id n = note1 \<and>
    rsp_body rsp = json_text (status_response_json
      \<lparr>stat_notification_id = note1, stat_channel = notif_channel n, stat_status = StatusPending,
       stat_created_at = format_rfc3339 0 (notif_created_at n)\<rparr>) @ [CHR 0x0A]"
proof -
  obtain \<sigma> where \<sigma>: "reachable example_deployment ks_map True \<sigma>" "sent_in (logs (sy_db \<sigma>)) note1"
      "\<exists>n. FindByID NoFault note1 (sy_db \<sigma>) = Inr n"
    by (rule muted_delivered [of True])
  let ?req = "(ex_request ChannelEmail)\<lparr>rq_query := ''id='' @ note1\<rparr>"
  have asked: "Query_Get (rq_query ?req) ''id'' = note1" "note1 \<noteq> []"
    using Query_Get_plain [of note1 "''id''"] by (simp_all add: note1_def)
  obtain rsp s' where run: "GetNotificationStatus ex_libs ex_handler (ex_env note1) ?req fresh_response (sy_srv \<sigma>) = (rsp, s')"
    by fastforce
  then have ok: "status_of rsp = 200"
    using \<sigma>(3) asked by (auto simp: GetNotificationStatus_def ex_handler_def store_notif_repo_def Let_def)
  from run have "GetNotificationStatus (dp_libs example_deployment) (dp_handler example_deployment) (ex_env note1)
      ?req fresh_response (sy_srv \<sigma>) = (rsp, s')"
    by (simp add: example_deployment_def)
  note answer = status_stays_pending [OF example.deployed_axioms \<sigma>(1) this]
  have tz: "lib_tz (dp_libs example_deployment) = 0" by (simp add: example_deployment_def ex_libs_def)
  from answer ok obtain n :: notification where n: "Some note1 = Some (notif_id n)" "rsp_body rsp = json_text (status_response_json
      \<lparr>stat_notification_id = notif_id n, stat_channel = notif_channel n, stat_status = StatusPending,
       stat_created_at = format_rfc3339 0 (notif_created_at n)\<rparr>) @ [CHR 0x0A]"
    unfolding asked(1) uuid_examples(1) tz by blast
  from n(1) have "notif_id n = note1" by simp
  with n(2) answer \<sigma>(1,2) run ok show ?thesis
    by (intro exI [of _ \<sigma>] exI [of _ rsp] exI [of _ n]) simp
qed

text \<open>
  C16 (liveness).  A queued notification can always be delivered: in any reachable state with the workers
  idle, the group that reads the next message can hand it over on its own channel and record it as
  sent, if the notification carries the recipient that channel needs, and no device token short enough
  to panic, and was not sent before.  Neither the
  channel the request named nor the user's preferences play a part: the first group to read it wins,
  and the others then find it sent.
\<close>

theorem first_reader_delivers:
  assumes "deployed R entry clock advance ttl put topic_log D p l lg" "reachable D entry again \<sigma>"
    and "sy_jobs \<sigma> = (\<lambda>_. None)" "dp_workers D ch = Some w" "sy_offset \<sigma> ch = Some i"
    and "i < length (queue D w \<sigma>)" "unmarshal_notification (msg_value (queue D w \<sigma> ! i)) = Some n"
    and "uuid_in (notif_id n) = Some k" "\<not> sent_in (logs (sy_db \<sigma>)) k"
    and "recipient ch n \<noteq> []" "\<not> token_panics ch n"
    and "uuid_in lid = Some lid" "lid \<notin> dlog_id ` set (logs (sy_db \<sigma>))"
  shows "\<exists>\<sigma>'. reachable D entry again \<sigma>' \<and> sy_jobs \<sigma>' = (\<lambda>_. None) \<and>
    sy_offset \<sigma>' = (sy_offset \<sigma>)(ch \<mapsto> Suc i) \<and> sent_in (logs (sy_db \<sigma>')) k \<and>
    (\<forall>c \<in> set all_channels.
       sends_on c k (sy_out \<sigma>') = sends_on c k (sy_out \<sigma>) + (if c = ch then 1 else 0))"
proof -
  have "ReadOne (dp_complaint D) (w_consumer w) (Inr (msg_value (queue D w \<sigma> ! i), int i)) = Inr n"
    using assms(7) by (simp add: ReadOne_def)
  from deployed.head_delivered [OF assms(1,2) _ assms(4-6) this assms(8-11), of "calm_env lid" lid]
    assms(3,12,13) show ?thesis by (auto simp: deployed.idle_def [OF assms(1)])
qed

theorem first_reader_delivers_witness:
  "\<exists>(\<sigma> :: (string keyspace, broker) system) m n prefs. reachable example_deployment ks_map False \<sigma> \<and>
    broker_log (srv_broker (sy_srv \<sigma>)) = [m] \<and> unmarshal_notification (msg_value m) = Some n \<and>
    notif_channel n = ChannelEmail \<and>
    (\<exists>\<sigma>'. reachable example_deployment ks_map False \<sigma>' \<and> sent_in (logs (sy_db \<sigma>')) note1 \<and>
       sends_on ChannelSMS note1 (sy_out \<sigma>') = 1 \<and> sends_on ChannelEmail note1 (sy_out \<sigma>') = 0) \<and>
    FindPreferences NoFault alice (sy_db \<sigma>) = Inr prefs \<and> \<not> isChannelEnabled ChannelSMS prefs"
proof -
  obtain \<sigma> m where \<sigma>: "reachable example_deployment ks_map False \<sigma>" "sy_jobs \<sigma> = (\<lambda>_. None)"
      "sy_offset \<sigma> = (\<lambda>_. Some 0)" "sy_out \<sigma> = []" "logs (sy_db \<sigma>) = []"
      "FindPreferences NoFault alice (sy_db \<sigma>) = FindPreferences NoFault alice db_muted"
      "broker_log (srv_broker (sy_srv \<sigma>)) = [m]" "msg_topic m = ''notifications''"
      "unmarshal_notification (msg_value m) = Some muted_note"
    using muted_queued [of False] by blast
  obtain w where w: "dp_workers example_deployment ChannelSMS = Some w"
      "rc_topic (cons_reader (w_consumer w)) = ''notifications''"
    using start_workers_sms by blast
  have q: "queue example_deployment w \<sigma> = [m]"
    using \<sigma>(7,8) w(2) by (simp add: queue_def example_deployment_def)
  have off: "sy_offset \<sigma> ChannelSMS = Some 0" using \<sigma>(3) by simp
  have tok: "\<not> token_panics ChannelSMS muted_note" by (simp add: token_panics_def channel_defs)
  have "\<exists>\<sigma>'. reachable example_deployment ks_map False \<sigma>' \<and> sy_jobs \<sigma>' = (\<lambda>_. None) \<and>
    sy_offset \<sigma>' = (sy_offset \<sigma>)(ChannelSMS \<mapsto> Suc 0) \<and> sent_in (logs (sy_db \<sigma>')) note1 \<and>
    (\<forall>c \<in> set all_channels.
       sends_on c note1 (sy_out \<sigma>') = sends_on c note1 (sy_out \<sigma>) + (if c = ChannelSMS then 1 else 0))"
    by (rule first_reader_delivers [OF example.deployed_axioms \<sigma>(1,2) w(1) off, where n = muted_note and lid = log1])
       (use \<sigma> q tok uuid_examples muted_contents(4) in \<open>simp_all add: muted_note_fields\<close>)
  then obtain \<sigma>' where \<sigma>': "reachable example_deployment ks_map False \<sigma>'" "sent_in (logs (sy_db \<sigma>')) note1"
    "\<forall>c \<in> set all_channels.
       sends_on c note1 (sy_out \<sigma>') = sends_on c note1 (sy_out \<sigma>) + (if c = ChannelSMS then 1 else 0)"
    by blast
  have "sends_on c note1 (sy_out \<sigma>) = 0" for c using \<sigma>(4) by (simp add: sends_on_def)
  moreover have "ChannelSMS \<in> set all_channels" "ChannelEmail \<in> set all_channels" "ChannelEmail \<noteq> ChannelSMS"
    by (simp_all add: all_channels_def channel_defs)
  ultimately have "sends_on ChannelSMS note1 (sy_out \<sigma>') = 1" "sends_on ChannelEmail note1 (sy_out \<sigma>') = 0"
    using \<sigma>'(3) by simp_all
  moreover have "\<not> isChannelEnabled ChannelSMS \<lparr>prefs_user_id = alice, prefs_email_enabled = True,
      prefs_sms_enabled = False, prefs_push_enabled = False\<rparr>"
    by (simp add: isChannelEnabled_def channel_defs)
  moreover note \<sigma>(6) [unfolded muted_prefs]
  ultimately show ?thesis
    using \<sigma>(1,7,9) \<sigma>'(1,2) muted_note_fields(2) by blast
qed

end
